(* ===== verification/Prelude.thy ===== *)
theory Prelude
  imports Main "HOL-Library.Sublist"
begin

text \<open>
  What every component of the development shares.

  \<^item> How a C computation ends: \<open>stop\<close> lists the abnormal ends (undefined behaviour of the
    C code, \<open>exit\<close>, or a loop that used up the fuel its caller gave it); a computation over
    a state is a \<open>prog\<close>, which either stops or returns a value with the next state.
  \<^item> A weakest-precondition calculus \<open>wp\<close> over \<open>prog\<close>, with one equation for each
    combinator, collected as simplification rules.
  \<^item> C strings (lists of bytes without the terminator), fixed character arrays, and the
    functions of \<open>string.h\<close> and \<open>stdio.h\<close> the program uses.
  \<^item> \<open>int\<close> arithmetic, whose overflow is undefined behaviour.
\<close>

section \<open>Computations that can stop\<close>

datatype ub =
    Null_deref          \<comment> \<open>a NULL pointer is dereferenced\<close>
  | Out_of_bounds       \<comment> \<open>an array is read or written outside its bounds\<close>
  | Signed_overflow     \<comment> \<open>signed arithmetic leaves the range of its type\<close>
  | Unterminated_string \<comment> \<open>a char array without a NUL is used as a string\<close>
  | Uninitialised       \<comment> \<open>a variable is read before it is written\<close>
  | Dangling            \<comment> \<open>memory is used or freed that is not allocated\<close>

datatype stop =
    Fault ub
  | Exit int
  | Killed            \<comment> \<open>by a signal whose action is to end the process\<close>
  | Out_of_fuel

type_synonym ('s, 'a) prog = "'s \<Rightarrow> stop + 'a \<times> 's"

definition ret :: "'a \<Rightarrow> ('s, 'a) prog" where
  "ret x s = Inr (x, s)"

definition halt :: "stop \<Rightarrow> ('s, 'a) prog" where
  "halt e s = Inl e"

abbreviation fault :: "ub \<Rightarrow> ('s, 'a) prog" where
  "fault u \<equiv> halt (Fault u)"

definition andthen :: "('s, 'a) prog \<Rightarrow> ('a \<Rightarrow> ('s, 'b) prog) \<Rightarrow> ('s, 'b) prog" where
  "andthen m f s = (case m s of Inl e \<Rightarrow> Inl e | Inr (x, s') \<Rightarrow> f x s')"

definition gets :: "('s \<Rightarrow> 'a) \<Rightarrow> ('s, 'a) prog" where
  "gets f s = Inr (f s, s)"

definition modify :: "('s \<Rightarrow> 's) \<Rightarrow> ('s, unit) prog" where
  "modify f s = Inr ((), f s)"

text \<open>A sequence of statements.\<close>

fun block :: "('s, unit) prog list \<Rightarrow> ('s, unit) prog" where
  "block [] = ret ()"
| "block (m # ms) = andthen m (\<lambda>_. block ms)"

declare block.simps [simp del]

text \<open>A pure result that may be a stop; and the pointer dereference, where \<open>None\<close> is NULL.\<close>

definition lift :: "stop + 'a \<Rightarrow> ('s, 'a) prog" where
  "lift r s = (case r of Inl e \<Rightarrow> Inl e | Inr x \<Rightarrow> Inr (x, s))"

definition deref :: "'a option \<Rightarrow> ('s, 'a) prog" where
  "deref p = (case p of None \<Rightarrow> fault Null_deref | Some x \<Rightarrow> ret x)"

text \<open>Running a computation on one field of a larger state.\<close>

definition zoom :: "('t \<Rightarrow> 's) \<Rightarrow> ('s \<Rightarrow> 't \<Rightarrow> 't) \<Rightarrow> ('s, 'a) prog \<Rightarrow> ('t, 'a) prog" where
  "zoom get_s put_s m t =
     (case m (get_s t) of Inl e \<Rightarrow> Inl e | Inr (x, s) \<Rightarrow> Inr (x, put_s s t))"

text \<open>
  \<open>run\<close> collects the equations that execute a computation on a given state. They are not
  simplification rules by default, so that goals about \<open>wp\<close> keep their programs intact.
\<close>

named_theorems run

lemma ret_apply [run]: "ret x s = Inr (x, s)"
  by (simp add: ret_def)

lemma halt_apply [run]: "halt e s = Inl e"
  by (simp add: halt_def)

lemma andthen_apply [run]:
  "andthen m f s = (case m s of Inl e \<Rightarrow> Inl e | Inr (x, s') \<Rightarrow> f x s')"
  by (simp add: andthen_def)

lemma gets_apply [run]: "gets f s = Inr (f s, s)"
  by (simp add: gets_def)

lemma modify_apply [run]: "modify f s = Inr ((), f s)"
  by (simp add: modify_def)

lemma lift_apply [run]: "lift r s = (case r of Inl e \<Rightarrow> Inl e | Inr x \<Rightarrow> Inr (x, s))"
  by (simp add: lift_def)

lemma deref_simps [simp]: "deref None = fault Null_deref" "deref (Some x) = ret x"
  by (simp_all add: deref_def)

lemma block_apply [run]:
  "block [] s = Inr ((), s)"
  "block (m # ms) s = (case m s of Inl e \<Rightarrow> Inl e | Inr (_, s') \<Rightarrow> block ms s')"
  by (simp_all add: block.simps run split: sum.splits)

lemma andthen_ret [simp]: "andthen (ret x) f = f x"
  by (simp add: fun_eq_iff run)

lemma andthen_assoc: "andthen (andthen m f) g = andthen m (\<lambda>x. andthen (f x) g)"
  by (auto simp: fun_eq_iff run split: sum.splits)

lemma andthen_InrE:
  assumes "andthen m f s = Inr (y, t)"
  obtains x u where "m s = Inr (x, u)" "f x u = Inr (y, t)"
  using assms by (auto simp: run split: sum.splits)

lemma zoom_apply [run]:
  "zoom g p m t = (case m (g t) of Inl e \<Rightarrow> Inl e | Inr (x, s) \<Rightarrow> Inr (x, p s t))"
  by (simp add: zoom_def)

subsection \<open>Weakest preconditions\<close>

text \<open>
  \<open>wp m Q E s\<close>: from \<open>s\<close>, \<open>m\<close> either returns a value and a state that satisfy \<open>Q\<close>, or
  stops in a way \<open>E\<close> allows. With \<open>E = (\<lambda>_. False)\<close> it is total correctness and the absence
  of undefined behaviour.
\<close>

definition wp :: "('s, 'a) prog \<Rightarrow> ('a \<Rightarrow> 's \<Rightarrow> bool) \<Rightarrow> (stop \<Rightarrow> bool) \<Rightarrow> 's \<Rightarrow> bool" where
  "wp m Q E s = (case m s of Inl e \<Rightarrow> E e | Inr (x, s') \<Rightarrow> Q x s')"

lemma wp_ret [simp]: "wp (ret x) Q E s = Q x s"
  by (simp add: wp_def run)

lemma wp_halt [simp]: "wp (halt e) Q E s = E e"
  by (simp add: wp_def run)

lemma wp_andthen [simp]: "wp (andthen m f) Q E s = wp m (\<lambda>x. wp (f x) Q E) E s"
  by (simp add: wp_def run split: sum.splits prod.splits)

lemma wp_andthenI: "wp m (\<lambda>x. wp (f x) Q E) E s \<Longrightarrow> wp (andthen m f) Q E s"
  by simp

lemma wp_gets [simp]: "wp (gets f) Q E s = Q (f s) s"
  by (simp add: wp_def run)

lemma wp_modify [simp]: "wp (modify f) Q E s = Q () (f s)"
  by (simp add: wp_def run)

lemma wp_lift [simp]: "wp (lift r) Q E s = (case r of Inl e \<Rightarrow> E e | Inr x \<Rightarrow> Q x s)"
  by (simp add: wp_def run split: sum.splits)

lemma wp_deref [simp]:
  "wp (deref p) Q E s = (case p of None \<Rightarrow> E (Fault Null_deref) | Some x \<Rightarrow> Q x s)"
  by (simp split: option.splits)

lemma wp_zoom [simp]:
  "wp (zoom g p m) Q E t = wp m (\<lambda>x s. Q x (p s t)) E (g t)"
  by (simp add: wp_def run split: sum.splits prod.splits)

lemma wp_if [simp]: "wp (if b then m else m') Q E s = (if b then wp m Q E s else wp m' Q E s)"
  by simp

text \<open>The rule of consequence, and the two directions between \<open>wp\<close> and a run.\<close>

lemma wp_mono:
  assumes "wp m Q E s"
    and "\<And>x t. Q x t \<Longrightarrow> Q' x t" and "\<And>e. E e \<Longrightarrow> E' e"
  shows "wp m Q' E' s"
  using assms by (auto simp: wp_def split: sum.splits)

lemma wp_post:
  assumes "wp m Q E s" and "\<And>x t. m s = Inr (x, t) \<Longrightarrow> Q x t \<Longrightarrow> Q' x t"
  shows "wp m Q' E s"
  using assms by (auto simp: wp_def split: sum.splits)

lemma wp_run: "m s = Inr (x, t) \<Longrightarrow> wp m Q E s \<longleftrightarrow> Q x t"
  by (simp add: wp_def run)

lemma wp_total: "wp m Q (\<lambda>_. False) s \<longleftrightarrow> (\<exists>x t. m s = Inr (x, t) \<and> Q x t)"
  by (auto simp: wp_def split: sum.splits)

lemma wp_totalE:
  assumes "wp m Q (\<lambda>_. False) s"
  obtains x t where "m s = Inr (x, t)" "Q x t"
  using assms by (auto simp: wp_total)

text \<open>A statement sequence keeps what each of its statements keeps.\<close>

lemma wp_block_Nil [simp]: "wp (block []) Q E = Q ()"
  by (simp add: fun_eq_iff wp_def run)

lemma wp_block_Cons [simp]:
  "wp (block (m # ms)) Q E s = wp m (\<lambda>_. wp (block ms) Q E) E s"
  by (simp add: wp_def run split: sum.splits prod.splits)

lemma wp_block_invariant:
  assumes "I s" and "\<And>m t. m \<in> set ms \<Longrightarrow> I t \<Longrightarrow> wp m (\<lambda>_. I) E t"
  shows "wp (block ms) (\<lambda>_. I) E s"
  using assms
proof (induction ms arbitrary: s)
  case Nil
  then show ?case by (simp add: wp_def run)
next
  case (Cons m ms)
  have "wp m (\<lambda>_. I) E s" using Cons.prems by simp
  then show ?case
    unfolding wp_block_Cons by (rule wp_mono) (simp_all add: Cons.IH Cons.prems(2))
qed

subsection \<open>Invariants of computations\<close>

text \<open>
  \<open>safe I A m\<close>: from a state that satisfies \<open>I\<close>, \<open>m\<close> ends in one that does, or stops in a
  way \<open>A\<close> allows. The rules follow the shape of the program.
\<close>

definition safe :: "('s \<Rightarrow> bool) \<Rightarrow> (stop \<Rightarrow> bool) \<Rightarrow> ('s, 'a) prog \<Rightarrow> bool" where
  "safe I A m \<longleftrightarrow> (\<forall>s. I s \<longrightarrow> wp m (\<lambda>_. I) A s)"

named_theorems safe_rules

lemma safeI: "(\<And>s. I s \<Longrightarrow> wp m (\<lambda>_. I) A s) \<Longrightarrow> safe I A m"
  by (simp add: safe_def)

lemma safeD: "safe I A m \<Longrightarrow> I s \<Longrightarrow> wp m (\<lambda>_. I) A s"
  by (simp add: safe_def)

lemma safe_ret [safe_rules]: "safe I A (ret x)"
  by (simp add: safe_def)

lemma safe_gets [safe_rules]: "safe I A (gets f)"
  by (simp add: safe_def)

lemma safe_halt [safe_rules]: "A e \<Longrightarrow> safe I A (halt e)"
  by (simp add: safe_def)

lemma safe_modify [safe_rules]: "(\<And>s. I s \<Longrightarrow> I (f s)) \<Longrightarrow> safe I A (modify f)"
  by (simp add: safe_def)

lemma safe_lift [safe_rules]: "(\<And>e. r = Inl e \<Longrightarrow> A e) \<Longrightarrow> safe I A (lift r)"
  by (simp add: safe_def split: sum.splits)

lemma safe_deref [safe_rules]: "(p = None \<Longrightarrow> A (Fault Null_deref)) \<Longrightarrow> safe I A (deref p)"
  by (cases p) (simp_all add: safe_def)

lemma safe_andthen [safe_rules]:
  "safe I A m \<Longrightarrow> (\<And>x. safe I A (f x)) \<Longrightarrow> safe I A (andthen m f)"
  by (auto simp: safe_def intro: wp_mono)

lemma wp_andthen_safe:
  "wp m (\<lambda>_. I) A s \<Longrightarrow> (\<And>x. safe I A (f x)) \<Longrightarrow> wp (andthen m f) (\<lambda>_. I) A s"
  by (auto simp: safe_def intro: wp_mono)

lemma safe_block [safe_rules]: "(\<And>m. m \<in> set ms \<Longrightarrow> safe I A m) \<Longrightarrow> safe I A (block ms)"
  by (rule safeI, rule wp_block_invariant) (auto dest: safeD)

lemma safe_if [safe_rules]:
  "(b \<Longrightarrow> safe I A m) \<Longrightarrow> (\<not> b \<Longrightarrow> safe I A m') \<Longrightarrow> safe I A (if b then m else m')"
  by simp

lemma safe_option [safe_rules]:
  "(x = None \<Longrightarrow> safe I A m) \<Longrightarrow> (\<And>y. x = Some y \<Longrightarrow> safe I A (f y)) \<Longrightarrow>
   safe I A (case x of None \<Rightarrow> m | Some y \<Rightarrow> f y)"
  by (cases x) simp_all

lemma safe_sum [safe_rules]:
  "(\<And>e. r = Inl e \<Longrightarrow> safe I A (f e)) \<Longrightarrow> (\<And>x. r = Inr x \<Longrightarrow> safe I A (g x)) \<Longrightarrow>
   safe I A (case r of Inl e \<Rightarrow> f e | Inr x \<Rightarrow> g x)"
  by (cases r) simp_all

lemma safe_prod [safe_rules]:
  "(\<And>x y. p = (x, y) \<Longrightarrow> safe I A (f x y)) \<Longrightarrow> safe I A (case p of (x, y) \<Rightarrow> f x y)"
  by (cases p) simp

lemma safe_let [safe_rules]: "(\<And>x. x = y \<Longrightarrow> safe I A (f x)) \<Longrightarrow> safe I A (let x = y in f x)"
  by simp

lemma safe_zoom [safe_rules]:
  "(\<And>t. I t \<Longrightarrow> wp m (\<lambda>_ s. I (put_s s t)) A (get_s t)) \<Longrightarrow> safe I A (zoom get_s put_s m)"
  by (simp add: safe_def)

section \<open>Bytes, C strings and character arrays\<close>

text \<open>
  A C string is the list of its bytes before the terminator; a char array is the list of all
  its bytes, and \<open>cstr\<close> reads it as a string.
\<close>

abbreviation NUL :: char where
  "NUL \<equiv> CHR 0x00"

definition c_string :: "string \<Rightarrow> bool" where
  "c_string s \<longleftrightarrow> NUL \<notin> set s"

definition upto_nul :: "string \<Rightarrow> string" where
  "upto_nul a = takeWhile (\<lambda>c. c \<noteq> NUL) a"

definition cstr :: "string \<Rightarrow> stop + string" where
  "cstr a = (if NUL \<in> set a then Inr (upto_nul a) else Inl (Fault Unterminated_string))"

definition byte :: "char \<Rightarrow> nat" where
  "byte c = of_char c"

text \<open>\<open>snprintf\<close> into a buffer of \<open>n > 0\<close> bytes keeps the first \<open>n - 1\<close> bytes of the text;
  \<open>strncpy\<close> fills the \<open>n\<close> bytes of its target, with a NUL only when there is room.\<close>

definition snprintf :: "nat \<Rightarrow> string \<Rightarrow> string" where
  "snprintf n s = take (n - 1) s"

definition strncpy :: "nat \<Rightarrow> string \<Rightarrow> string" where
  "strncpy n s = take n (s @ replicate n NUL)"

definition strstr :: "string \<Rightarrow> string \<Rightarrow> bool" where
  "strstr hay needle \<longleftrightarrow> sublist needle hay"

definition tolower :: "char \<Rightarrow> char" where
  "tolower c = (if 65 \<le> byte c \<and> byte c \<le> 90 then char_of (byte c + 32) else c)"

lemma c_string_simps [simp]:
  "c_string []"
  "c_string (c # s) \<longleftrightarrow> c \<noteq> NUL \<and> c_string s"
  "c_string (s @ t) \<longleftrightarrow> c_string s \<and> c_string t"
  by (auto simp: c_string_def)

lemma c_string_upto_nul [simp, intro]: "c_string (upto_nul a)"
  by (auto simp: c_string_def upto_nul_def dest: set_takeWhileD)

lemma c_string_take [intro]: "c_string s \<Longrightarrow> c_string (take n s)"
  by (auto simp: c_string_def dest: in_set_takeD)

lemma upto_nul_append [simp]: "c_string s \<Longrightarrow> upto_nul (s @ NUL # t) = s"
  unfolding c_string_def upto_nul_def by (subst takeWhile_append2) auto

lemma upto_nul_id: "c_string s \<Longrightarrow> upto_nul s = s"
  by (auto simp: c_string_def upto_nul_def takeWhile_eq_all_conv)

lemma length_upto_nul: "length (upto_nul a) \<le> length a"
  by (simp add: upto_nul_def length_takeWhile_le)

lemma length_takeWhile_dropWhile:
  "length (takeWhile P s) + length (dropWhile P s) = length s"
  by (metis length_append takeWhile_dropWhile_id)

lemma cstr_terminated [simp]: "c_string s \<Longrightarrow> cstr (s @ NUL # t) = Inr s"
  by (simp add: cstr_def)

lemma cstr_InrD: "cstr a = Inr s \<Longrightarrow> c_string s \<and> length s < length a"
proof -
  assume "cstr a = Inr s"
  then have nul: "NUL \<in> set a" and s: "s = upto_nul a"
    by (auto simp: cstr_def split: if_splits)
  obtain b c where "a = b @ NUL # c" "NUL \<notin> set b"
    using nul by (meson split_list_first)
  then show ?thesis using s by (simp add: c_string_def [symmetric])
qed

lemma length_snprintf: "0 < n \<Longrightarrow> length (snprintf n s) < n"
  by (auto simp: snprintf_def)

lemma c_string_snprintf [intro]: "c_string s \<Longrightarrow> c_string (snprintf n s)"
  by (auto simp: snprintf_def)

lemma length_strncpy [simp]: "length (strncpy n s) = n"
  by (simp add: strncpy_def)

text \<open>What \<open>strncpy\<close> leaves in its target is a string exactly when the source is shorter.\<close>

lemma cstr_strncpy:
  assumes "c_string s"
  shows "cstr (strncpy n s) =
    (if length s < n then Inr s else Inl (Fault Unterminated_string))"
proof (cases "length s < n")
  case True
  then obtain k where "n - length s = Suc k" by (metis Suc_diff_Suc)
  then have "strncpy n s = s @ NUL # replicate k NUL"
    using True by (simp add: strncpy_def)
  then show ?thesis using assms True by simp
next
  case False
  then have "strncpy n s = take n s" by (simp add: strncpy_def)
  then show ?thesis using assms False
    by (auto simp: cstr_def c_string_def dest: in_set_takeD)
qed

section \<open>Machine integers\<close>

text \<open>\<open>int\<close> values are HOL integers; an operation whose result has no \<open>int\<close> faults.\<close>

definition INT_MAX :: int where
  "INT_MAX = 2147483647"

definition INT_MIN :: int where
  "INT_MIN = - 2147483648"

definition is_int :: "int \<Rightarrow> bool" where
  "is_int x \<longleftrightarrow> INT_MIN \<le> x \<and> x \<le> INT_MAX"

definition c_add :: "int \<Rightarrow> int \<Rightarrow> stop + int" where
  "c_add a b = (if is_int (a + b) then Inr (a + b) else Inl (Fault Signed_overflow))"

lemmas int_bounds = INT_MAX_def INT_MIN_def is_int_def

section \<open>Decimal output\<close>

fun show_nat :: "nat \<Rightarrow> string" where
  "show_nat n =
     (if n < 10 then [char_of (48 + n)] else show_nat (n div 10) @ [char_of (48 + n mod 10)])"

declare show_nat.simps [simp del]

text \<open>\<open>printf\<close> with \<open>%d\<close>.\<close>

definition show_int :: "int \<Rightarrow> string" where
  "show_int i = (if i < 0 then CHR ''-'' # show_nat (nat (- i)) else show_nat (nat i))"

definition is_digit :: "char \<Rightarrow> bool" where
  "is_digit c \<longleftrightarrow> 48 \<le> byte c \<and> byte c \<le> 57"

definition digit_val :: "char \<Rightarrow> nat" where
  "digit_val c = byte c - 48"

fun nat_of_digits :: "nat \<Rightarrow> string \<Rightarrow> nat" where
  "nat_of_digits acc [] = acc"
| "nat_of_digits acc (c # cs) = nat_of_digits (10 * acc + digit_val c) cs"

lemma byte_char_of [simp]: "n < 256 \<Longrightarrow> byte (char_of n) = n"
  by (simp add: byte_def)

lemma byte_less [simp]: "byte c < 256"
  by (simp add: byte_def)

lemma byte_inject [simp]: "byte c = byte d \<longleftrightarrow> c = d"
  by (simp add: byte_def)

lemma show_nat_digits: "c \<in> set (show_nat n) \<Longrightarrow> is_digit c"
proof (induction n rule: show_nat.induct)
  case (1 n)
  then show ?case
    by (subst (asm) (2) show_nat.simps) (auto simp: is_digit_def split: if_splits)
qed

lemma show_nat_nonempty [simp]: "show_nat n \<noteq> []"
  by (subst show_nat.simps) simp

lemma nat_of_digits_append:
  "nat_of_digits acc (xs @ ys) = nat_of_digits (nat_of_digits acc xs) ys"
  by (induction xs arbitrary: acc) auto

lemma nat_of_show_nat [simp]: "nat_of_digits 0 (show_nat n) = n"
proof (induction n rule: show_nat.induct)
  case (1 n)
  then show ?case
    by (subst show_nat.simps) (auto simp: nat_of_digits_append digit_val_def)
qed

lemma length_show_nat: "n < 10 ^ k \<Longrightarrow> 0 < k \<Longrightarrow> length (show_nat n) \<le> k"
proof (induction k arbitrary: n)
  case 0
  then show ?case by simp
next
  case (Suc k)
  show ?case
  proof (cases "n < 10")
    case True
    then show ?thesis by (subst show_nat.simps) simp
  next
    case False
    with Suc.prems have "k \<noteq> 0" by (cases k) auto
    moreover have "n div 10 < 10 ^ k" using Suc.prems(1) by (simp add: less_mult_imp_div_less)
    ultimately have "length (show_nat (n div 10)) \<le> k" using Suc.IH by blast
    then show ?thesis using False by (subst show_nat.simps) simp
  qed
qed

lemma c_string_show_nat [simp]: "c_string (show_nat n)"
  by (auto simp: c_string_def dest!: show_nat_digits) (simp add: is_digit_def byte_def)

lemma c_string_show_int [simp]: "c_string (show_int i)"
  by (simp add: show_int_def)

end
