(* ===== verification/CDouble.thy ===== *)
theory CDouble
  imports Prelude Complex_Main
begin

text \<open>
  The C type \<open>double\<close> (IEEE 754 binary64) as cJSON uses it: finite values are rationals, and
  every operation rounds its exact result to the nearest representable value, ties to even.
  Then the conversions of the C library the JSON code calls on doubles: \<open>strtod\<close> on the
  characters a JSON number may hold, the conversion to \<open>int\<close>, and \<open>printf\<close> with
  \<open>%1.15g\<close> and \<open>%1.17g\<close>. The sign of a zero is not kept: nothing the program prints or
  compares depends on it.
\<close>

section \<open>Values and rounding\<close>

datatype double = Fin rat | Inf bool | NaN   \<comment> \<open>\<open>Inf True\<close> is minus infinity\<close>

fun ilog2 :: "nat \<Rightarrow> nat" where
  "ilog2 n = (if n < 2 then 0 else Suc (ilog2 (n div 2)))"

declare ilog2.simps [simp del]

definition pow2 :: "int \<Rightarrow> rat" where
  "pow2 e = (if 0 \<le> e then 2 ^ nat e else 1 / 2 ^ nat (- e))"

text \<open>The binary exponent of a positive rational: \<open>2 ^ e \<le> q < 2 ^ (e + 1)\<close>.\<close>

definition binexp :: "rat \<Rightarrow> int" where
  "binexp q = (let (a, b) = quotient_of q;
                   e = int (ilog2 (nat a)) - int (ilog2 (nat b))
               in if pow2 e \<le> q then e else e - 1)"

definition round_half_even :: "rat \<Rightarrow> int" where
  "round_half_even q =
     (let f = \<lfloor>q\<rfloor>; r = q - of_int f
      in if r < 1 / 2 then f else if 1 / 2 < r then f + 1 else if even f then f else f + 1)"

definition round_double :: "rat \<Rightarrow> double" where
  "round_double q =
     (if q = 0 then Fin 0
      else let u = pow2 (max (binexp \<bar>q\<bar> - 52) (- 1074));
               v = of_int (round_half_even (\<bar>q\<bar> / u)) * u
           in if pow2 1024 \<le> v then Inf (q < 0) else Fin (sgn q * v))"

definition double_of_int :: "int \<Rightarrow> double" where
  "double_of_int i = round_double (of_int i)"

text \<open>Integers below \<open>2 ^ 53\<close> are represented exactly; every \<open>int\<close> is.\<close>

lemma ilog2_less: "n < 2 ^ Suc k \<Longrightarrow> ilog2 n \<le> k"
proof (induction k arbitrary: n)
  case 0
  then show ?case by (simp add: ilog2.simps)
next
  case (Suc k)
  then have "ilog2 (n div 2) \<le> k" by simp
  then show ?case by (subst ilog2.simps) simp
qed

lemma round_half_even_of_int [simp]: "round_half_even (of_int i) = i"
  by (simp add: round_half_even_def)

lemma pow2_neg: "0 \<le> k \<Longrightarrow> pow2 (- k) = 1 / 2 ^ nat k"
  by (auto simp: pow2_def)

lemma binexp_of_int: "0 < n \<Longrightarrow> n < 2 ^ 53 \<Longrightarrow> binexp (of_int n) \<le> 52"
proof -
  assume n: "0 < n" "n < (2 :: int) ^ 53"
  then have "nat n < 2 ^ Suc 52" by (simp add: nat_less_iff)
  then have "ilog2 (nat n) \<le> 52" by (rule ilog2_less)
  then show ?thesis by (auto simp: binexp_def quotient_of_int Let_def)
qed

lemma double_of_int_exact:
  assumes "\<bar>i\<bar> < 2 ^ 53"
  shows "double_of_int i = Fin (of_int i)"
proof (cases "i = 0")
  case True
  then show ?thesis by (simp add: double_of_int_def round_double_def)
next
  case False
  define k where "k = nat (- max (binexp \<bar>of_int i\<bar> - 52) (- 1074))"
  have "binexp (of_int \<bar>i\<bar>) \<le> 52" using assms False by (intro binexp_of_int) auto
  then have e: "max (binexp \<bar>of_int i\<bar> - 52) (- 1074) = - int k"
    by (simp add: k_def)
  have u: "pow2 (- int k) = 1 / 2 ^ k"
    by (simp add: pow2_neg)
  have "\<bar>of_int i\<bar> / (1 / 2 ^ k) = (of_int (\<bar>i\<bar> * 2 ^ k) :: rat)"
    by simp
  then have m: "round_half_even (\<bar>of_int i\<bar> / (1 / 2 ^ k)) = \<bar>i\<bar> * 2 ^ k"
    by (simp only: round_half_even_of_int)
  have v: "of_int (\<bar>i\<bar> * 2 ^ k) * (1 / 2 ^ k) = (of_int \<bar>i\<bar> :: rat)"
    by simp
  have "(2 :: int) ^ 53 \<le> 2 ^ 1024" by (rule power_increasing) auto
  then have "\<bar>i\<bar> < 2 ^ 1024" using assms by linarith
  then have "(of_int \<bar>i\<bar> :: rat) < of_int (2 ^ 1024)" by (simp only: of_int_less_iff)
  then have "\<not> pow2 1024 \<le> (of_int \<bar>i\<bar> :: rat)" by (simp add: pow2_def)
  moreover have "sgn (of_int i) * of_int \<bar>i\<bar> = (of_int i :: rat)"
    by (simp add: sgn_if)
  ultimately show ?thesis
    using False
    by (simp only: double_of_int_def round_double_def e u m v Let_def of_int_eq_0_iff if_False)
qed

lemma double_of_int_is_int: "is_int i \<Longrightarrow> double_of_int i = Fin (of_int i)"
  by (rule double_of_int_exact) (auto simp: int_bounds)

section \<open>Conversion to \<open>int\<close>\<close>

text \<open>
  The saturating conversion that cJSON writes in \<open>parse_number\<close>, \<open>cJSON_SetNumberHelper\<close>
  and \<open>cJSON_CreateNumber\<close>: comparisons with the two limits, then a truncating cast. The
  cast of a NaN is undefined; here it faults.
\<close>

fun saturate :: "double \<Rightarrow> stop + int" where
  "saturate (Fin q) =
     Inr (if of_int INT_MAX \<le> q then INT_MAX
          else if q \<le> of_int INT_MIN then INT_MIN
          else if 0 \<le> q then \<lfloor>q\<rfloor> else \<lceil>q\<rceil>)"
| "saturate (Inf neg) = Inr (if neg then INT_MIN else INT_MAX)"
| "saturate NaN = Inl (Fault Signed_overflow)"

lemma saturate_is_int: "saturate d = Inr i \<Longrightarrow> is_int i"
proof (cases d)
  case (Fin q)
  assume "saturate d = Inr i"
  then show ?thesis using Fin
    by (auto simp: int_bounds floor_less_iff le_floor_iff split: if_splits)
qed (auto simp: int_bounds)

lemma saturate_of_int: "is_int i \<Longrightarrow> saturate (Fin (of_int i)) = Inr i"
  by (auto simp: int_bounds)

section \<open>\<open>strtod\<close>\<close>

text \<open>
  \<open>strtod\<close> on a text made of digits, signs, points and exponent letters only, which is all
  that \<open>parse_number\<close> copies into its buffer: the longest prefix of the form
  sign, digits with an optional point, optional exponent; the value rounded once; and the
  number of characters used, 0 when there is no number.
\<close>

definition span_digits :: "string \<Rightarrow> string \<times> string" where
  "span_digits s = (takeWhile is_digit s, dropWhile is_digit s)"

definition strip_sign :: "string \<Rightarrow> bool \<times> nat \<times> string" where
  "strip_sign s =
     (case s of
        [] \<Rightarrow> (False, 0, [])
      | c # cs \<Rightarrow> if c = CHR ''-'' then (True, 1, cs)
                 else if c = CHR ''+'' then (False, 1, cs) else (False, 0, s))"

definition strip_fraction :: "string \<Rightarrow> string \<times> nat \<times> string" where
  "strip_fraction s =
     (case s of
        c # cs \<Rightarrow> if c = CHR ''.'' then (takeWhile is_digit cs,
                    Suc (length (takeWhile is_digit cs)), dropWhile is_digit cs)
                  else ([], 0, s)
      | [] \<Rightarrow> ([], 0, s))"

definition strip_exponent :: "string \<Rightarrow> int \<times> nat" where
  "strip_exponent s =
     (case s of
        [] \<Rightarrow> (0, 0)
      | c # cs \<Rightarrow>
          if c = CHR ''e'' \<or> c = CHR ''E'' then
            (let (neg, k, rest) = strip_sign cs; ds = takeWhile is_digit rest;
                 n = int (nat_of_digits 0 ds)
             in if ds = [] then (0, 0) else (if neg then - n else n, 1 + k + length ds))
          else (0, 0))"

definition pow10 :: "int \<Rightarrow> rat" where
  "pow10 e = (if 0 \<le> e then 10 ^ nat e else 1 / 10 ^ nat (- e))"

definition strtod :: "string \<Rightarrow> double \<times> nat" where
  "strtod s =
     (let (neg, k, s1) = strip_sign s;
          (ip, s2) = span_digits s1;
          (fp, kf, s3) = strip_fraction s2;
          (e, ke) = strip_exponent s3;
          m = of_nat (nat_of_digits 0 (ip @ fp)) * pow10 (e - int (length fp))
      in if ip = [] \<and> fp = [] then (Fin 0, 0)
         else (round_double (if neg then - m else m), k + length ip + kf + ke))"

text \<open>What \<open>strtod\<close> reads back of an integer printed with \<open>%d\<close>.\<close>

lemma takeWhile_digits_show_nat [simp]:
  "takeWhile is_digit (show_nat n) = show_nat n" "dropWhile is_digit (show_nat n) = []"
  using show_nat_digits by (auto simp: takeWhile_eq_all_conv dropWhile_eq_Nil_conv)

lemma hd_show_nat: "\<exists>c cs. show_nat n = c # cs \<and> is_digit c"
  using show_nat_digits [of _ n] show_nat_nonempty [of n] by (cases "show_nat n") auto

lemma strip_sign_show_nat: "strip_sign (show_nat n) = (False, 0, show_nat n)"
  using hd_show_nat [of n] by (auto simp: strip_sign_def is_digit_def byte_def)

lemma strtod_show_int:
  assumes "\<bar>i\<bar> < 2 ^ 53"
  shows "strtod (show_int i) = (Fin (of_int i), length (show_int i))"
proof (cases "i < 0")
  case True
  then have "strip_sign (show_int i) = (True, 1, show_nat (nat (- i)))"
    by (simp add: show_int_def strip_sign_def)
  moreover have "- of_nat (nat (- i)) = (of_int i :: rat)"
    using True by (simp add: of_nat_nat)
  ultimately show ?thesis
    using True double_of_int_exact [OF assms]
    by (simp add: strtod_def span_digits_def strip_fraction_def strip_exponent_def
        pow10_def double_of_int_def show_int_def)
next
  case False
  then have "strip_sign (show_int i) = (False, 0, show_nat (nat i))"
    by (simp add: show_int_def strip_sign_show_nat)
  then show ?thesis
    using False double_of_int_exact [OF assms]
    by (simp add: strtod_def span_digits_def strip_fraction_def strip_exponent_def
        pow10_def double_of_int_def show_int_def of_nat_nat)
qed

text \<open>\<open>strtod\<close> never uses more characters than there are.\<close>

lemma strip_sign_length:
  "strip_sign s = (neg, k, r) \<Longrightarrow> length s = k + length r"
  by (auto simp: strip_sign_def split: list.splits if_splits)

lemma strip_exponent_length:
  assumes "strip_exponent s = (e, k)"
  shows "k \<le> length s"
proof (cases s)
  case (Cons c cs)
  obtain neg k1 r where 1: "strip_sign cs = (neg, k1, r)" by (metis prod_cases3)
  have "length (takeWhile is_digit r) \<le> length r" by (rule length_takeWhile_le)
  then show ?thesis
    using assms Cons strip_sign_length [OF 1]
    by (simp add: strip_exponent_def 1 Let_def split: if_splits)
qed (use assms in \<open>simp add: strip_exponent_def\<close>)

lemma strip_fraction_length:
  "strip_fraction s = (fp, k, r) \<Longrightarrow> length s = k + length r"
  by (auto simp: strip_fraction_def length_takeWhile_dropWhile split: list.splits if_splits)

lemma strtod_length: "strtod s = (d, k) \<Longrightarrow> k \<le> length s"
proof -
  assume d: "strtod s = (d, k)"
  obtain neg k1 s1 where 1: "strip_sign s = (neg, k1, s1)" by (metis prod_cases3)
  obtain fp kf s3 where 2: "strip_fraction (dropWhile is_digit s1) = (fp, kf, s3)"
    by (metis prod_cases3)
  obtain e ke where 3: "strip_exponent s3 = (e, ke)" by (metis surj_pair)
  have "length s = k1 + (length (takeWhile is_digit s1) + (kf + length s3))"
    using strip_sign_length [OF 1] strip_fraction_length [OF 2]
    by (metis length_append takeWhile_dropWhile_id)
  moreover have "ke \<le> length s3" using 3 by (rule strip_exponent_length)
  ultimately show ?thesis
    using d by (auto simp: strtod_def span_digits_def 1 2 3 Let_def split: if_splits)
qed

section \<open>\<open>printf\<close> with \<open>%g\<close>\<close>

text \<open>The decimal exponent of a positive rational, computed as \<open>binexp\<close> is.\<close>

definition decexp :: "rat \<Rightarrow> int" where
  "decexp q = (let (a, b) = quotient_of q;
                   e = int (length (show_nat (nat a))) - int (length (show_nat (nat b)))
               in if pow10 e \<le> q then e else e - 1)"

definition strip_zeros :: "string \<Rightarrow> string" where
  "strip_zeros s = rev (dropWhile (\<lambda>c. c = CHR ''0'') (rev s))"

definition point :: "string \<Rightarrow> string" where
  "point fp = (let s = strip_zeros fp in if s = [] then [] else CHR ''.'' # s)"

text \<open>The \<open>p\<close> significant digits of a positive number, as an integer, and its exponent; exact
  ties go to even.\<close>

definition g_digits :: "nat \<Rightarrow> rat \<Rightarrow> int \<times> int" where
  "g_digits p q =
     (let x0 = decexp q;
          m0 = round_half_even (q / pow10 (x0 - int p + 1))
      in if m0 = 10 ^ p then (10 ^ (p - 1), x0 + 1) else (m0, x0))"

text \<open>The scientific form when the exponent is below \<open>-4\<close> or at least \<open>p\<close>, without trailing
  zeros.\<close>

definition g_text :: "nat \<Rightarrow> string \<Rightarrow> int \<Rightarrow> string" where
  "g_text p ds x =
     (if x < - 4 \<or> int p \<le> x then
        take 1 ds @ point (drop 1 ds) @ ''e'' @ (if x < 0 then ''-'' else ''+'') @
        (if \<bar>x\<bar> < 10 then ''0'' else []) @ show_nat (nat \<bar>x\<bar>)
      else if 0 \<le> x then take (nat x + 1) ds @ point (drop (nat x + 1) ds)
      else ''0'' @ point (replicate (nat (- x) - 1) (CHR ''0'') @ ds))"

text \<open>\<open>%1.pg\<close> of a finite value.\<close>

definition format_g :: "nat \<Rightarrow> rat \<Rightarrow> string" where
  "format_g p q =
     (if q = 0 then ''0''
      else
        let (m, x) = g_digits p \<bar>q\<bar>
        in (if q < 0 then ''-'' else []) @ g_text p (show_nat (nat m)) x)"

section \<open>Operators\<close>

text \<open>
  The operators of C on \<open>double\<close> under their own names: the classes used here have no laws, and
  the comparisons are not an order, since every comparison with a NaN is false.
\<close>

definition DBL_EPSILON :: rat where
  "DBL_EPSILON = 1 / 2 ^ 52"

instantiation double :: "{abs, minus, ord}"
begin

fun abs_double :: "double \<Rightarrow> double" where
  "abs_double (Fin q) = Fin \<bar>q\<bar>"
| "abs_double (Inf _) = Inf False"
| "abs_double NaN = NaN"

fun minus_double :: "double \<Rightarrow> double \<Rightarrow> double" where
  "minus_double (Fin a) (Fin b) = round_double (a - b)"
| "minus_double (Inf a) (Inf b) = (if a = b then NaN else Inf a)"
| "minus_double (Inf a) (Fin _) = Inf a"
| "minus_double (Fin _) (Inf b) = Inf (\<not> b)"
| "minus_double _ _ = NaN"

fun less_double :: "double \<Rightarrow> double \<Rightarrow> bool" where
  "less_double (Fin a) (Fin b) \<longleftrightarrow> a < b"
| "less_double (Inf a) (Inf b) \<longleftrightarrow> a \<and> \<not> b"
| "less_double (Inf a) (Fin _) \<longleftrightarrow> a"
| "less_double (Fin _) (Inf b) \<longleftrightarrow> \<not> b"
| "less_double _ _ \<longleftrightarrow> False"

definition less_eq_double :: "double \<Rightarrow> double \<Rightarrow> bool" where
  "less_eq_double a b \<longleftrightarrow> a < b \<or> a = b \<and> a \<noteq> NaN"

instance ..

end

text \<open>The operator \<open>==\<close>, and the product with a constant.\<close>

definition double_eq :: "double \<Rightarrow> double \<Rightarrow> bool" where
  "double_eq a b \<longleftrightarrow> a = b \<and> a \<noteq> NaN"

fun double_scale :: "double \<Rightarrow> rat \<Rightarrow> double" where
  "double_scale (Fin a) c = round_double (a * c)"
| "double_scale (Inf a) c = Inf a"
| "double_scale NaN c = NaN"

lemma double_compare [simp]:
  "Fin a \<le> Fin b \<longleftrightarrow> a \<le> b" "\<not> NaN \<le> d" "\<not> d \<le> NaN" "Fin a \<le> Inf neg \<longleftrightarrow> \<not> neg"
  "Inf neg \<le> Fin a \<longleftrightarrow> neg" "double_eq (Fin a) (Fin b) \<longleftrightarrow> a = b" "\<not> double_eq NaN d" "\<not> double_eq d NaN"
  by (cases d; auto simp: less_eq_double_def double_eq_def)+

end
