(* ===== verification/CJson.thy ===== *)
theory CJson
  imports CDouble
begin

text \<open>
  The cJSON tree (\<open>lib/cJSON/src/cJSON.c\<close>): the item structure, the allocator behind every
  constructor, the lookup of object members and array elements, and the constructors and
  \<open>cJSON_Add...\<close> functions the server and the clients build their messages with.

  A \<open>cJSON *\<close> is an option, \<open>None\<close> being NULL; the \<open>next\<close>/\<open>prev\<close> chain below an item is
  the list \<open>child\<close>, in the chain's order, so appending at \<open>child->prev\<close> is appending at the
  end of the list. A function that changes an item through its pointer returns the changed
  item. The numeric type codes are in a header outside the repository; the type is the kind,
  with its two flags beside it.

  The allocator's state is the list of the outcomes of the next allocations: an empty list
  is an allocator that never fails again.
\<close>

section \<open>Items\<close>

datatype kind =
    cJSON_Invalid | cJSON_False | cJSON_True | cJSON_NULL | cJSON_Number
  | cJSON_String | cJSON_Array | cJSON_Object | cJSON_Raw

datatype cJSON =
  Item (kind: kind) (is_reference: bool) (string_is_const: bool)
    (valuestring: "string option") (valueint: int) (valuedouble: double)
    (name: "string option") (child: "cJSON list")

primrec set_kind :: "kind \<Rightarrow> cJSON \<Rightarrow> cJSON" where
  "set_kind k (Item _ r c vs vi vd n ch) = Item k r c vs vi vd n ch"

primrec set_valuestring :: "string option \<Rightarrow> cJSON \<Rightarrow> cJSON" where
  "set_valuestring vs (Item k r c _ vi vd n ch) = Item k r c vs vi vd n ch"

primrec set_valueint :: "int \<Rightarrow> cJSON \<Rightarrow> cJSON" where
  "set_valueint vi (Item k r c vs _ vd n ch) = Item k r c vs vi vd n ch"

primrec set_valuedouble :: "double \<Rightarrow> cJSON \<Rightarrow> cJSON" where
  "set_valuedouble vd (Item k r c vs vi _ n ch) = Item k r c vs vi vd n ch"

primrec set_name :: "bool \<Rightarrow> string option \<Rightarrow> cJSON \<Rightarrow> cJSON" where
  "set_name c' n' (Item k r c vs vi vd n ch) = Item k r c' vs vi vd n' ch"

primrec set_child :: "cJSON list \<Rightarrow> cJSON \<Rightarrow> cJSON" where
  "set_child ch' (Item k r c vs vi vd n ch) = Item k r c vs vi vd n ch'"

text \<open>\<open>item->type == k\<close>: the whole type, flags included.\<close>

definition type_is :: "kind \<Rightarrow> cJSON \<Rightarrow> bool" where
  "type_is k it \<longleftrightarrow> kind it = k \<and> \<not> is_reference it \<and> \<not> string_is_const it"

lemma set_sel [simp]:
  "kind (set_kind k it) = k" "child (set_kind k it) = child it" "name (set_kind k it) = name it"
  "kind (set_name c n it) = kind it" "child (set_name c n it) = child it"
  "name (set_name c n it) = n"
  "kind (set_child ch it) = kind it" "child (set_child ch it) = ch"
  "name (set_child ch it) = name it"
  "valuestring (set_name c n it) = valuestring it" "valueint (set_name c n it) = valueint it"
  "valuestring (set_child ch it) = valuestring it" "valueint (set_child ch it) = valueint it"
  "valuedouble (set_name c n it) = valuedouble it"
  "is_reference (set_name c n it) = is_reference it" "string_is_const (set_name c n it) = c"
  "is_reference (set_child ch it) = is_reference it"
  "string_is_const (set_child ch it) = string_is_const it"
  by (cases it; simp)+

section \<open>The allocator\<close>

type_synonym 'a heapm = "(bool list, 'a) prog"

definition alloc :: "bool heapm" where
  "alloc h = (case h of [] \<Rightarrow> Inr (True, []) | b # bs \<Rightarrow> Inr (b, bs))"

lemma alloc_Nil [simp]: "alloc [] = Inr (True, [])"
  by (simp add: alloc_def)

lemma wp_alloc [simp]:
  "wp alloc Q E h = (case h of [] \<Rightarrow> Q True [] | b # bs \<Rightarrow> Q b bs)"
  by (simp add: wp_def alloc_def split: list.splits)

definition empty_item :: cJSON where
  "empty_item = Item cJSON_Invalid False False None 0 (Fin 0) None []"

definition cJSON_New_Item :: "cJSON option heapm" where
  "cJSON_New_Item = andthen alloc (\<lambda>ok. ret (if ok then Some empty_item else None))"

definition cJSON_strdup :: "string option \<Rightarrow> string option heapm" where
  "cJSON_strdup str =
     (case str of
        None \<Rightarrow> ret None
      | Some s \<Rightarrow> andthen alloc (\<lambda>ok. ret (if ok then Some s else None)))"

section \<open>Lookup\<close>

text \<open>The comparison of \<open>case_insensitive_strcmp\<close>: the difference of the first bytes that
  differ after \<open>tolower\<close>, the end of the string counting as 0.\<close>

fun ci_diff :: "string \<Rightarrow> string \<Rightarrow> int" where
  "ci_diff [] [] = 0"
| "ci_diff [] (d # t) = - int (byte (tolower d))"
| "ci_diff (c # s) [] = int (byte (tolower c))"
| "ci_diff (c # s) (d # t) =
     (if tolower c = tolower d then ci_diff s t
      else int (byte (tolower c)) - int (byte (tolower d)))"

definition case_insensitive_strcmp :: "string option \<Rightarrow> string option \<Rightarrow> int" where
  "case_insensitive_strcmp string1 string2 =
     (case (string1, string2) of (Some s, Some t) \<Rightarrow> ci_diff s t | _ \<Rightarrow> 1)"

fun find_case_sensitive :: "string \<Rightarrow> cJSON list \<Rightarrow> cJSON option" where
  "find_case_sensitive n [] = None"
| "find_case_sensitive n (c # cs) =
     (if name c \<noteq> None \<and> name c \<noteq> Some n then find_case_sensitive n cs else Some c)"

fun find_case_insensitive :: "string \<Rightarrow> cJSON list \<Rightarrow> cJSON option" where
  "find_case_insensitive n [] = None"
| "find_case_insensitive n (c # cs) =
     (if case_insensitive_strcmp (Some n) (name c) \<noteq> 0 then find_case_insensitive n cs
      else Some c)"

definition get_object_item :: "cJSON option \<Rightarrow> string option \<Rightarrow> bool \<Rightarrow> cJSON option" where
  "get_object_item object nm case_sensitive =
     (case (object, nm) of
        (Some ob, Some n) \<Rightarrow>
          (case (if case_sensitive then find_case_sensitive n (child ob)
                 else find_case_insensitive n (child ob)) of
             None \<Rightarrow> None
           | Some current_element \<Rightarrow>
               if name current_element = None then None else Some current_element)
      | _ \<Rightarrow> None)"

definition cJSON_GetObjectItem :: "cJSON option \<Rightarrow> string \<Rightarrow> cJSON option" where
  "cJSON_GetObjectItem object n = get_object_item object (Some n) False"

definition cJSON_GetObjectItemCaseSensitive :: "cJSON option \<Rightarrow> string \<Rightarrow> cJSON option" where
  "cJSON_GetObjectItemCaseSensitive object n = get_object_item object (Some n) True"

definition cJSON_HasObjectItem :: "cJSON option \<Rightarrow> string \<Rightarrow> bool" where
  "cJSON_HasObjectItem object n \<longleftrightarrow> cJSON_GetObjectItem object n \<noteq> None"

text \<open>The number of elements is counted in \<open>size_t\<close> and cast to \<open>int\<close>.\<close>

definition cJSON_GetArraySize :: "cJSON option \<Rightarrow> int" where
  "cJSON_GetArraySize array =
     (case array of None \<Rightarrow> 0
      | Some a \<Rightarrow> (int (length (child a)) + 2 ^ 31) mod 2 ^ 32 - 2 ^ 31)"

fun nth_child :: "cJSON list \<Rightarrow> nat \<Rightarrow> cJSON option" where
  "nth_child [] i = None"
| "nth_child (c # cs) 0 = Some c"
| "nth_child (c # cs) (Suc i) = nth_child cs i"

definition get_array_item :: "cJSON option \<Rightarrow> nat \<Rightarrow> cJSON option" where
  "get_array_item array index =
     (case array of None \<Rightarrow> None | Some a \<Rightarrow> nth_child (child a) index)"

definition cJSON_GetArrayItem :: "cJSON option \<Rightarrow> int \<Rightarrow> cJSON option" where
  "cJSON_GetArrayItem array index =
     (if index < 0 then None else get_array_item array (nat index))"

section \<open>Constructors\<close>

definition create_kind :: "kind \<Rightarrow> cJSON option heapm" where
  "create_kind k = andthen cJSON_New_Item (\<lambda>item. ret (map_option (set_kind k) item))"

definition cJSON_CreateNull :: "cJSON option heapm" where
  "cJSON_CreateNull = create_kind cJSON_NULL"

definition cJSON_CreateTrue :: "cJSON option heapm" where
  "cJSON_CreateTrue = create_kind cJSON_True"

definition cJSON_CreateFalse :: "cJSON option heapm" where
  "cJSON_CreateFalse = create_kind cJSON_False"

definition cJSON_CreateBool :: "bool \<Rightarrow> cJSON option heapm" where
  "cJSON_CreateBool b = create_kind (if b then cJSON_True else cJSON_False)"

definition cJSON_CreateArray :: "cJSON option heapm" where
  "cJSON_CreateArray = create_kind cJSON_Array"

definition cJSON_CreateObject :: "cJSON option heapm" where
  "cJSON_CreateObject = create_kind cJSON_Object"

definition cJSON_CreateNumber :: "double \<Rightarrow> cJSON option heapm" where
  "cJSON_CreateNumber num =
     andthen cJSON_New_Item (\<lambda>item.
     case item of
       None \<Rightarrow> ret None
     | Some it \<Rightarrow>
         andthen (lift (saturate num)) (\<lambda>vi.
         ret (Some (set_valueint vi (set_valuedouble num (set_kind cJSON_Number it))))))"

text \<open>
  A string item whose copy cannot be allocated is deleted and NULL is returned. The copy is
  made after the item, so a text that cannot be read is only reached when there is an item;
  \<open>strdup_array\<close> copies a text out of a char array.
\<close>

definition strdup_array :: "string \<Rightarrow> string option heapm" where
  "strdup_array a = andthen (lift (cstr a)) (\<lambda>s. cJSON_strdup (Some s))"

definition create_text :: "kind \<Rightarrow> string option heapm \<Rightarrow> cJSON option heapm" where
  "create_text k copy =
     andthen cJSON_New_Item (\<lambda>item.
     case item of
       None \<Rightarrow> ret None
     | Some it \<Rightarrow>
         andthen copy (\<lambda>vs.
         ret (if vs = None then None else Some (set_valuestring vs (set_kind k it)))))"

definition cJSON_CreateString :: "string option \<Rightarrow> cJSON option heapm" where
  "cJSON_CreateString str = create_text cJSON_String (cJSON_strdup str)"

definition cJSON_CreateRaw :: "string option \<Rightarrow> cJSON option heapm" where
  "cJSON_CreateRaw raw = create_text cJSON_Raw (cJSON_strdup raw)"

section \<open>Adding items\<close>

text \<open>
  The result is the C result with the container's new contents. The test that an item is not
  added to itself compares pointers and never holds between values.
\<close>

definition add_item_to_array :: "cJSON option \<Rightarrow> cJSON option \<Rightarrow> bool \<times> cJSON option" where
  "add_item_to_array array item =
     (case (array, item) of
        (Some a, Some it) \<Rightarrow> (True, Some (set_child (child a @ [it]) a))
      | _ \<Rightarrow> (False, array))"

definition cJSON_AddItemToArray :: "cJSON option \<Rightarrow> cJSON option \<Rightarrow> bool \<times> cJSON option" where
  "cJSON_AddItemToArray array item = add_item_to_array array item"

definition add_item_to_object ::
    "cJSON option \<Rightarrow> string option \<Rightarrow> cJSON option \<Rightarrow> bool \<Rightarrow> (bool \<times> cJSON option) heapm" where
  "add_item_to_object object str item constant_key =
     (case (object, str, item) of
        (Some _, Some s, Some it) \<Rightarrow>
          if constant_key
          then ret (add_item_to_array object (Some (set_name True (Some s) it)))
          else
            andthen (cJSON_strdup (Some s)) (\<lambda>new_key.
            ret (if new_key = None then (False, object)
                 else add_item_to_array object (Some (set_name False new_key it))))
      | _ \<Rightarrow> ret (False, object))"

definition cJSON_AddItemToObject ::
    "cJSON option \<Rightarrow> string \<Rightarrow> cJSON option \<Rightarrow> (bool \<times> cJSON option) heapm" where
  "cJSON_AddItemToObject object s item = add_item_to_object object (Some s) item False"

definition cJSON_AddItemToObjectCS ::
    "cJSON option \<Rightarrow> string \<Rightarrow> cJSON option \<Rightarrow> (bool \<times> cJSON option) heapm" where
  "cJSON_AddItemToObjectCS object s item = add_item_to_object object (Some s) item True"

text \<open>The \<open>cJSON_AddXToObject\<close> family: create, add, and delete what could not be added. The
  pointer they return (NULL on failure) is the first component.\<close>

definition add_created ::
    "cJSON option \<Rightarrow> string \<Rightarrow> cJSON option heapm \<Rightarrow> (cJSON option \<times> cJSON option) heapm" where
  "add_created object n create =
     andthen create (\<lambda>item.
     andthen (add_item_to_object object (Some n) item False) (\<lambda>(ok, object').
     ret (if ok then map_option (set_name False (Some n)) item else None, object')))"

definition cJSON_AddNullToObject ::
    "cJSON option \<Rightarrow> string \<Rightarrow> (cJSON option \<times> cJSON option) heapm" where
  "cJSON_AddNullToObject object n = add_created object n cJSON_CreateNull"

definition cJSON_AddTrueToObject ::
    "cJSON option \<Rightarrow> string \<Rightarrow> (cJSON option \<times> cJSON option) heapm" where
  "cJSON_AddTrueToObject object n = add_created object n cJSON_CreateTrue"

definition cJSON_AddFalseToObject ::
    "cJSON option \<Rightarrow> string \<Rightarrow> (cJSON option \<times> cJSON option) heapm" where
  "cJSON_AddFalseToObject object n = add_created object n cJSON_CreateFalse"

definition cJSON_AddBoolToObject ::
    "cJSON option \<Rightarrow> string \<Rightarrow> bool \<Rightarrow> (cJSON option \<times> cJSON option) heapm" where
  "cJSON_AddBoolToObject object n b = add_created object n (cJSON_CreateBool b)"

definition cJSON_AddNumberToObject ::
    "cJSON option \<Rightarrow> string \<Rightarrow> double \<Rightarrow> (cJSON option \<times> cJSON option) heapm" where
  "cJSON_AddNumberToObject object n number = add_created object n (cJSON_CreateNumber number)"

definition cJSON_AddStringToObject ::
    "cJSON option \<Rightarrow> string \<Rightarrow> string option \<Rightarrow> (cJSON option \<times> cJSON option) heapm" where
  "cJSON_AddStringToObject object n str = add_created object n (cJSON_CreateString str)"

definition add_array_text ::
    "cJSON option \<Rightarrow> string \<Rightarrow> string \<Rightarrow> (cJSON option \<times> cJSON option) heapm" where
  "add_array_text object n a = add_created object n (create_text cJSON_String (strdup_array a))"

definition cJSON_AddRawToObject ::
    "cJSON option \<Rightarrow> string \<Rightarrow> string option \<Rightarrow> (cJSON option \<times> cJSON option) heapm" where
  "cJSON_AddRawToObject object n raw = add_created object n (cJSON_CreateRaw raw)"

definition cJSON_AddObjectToObject ::
    "cJSON option \<Rightarrow> string \<Rightarrow> (cJSON option \<times> cJSON option) heapm" where
  "cJSON_AddObjectToObject object n = add_created object n cJSON_CreateObject"

definition cJSON_AddArrayToObject ::
    "cJSON option \<Rightarrow> string \<Rightarrow> (cJSON option \<times> cJSON option) heapm" where
  "cJSON_AddArrayToObject object n = add_created object n cJSON_CreateArray"

text \<open>
  A pointer returned by \<open>cJSON_AddObjectToObject\<close>, or passed to \<open>cJSON_AddItemToObject\<close>,
  stays an alias of the container's last member. Code that then changes the member through
  it is modelled by changing the member and storing it back with \<open>store_last\<close>.
\<close>

definition store_last :: "cJSON option \<Rightarrow> cJSON option \<Rightarrow> cJSON option" where
  "store_last member container =
     (case (member, container) of
        (Some m, Some c) \<Rightarrow> Some (set_child (butlast (child c) @ [m]) c)
      | _ \<Rightarrow> container)"

section \<open>Properties\<close>

subsection \<open>The items the program builds\<close>

definition json_object :: "cJSON list \<Rightarrow> cJSON" where
  "json_object ch = Item cJSON_Object False False None 0 (Fin 0) None ch"

definition json_array :: "cJSON list \<Rightarrow> cJSON" where
  "json_array ch = Item cJSON_Array False False None 0 (Fin 0) None ch"

definition json_int :: "int \<Rightarrow> cJSON" where
  "json_int i = Item cJSON_Number False False None i (Fin (of_int i)) None []"

definition json_string :: "string \<Rightarrow> cJSON" where
  "json_string s = Item cJSON_String False False (Some s) 0 (Fin 0) None []"

definition member :: "string \<Rightarrow> cJSON \<Rightarrow> cJSON" where
  "member n it = set_name False (Some n) it"

definition add_member :: "cJSON \<Rightarrow> string \<Rightarrow> cJSON \<Rightarrow> cJSON" where
  "add_member ob n it = set_child (child ob @ [member n it]) ob"

lemma json_sel [simp]:
  "kind (json_object ch) = cJSON_Object" "child (json_object ch) = ch"
  "kind (json_array ch) = cJSON_Array" "child (json_array ch) = ch"
  "kind (json_int i) = cJSON_Number" "valueint (json_int i) = i" "child (json_int i) = []"
  "valuedouble (json_int i) = Fin (of_int i)"
  "kind (json_string s) = cJSON_String" "valuestring (json_string s) = Some s"
  "child (json_string s) = []" "valuestring (json_object ch) = None"
  "valuestring (json_int i) = None"
  "type_is k (json_object ch) = (k = cJSON_Object)" "type_is k (json_int i) = (k = cJSON_Number)"
  "type_is k (json_string s) = (k = cJSON_String)" "type_is k (json_array ch) = (k = cJSON_Array)"
  by (auto simp: json_object_def json_array_def json_int_def json_string_def type_is_def)

lemma member_sel [simp]:
  "name (member n it) = Some n" "kind (member n it) = kind it" "child (member n it) = child it"
  "valuestring (member n it) = valuestring it" "valueint (member n it) = valueint it"
  "valuedouble (member n it) = valuedouble it"
  "is_reference (member n it) = is_reference it" "\<not> string_is_const (member n it)"
  by (simp_all add: member_def)

lemma type_is_member [simp]:
  "type_is k (member n it) \<longleftrightarrow> kind it = k \<and> \<not> is_reference it"
  by (simp add: type_is_def)

lemma reference_json [simp]:
  "\<not> is_reference (json_object ch)" "\<not> is_reference (json_array ch)"
  "\<not> is_reference (json_int i)" "\<not> is_reference (json_string s)"
  by (simp_all add: json_object_def json_array_def json_int_def json_string_def)

lemma set_child_object [simp]:
  "set_child ch (json_object ch') = json_object ch"
  "set_child ch (member n it) = member n (set_child ch it)"
  by (simp_all add: json_object_def member_def, cases it, simp)

lemma set_name_json [simp]:
  "set_name False (Some n) it = member n it"
  by (simp add: member_def)

lemma add_member_child [simp]:
  "child (add_member ob n it) = child ob @ [member n it]" "kind (add_member ob n it) = kind ob"
  by (simp_all add: add_member_def)

lemma add_member_object [simp]:
  "add_member (json_object ch) n it = json_object (ch @ [member n it])"
  by (simp add: add_member_def)

text \<open>With an allocator that does not fail, the constructors are these values.\<close>

lemma create_Nil [simp]:
  "cJSON_New_Item [] = Inr (Some empty_item, [])"
  "cJSON_strdup str [] = Inr (str, [])"
  "cJSON_CreateObject [] = Inr (Some (json_object []), [])"
  "cJSON_CreateArray [] = Inr (Some (json_array []), [])"
  "cJSON_CreateString (Some s) [] = Inr (Some (json_string s), [])"
  by (simp_all add: run cJSON_New_Item_def cJSON_strdup_def cJSON_CreateObject_def
      cJSON_CreateArray_def create_kind_def cJSON_CreateString_def create_text_def
      json_object_def json_array_def json_string_def empty_item_def split: option.splits)

lemma create_number_Nil [simp]:
  "is_int i \<Longrightarrow> cJSON_CreateNumber (double_of_int i) [] = Inr (Some (json_int i), [])"
  by (simp add: run cJSON_CreateNumber_def json_int_def empty_item_def double_of_int_is_int
      saturate_of_int del: saturate.simps)

lemma add_item_Nil [simp]:
  "cJSON_AddItemToObject (Some ob) n (Some it) [] = Inr ((True, Some (add_member ob n it)), [])"
  by (simp add: run cJSON_AddItemToObject_def add_item_to_object_def add_item_to_array_def
      add_member_def)

lemma add_created_Nil [simp]:
  "create [] = Inr (Some it, []) \<Longrightarrow>
   add_created (Some ob) n create [] = Inr ((Some (member n it), Some (add_member ob n it)), [])"
  by (simp add: run add_created_def add_item_to_object_def add_item_to_array_def add_member_def)

lemma add_Nil [simp]:
  "is_int i \<Longrightarrow> cJSON_AddNumberToObject (Some ob) n (double_of_int i) [] =
     Inr ((Some (member n (json_int i)), Some (add_member ob n (json_int i))), [])"
  "cJSON_AddStringToObject (Some ob) n (Some s) [] =
     Inr ((Some (member n (json_string s)), Some (add_member ob n (json_string s))), [])"
  "cJSON_AddObjectToObject (Some ob) n [] =
     Inr ((Some (member n (json_object [])), Some (add_member ob n (json_object []))), [])"
  by (simp_all add: cJSON_AddNumberToObject_def cJSON_AddStringToObject_def
      cJSON_AddObjectToObject_def)

lemma add_array_text_Nil [simp]:
  "cstr a = Inr s \<Longrightarrow> add_array_text (Some ob) n a [] =
     Inr ((Some (member n (json_string s)), Some (add_member ob n (json_string s))), [])"
  by (simp add: add_array_text_def run create_text_def strdup_array_def json_string_def
      empty_item_def)

lemma store_last_add [simp]:
  "store_last (Some m) (Some (add_member ob n it)) = Some (set_child (child ob @ [m]) ob)"
  by (cases ob) (simp add: store_last_def add_member_def)

subsection \<open>Lookup\<close>

text \<open>On C strings \<open>ci_diff\<close> is 0 exactly when the strings agree up to the case of letters.\<close>

lemma tolower_NUL [simp]: "byte (tolower c) = 0 \<longleftrightarrow> c = NUL"
proof -
  have "byte c = 0 \<longleftrightarrow> c = NUL" by (simp flip: byte_inject) (simp add: byte_def)
  then show ?thesis by (auto simp: tolower_def)
qed

lemma ci_diff_0: "c_string s \<Longrightarrow> c_string t \<Longrightarrow> ci_diff s t = 0 \<longleftrightarrow> map tolower s = map tolower t"
  by (induction s t rule: ci_diff.induct) (auto simp flip: byte_inject)

lemma ci_diff_refl [simp]: "ci_diff s s = 0"
  by (induction s) auto

lemma find_case_insensitive_name:
  "find_case_insensitive n cs = Some it \<Longrightarrow>
   it \<in> set cs \<and> (\<exists>m. name it = Some m \<and> ci_diff n m = 0)"
  by (induction cs)
    (auto simp: case_insensitive_strcmp_def split: if_splits option.splits)

lemma find_case_insensitive_append:
  "find_case_insensitive n (cs @ ds) =
     (case find_case_insensitive n cs of None \<Rightarrow> find_case_insensitive n ds | Some it \<Rightarrow> Some it)"
  by (induction cs) auto

lemma get_object_item_insensitive:
  "cJSON_GetObjectItem (Some ob) n = find_case_insensitive n (child ob)"
  by (auto simp: cJSON_GetObjectItem_def get_object_item_def split: option.splits
      dest: find_case_insensitive_name)

lemma get_object_item_None [simp]: "cJSON_GetObjectItem None n = None"
  by (simp add: cJSON_GetObjectItem_def get_object_item_def)

lemma find_case_insensitive_Cons_member [simp]:
  "find_case_insensitive n (member m it # cs) =
     (if ci_diff n m = 0 then Some (member m it) else find_case_insensitive n cs)"
  by (simp add: case_insensitive_strcmp_def)

subsection \<open>A container with first-match lookup\<close>

text \<open>
  What the code that builds and reads messages relies on: a member added under a key is
  found under it, unless an earlier member already matches.
\<close>

locale first_match_store =
  fixes lookup :: "'o \<Rightarrow> 'k \<Rightarrow> 'v option"
    and add :: "'o \<Rightarrow> 'k \<Rightarrow> 'w \<Rightarrow> 'o"
    and stored :: "'k \<Rightarrow> 'w \<Rightarrow> 'v"
    and matches :: "'k \<Rightarrow> 'k \<Rightarrow> bool"
  assumes lookup_add:
      "lookup (add ob n w) m =
         (case lookup ob m of Some v \<Rightarrow> Some v
          | None \<Rightarrow> if matches m n then Some (stored n w) else None)"
    and matches_refl: "matches n n"
begin

lemma lookup_add_new: "lookup ob n = None \<Longrightarrow> lookup (add ob n w) n = Some (stored n w)"
  by (simp add: lookup_add matches_refl)

lemma lookup_add_other: "\<not> matches m n \<Longrightarrow> lookup (add ob n w) m = lookup ob m"
  by (simp add: lookup_add split: option.splits)

lemma lookup_add_shadowed: "lookup ob m = Some v \<Longrightarrow> lookup (add ob n w) m = Some v"
  by (simp add: lookup_add)

lemma lookup_add_all:
  "lookup (foldl (\<lambda>ob (n, w). add ob n w) ob kvs) m =
     (case lookup ob m of Some v \<Rightarrow> Some v
      | None \<Rightarrow> map_option (\<lambda>(n, w). stored n w) (find (\<lambda>(n, w). matches m n) kvs))"
  by (induction kvs arbitrary: ob) (auto simp: lookup_add split: option.splits)

end

interpretation members: first_match_store
  "\<lambda>ob. cJSON_GetObjectItem (Some ob)" add_member member "\<lambda>m n. ci_diff m n = 0"
  by unfold_locales
    (auto simp: get_object_item_insensitive find_case_insensitive_append
      case_insensitive_strcmp_def split: option.splits)

end
