(* ===== verification/Supplies.thy ===== *)
theory Supplies
  imports CJson
begin

text \<open>
  The supplies module (\<open>lib/suppliesData\<close>): two structures in System V shared memory, their
  initialisation, the pointers to them, and the update from a JSON message; and the JSON
  form of the supplies the server sends (\<open>convert_supplies_to_json\<close> in \<open>server.c\<close>).

  A segment is an option: \<open>None\<close> until it is created. What \<open>shmget\<close> and \<open>shmat\<close> answer for
  a key is the environment \<open>shm_os\<close>. A pointer to a structure is an option too, holding the
  structure's contents; a function that changes the structure through the pointer is a
  computation on it.
\<close>

section \<open>The structures\<close>

record FoodSupply =
  meat :: int
  vegetables :: int
  fruits :: int
  water :: int

record MedicineSupply =
  antibiotics :: int
  analgesics :: int
  bandages :: int

record shm =
  food_segment :: "FoodSupply option"
  medicine_segment :: "MedicineSupply option"

record shm_os =
  shmget_ok :: "int \<Rightarrow> bool"
  shmat_ok :: "int \<Rightarrow> bool"

definition FOOD_SUPPLY_KEY :: int where
  "FOOD_SUPPLY_KEY = 1234"

definition MEDICINE_SUPPLY_KEY :: int where
  "MEDICINE_SUPPLY_KEY = 5678"

definition no_food :: FoodSupply where
  "no_food = \<lparr>meat = 0, vegetables = 0, fruits = 0, water = 0\<rparr>"

definition no_medicine :: MedicineSupply where
  "no_medicine = \<lparr>antibiotics = 0, analgesics = 0, bandages = 0\<rparr>"

section \<open>Creating and finding the segments\<close>

text \<open>
  \<open>shmget\<close> with \<open>IPC_CREAT\<close> creates a missing segment, filled with zeros, even when the
  \<open>shmat\<close> after it fails; the function gives up at the first failure.
\<close>

definition init_shared_memory_supplies :: "shm_os \<Rightarrow> shm \<Rightarrow> shm" where
  "init_shared_memory_supplies os m =
     (if \<not> shmget_ok os FOOD_SUPPLY_KEY then m
      else
        let m = m\<lparr>food_segment :=
                  Some (case food_segment m of None \<Rightarrow> no_food | Some f \<Rightarrow> f)\<rparr> in
        if \<not> shmat_ok os FOOD_SUPPLY_KEY then m
        else
          let m = m\<lparr>food_segment := Some no_food\<rparr> in
          if \<not> shmget_ok os MEDICINE_SUPPLY_KEY then m
          else
            let m = m\<lparr>medicine_segment :=
                      Some (case medicine_segment m of None \<Rightarrow> no_medicine | Some d \<Rightarrow> d)\<rparr> in
            if \<not> shmat_ok os MEDICINE_SUPPLY_KEY then m
            else m\<lparr>medicine_segment := Some no_medicine\<rparr>)"

definition get_food_supply :: "shm_os \<Rightarrow> shm \<Rightarrow> FoodSupply option" where
  "get_food_supply os m =
     (if food_segment m = None \<or> \<not> shmget_ok os FOOD_SUPPLY_KEY then None
      else if \<not> shmat_ok os FOOD_SUPPLY_KEY then None
      else food_segment m)"

definition get_medicine_supply :: "shm_os \<Rightarrow> shm \<Rightarrow> MedicineSupply option" where
  "get_medicine_supply os m =
     (if medicine_segment m = None \<or> \<not> shmget_ok os MEDICINE_SUPPLY_KEY then None
      else if \<not> shmat_ok os MEDICINE_SUPPLY_KEY then None
      else medicine_segment m)"

section \<open>Updates from a message\<close>

text \<open>
  One field: a member of type number is added to it, and a negative sum becomes 0. The
  structure is only touched when the member is there.
\<close>

definition add_item :: "cJSON \<Rightarrow> string \<Rightarrow> ('s \<Rightarrow> int) \<Rightarrow> (int \<Rightarrow> 's \<Rightarrow> 's) \<Rightarrow>
    ('s option, unit) prog" where
  "add_item ob key get_f put_f =
     (case cJSON_GetObjectItem (Some ob) key of
        None \<Rightarrow> ret ()
      | Some it \<Rightarrow>
          if type_is cJSON_Number it then
            andthen (gets id) (\<lambda>p.
            andthen (deref p) (\<lambda>s.
            andthen (lift (c_add (get_f s) (valueint it))) (\<lambda>v.
            modify (\<lambda>_. Some (put_f (if v < 0 then 0 else v) s)))))
          else ret ())"

definition update_food :: "cJSON option \<Rightarrow> (FoodSupply option, unit) prog" where
  "update_food json =
     (case cJSON_GetObjectItem json ''food'' of
        None \<Rightarrow> ret ()
      | Some food_object \<Rightarrow>
          if type_is cJSON_Object food_object then
            block
              [add_item food_object ''fruits'' fruits (\<lambda>v s. s\<lparr>fruits := v\<rparr>),
               add_item food_object ''vegetables'' vegetables (\<lambda>v s. s\<lparr>vegetables := v\<rparr>),
               add_item food_object ''meat'' meat (\<lambda>v s. s\<lparr>meat := v\<rparr>),
               add_item food_object ''water'' water (\<lambda>v s. s\<lparr>water := v\<rparr>)]
          else ret ())"

definition update_medicine :: "cJSON option \<Rightarrow> (MedicineSupply option, unit) prog" where
  "update_medicine json =
     (case cJSON_GetObjectItem json ''medicine'' of
        None \<Rightarrow> ret ()
      | Some medicine_object \<Rightarrow>
          if type_is cJSON_Object medicine_object then
            block
              [add_item medicine_object ''antibiotics'' antibiotics (\<lambda>v s. s\<lparr>antibiotics := v\<rparr>),
               add_item medicine_object ''analgesics'' analgesics (\<lambda>v s. s\<lparr>analgesics := v\<rparr>),
               add_item medicine_object ''bandages'' bandages (\<lambda>v s. s\<lparr>bandages := v\<rparr>)]
          else ret ())"

type_synonym supply_pointers = "FoodSupply option \<times> MedicineSupply option"

definition update_supplies_from_json :: "cJSON option \<Rightarrow> (supply_pointers, unit) prog" where
  "update_supplies_from_json json =
     block [zoom fst (\<lambda>f (_, d). (f, d)) (update_food json),
            zoom snd (\<lambda>d (f, _). (f, d)) (update_medicine json)]"

section \<open>The JSON form\<close>

fun add_numbers :: "cJSON option \<Rightarrow> (string \<times> int) list \<Rightarrow> cJSON option heapm" where
  "add_numbers ob [] = ret ob"
| "add_numbers ob ((n, v) # kvs) =
     andthen (cJSON_AddNumberToObject ob n (double_of_int v)) (\<lambda>(_, ob'). add_numbers ob' kvs)"

text \<open>
  Adding an empty object as a member and then filling it through the pointer the code still
  holds: when the addition failed the pointer is to a loose object.
\<close>

definition add_filled ::
    "cJSON option \<Rightarrow> string \<Rightarrow> cJSON option \<Rightarrow> (string \<times> int) list \<Rightarrow> cJSON option heapm" where
  "add_filled container key item kvs =
     andthen (cJSON_AddItemToObject container key item) (\<lambda>(ok, container').
     if ok then
       andthen (add_numbers (map_option (set_name False (Some key)) item) kvs) (\<lambda>item'.
       ret (store_last item' container'))
     else andthen (add_numbers item kvs) (\<lambda>_. ret container'))"

definition convert_supplies_to_json ::
    "FoodSupply option \<Rightarrow> MedicineSupply option \<Rightarrow> cJSON option heapm" where
  "convert_supplies_to_json food_supply medicine_supply =
     andthen cJSON_CreateObject (\<lambda>supplies_json.
     if supplies_json = None then ret None
     else
       andthen cJSON_CreateObject (\<lambda>food_json.
       if food_json = None then ret None
       else
         andthen (deref food_supply) (\<lambda>f.
         andthen (add_filled supplies_json ''food'' food_json
             [(''meat'', meat f), (''vegetables'', vegetables f),
              (''fruits'', fruits f), (''water'', water f)]) (\<lambda>supplies_json.
         andthen cJSON_CreateObject (\<lambda>medicine_json.
         if medicine_json = None then ret None
         else
           andthen (deref medicine_supply) (\<lambda>d.
           add_filled supplies_json ''medicine'' medicine_json
             [(''antibiotics'', antibiotics d), (''analgesics'', analgesics d),
              (''bandages'', bandages d)]))))))"

section \<open>Properties\<close>

subsection \<open>The invariant: quantities are never negative\<close>

definition food_ok :: "FoodSupply \<Rightarrow> bool" where
  "food_ok f \<longleftrightarrow> (\<forall>v \<in> {meat f, vegetables f, fruits f, water f}. 0 \<le> v \<and> v \<le> INT_MAX)"

definition medicine_ok :: "MedicineSupply \<Rightarrow> bool" where
  "medicine_ok d \<longleftrightarrow> (\<forall>v \<in> {antibiotics d, analgesics d, bandages d}. 0 \<le> v \<and> v \<le> INT_MAX)"

definition supplies_ok :: "supply_pointers \<Rightarrow> bool" where
  "supplies_ok ps \<longleftrightarrow> pred_option food_ok (fst ps) \<and> pred_option medicine_ok (snd ps)"

lemma c_add_InrD: "c_add a b = Inr v \<Longrightarrow> v = a + b \<and> is_int v"
  by (auto simp: c_add_def split: if_splits)

lemma wp_add_item:
  assumes "pred_option P p"
    and "\<And>s v. P s \<Longrightarrow> 0 \<le> v \<Longrightarrow> v \<le> INT_MAX \<Longrightarrow> P (put_f v s)"
  shows "wp (add_item ob key get_f put_f) (\<lambda>_. pred_option P) (\<lambda>_. True) p"
  using assms
  by (cases p) (auto simp: add_item_def int_bounds split: option.splits sum.splits
      dest!: c_add_InrD)

lemma wp_update_food:
  "pred_option food_ok p \<Longrightarrow> wp (update_food json) (\<lambda>_. pred_option food_ok) (\<lambda>_. True) p"
  unfolding update_food_def
  by (auto split: option.splits intro!: wp_block_invariant [where I = "pred_option food_ok"]
      wp_add_item simp del: wp_block_Cons) (auto simp: food_ok_def)

lemma wp_update_medicine:
  "pred_option medicine_ok p \<Longrightarrow>
   wp (update_medicine json) (\<lambda>_. pred_option medicine_ok) (\<lambda>_. True) p"
  unfolding update_medicine_def
  by (auto split: option.splits intro!: wp_block_invariant [where I = "pred_option medicine_ok"]
      wp_add_item simp del: wp_block_Cons) (auto simp: medicine_ok_def)

lemma wp_update_supplies:
  "supplies_ok ps \<Longrightarrow>
   wp (update_supplies_from_json json) (\<lambda>_. supplies_ok) (\<lambda>_. True) ps"
  unfolding update_supplies_from_json_def
  by (cases ps) (auto simp: supplies_ok_def intro!: wp_mono [OF wp_update_food]
      wp_mono [OF wp_update_medicine])

subsection \<open>What an update computes\<close>

text \<open>The change a message asks for: the number under \<open>key\<close> in the object \<open>part\<close>, else 0.\<close>

definition requested :: "cJSON option \<Rightarrow> string \<Rightarrow> string \<Rightarrow> int" where
  "requested json part key =
     (case cJSON_GetObjectItem json part of
        None \<Rightarrow> 0
      | Some ob \<Rightarrow>
          if type_is cJSON_Object ob then
            (case cJSON_GetObjectItem (Some ob) key of
               None \<Rightarrow> 0
             | Some it \<Rightarrow> if type_is cJSON_Number it then valueint it else 0)
          else 0)"

definition food_after :: "cJSON option \<Rightarrow> FoodSupply \<Rightarrow> FoodSupply" where
  "food_after json f =
     \<lparr>meat = max 0 (meat f + requested json ''food'' ''meat''),
      vegetables = max 0 (vegetables f + requested json ''food'' ''vegetables''),
      fruits = max 0 (fruits f + requested json ''food'' ''fruits''),
      water = max 0 (water f + requested json ''food'' ''water'')\<rparr>"

definition medicine_after :: "cJSON option \<Rightarrow> MedicineSupply \<Rightarrow> MedicineSupply" where
  "medicine_after json d =
     \<lparr>antibiotics = max 0 (antibiotics d + requested json ''medicine'' ''antibiotics''),
      analgesics = max 0 (analgesics d + requested json ''medicine'' ''analgesics''),
      bandages = max 0 (bandages d + requested json ''medicine'' ''bandages'')\<rparr>"

text \<open>The additions of a message stay within \<open>int\<close>.\<close>

definition update_fits :: "cJSON option \<Rightarrow> FoodSupply \<Rightarrow> MedicineSupply \<Rightarrow> bool" where
  "update_fits json f d \<longleftrightarrow>
     is_int (fruits f + requested json ''food'' ''fruits'') \<and>
     is_int (vegetables f + requested json ''food'' ''vegetables'') \<and>
     is_int (meat f + requested json ''food'' ''meat'') \<and>
     is_int (water f + requested json ''food'' ''water'') \<and>
     is_int (antibiotics d + requested json ''medicine'' ''antibiotics'') \<and>
     is_int (analgesics d + requested json ''medicine'' ''analgesics'') \<and>
     is_int (bandages d + requested json ''medicine'' ''bandages'')"

lemma add_item_result:
  assumes "cJSON_GetObjectItem json part = Some ob" and "type_is cJSON_Object ob"
    and "0 \<le> get_f s" and "is_int (get_f s)" and "put_f (get_f s) s = s"
  shows "add_item ob key get_f put_f (Some s) =
    (if is_int (get_f s + requested json part key)
     then Inr ((), Some (put_f (max 0 (get_f s + requested json part key)) s))
     else Inl (Fault Signed_overflow))"
  using assms by (auto simp: add_item_def requested_def run c_add_def max_def split: option.splits)

lemma food_okD:
  assumes "food_ok f"
  shows "0 \<le> meat f" "0 \<le> vegetables f" "0 \<le> fruits f" "0 \<le> water f"
    "is_int (meat f)" "is_int (vegetables f)" "is_int (fruits f)" "is_int (water f)"
  using assms by (auto simp: food_ok_def int_bounds)

lemma medicine_okD:
  assumes "medicine_ok d"
  shows "0 \<le> antibiotics d" "0 \<le> analgesics d" "0 \<le> bandages d"
    "is_int (antibiotics d)" "is_int (analgesics d)" "is_int (bandages d)"
  using assms by (auto simp: medicine_ok_def int_bounds)

lemma requested_none:
  "cJSON_GetObjectItem json part = None \<Longrightarrow> requested json part key = 0"
  "cJSON_GetObjectItem json part = Some ob \<Longrightarrow> \<not> type_is cJSON_Object ob \<Longrightarrow>
   requested json part key = 0"
  by (simp_all add: requested_def)

lemma update_food_result:
  assumes "food_ok f"
  shows "update_food json (Some f) =
    (if is_int (fruits f + requested json ''food'' ''fruits'') \<and>
        is_int (vegetables f + requested json ''food'' ''vegetables'') \<and>
        is_int (meat f + requested json ''food'' ''meat'') \<and>
        is_int (water f + requested json ''food'' ''water'')
     then Inr ((), Some (food_after json f)) else Inl (Fault Signed_overflow))"
proof (cases "\<exists>ob. cJSON_GetObjectItem json ''food'' = Some ob \<and> type_is cJSON_Object ob")
  case True
  then obtain ob where "cJSON_GetObjectItem json ''food'' = Some ob" "type_is cJSON_Object ob"
    by blast
  then show ?thesis using food_okD [OF assms]
    by (simp add: update_food_def run add_item_result [of json "''food''"] food_after_def)
next
  case False
  then show ?thesis using food_okD [OF assms]
    by (auto simp: update_food_def run requested_none food_after_def split: option.splits)
qed

lemma update_medicine_result:
  assumes "medicine_ok d"
  shows "update_medicine json (Some d) =
    (if is_int (antibiotics d + requested json ''medicine'' ''antibiotics'') \<and>
        is_int (analgesics d + requested json ''medicine'' ''analgesics'') \<and>
        is_int (bandages d + requested json ''medicine'' ''bandages'')
     then Inr ((), Some (medicine_after json d)) else Inl (Fault Signed_overflow))"
proof (cases "\<exists>ob. cJSON_GetObjectItem json ''medicine'' = Some ob \<and> type_is cJSON_Object ob")
  case True
  then obtain ob where "cJSON_GetObjectItem json ''medicine'' = Some ob" "type_is cJSON_Object ob"
    by blast
  then show ?thesis using medicine_okD [OF assms]
    by (simp add: update_medicine_def run add_item_result [of json "''medicine''"]
        medicine_after_def)
next
  case False
  then show ?thesis using medicine_okD [OF assms]
    by (auto simp: update_medicine_def run requested_none medicine_after_def split: option.splits)
qed

subsection \<open>The JSON form of the supplies\<close>

definition food_json :: "FoodSupply \<Rightarrow> cJSON" where
  "food_json f = json_object
     [member ''meat'' (json_int (meat f)), member ''vegetables'' (json_int (vegetables f)),
      member ''fruits'' (json_int (fruits f)), member ''water'' (json_int (water f))]"

definition medicine_json :: "MedicineSupply \<Rightarrow> cJSON" where
  "medicine_json d = json_object
     [member ''antibiotics'' (json_int (antibiotics d)),
      member ''analgesics'' (json_int (analgesics d)),
      member ''bandages'' (json_int (bandages d))]"

definition supplies_json :: "FoodSupply \<Rightarrow> MedicineSupply \<Rightarrow> cJSON" where
  "supplies_json f d =
     json_object [member ''food'' (food_json f), member ''medicine'' (medicine_json d)]"

lemma add_numbers_Nil:
  "\<forall>(n, v) \<in> set kvs. is_int v \<Longrightarrow>
   add_numbers (Some (json_object ch)) kvs [] =
     Inr (Some (json_object (ch @ map (\<lambda>(n, v). member n (json_int v)) kvs)), [])"
  by (induction kvs arbitrary: ch) (auto simp: run)

lemma add_numbers_Nil_member:
  "\<forall>(n, v) \<in> set kvs. is_int v \<Longrightarrow>
   add_numbers (Some (member key (json_object ch))) kvs [] =
     Inr (Some (member key (json_object (ch @ map (\<lambda>(n, v). member n (json_int v)) kvs))), [])"
  by (induction kvs arbitrary: ch) (auto simp: run add_member_def)

lemma add_filled_Nil:
  "\<forall>(n, v) \<in> set kvs. is_int v \<Longrightarrow>
   add_filled (Some (json_object ch)) key (Some (json_object [])) kvs [] =
     Inr (Some (json_object
       (ch @ [member key (json_object (map (\<lambda>(n, v). member n (json_int v)) kvs))])), [])"
  by (simp add: add_filled_def run add_numbers_Nil_member store_last_def)

lemma convert_supplies_Nil:
  assumes "food_ok f" and "medicine_ok d"
  shows "convert_supplies_to_json (Some f) (Some d) [] = Inr (Some (supplies_json f d), [])"
  using food_okD [OF assms(1)] medicine_okD [OF assms(2)]
  by (simp add: convert_supplies_to_json_def run add_filled_Nil supplies_json_def food_json_def
      medicine_json_def)

lemma requested_supplies_json:
  "requested (Some (supplies_json f d)) ''food'' ''meat'' = meat f"
  "requested (Some (supplies_json f d)) ''food'' ''vegetables'' = vegetables f"
  "requested (Some (supplies_json f d)) ''food'' ''fruits'' = fruits f"
  "requested (Some (supplies_json f d)) ''food'' ''water'' = water f"
  "requested (Some (supplies_json f d)) ''medicine'' ''antibiotics'' = antibiotics d"
  "requested (Some (supplies_json f d)) ''medicine'' ''analgesics'' = analgesics d"
  "requested (Some (supplies_json f d)) ''medicine'' ''bandages'' = bandages d"
  by (simp_all add: requested_def supplies_json_def food_json_def medicine_json_def
      get_object_item_insensitive case_insensitive_strcmp_def tolower_def byte_def)

subsection \<open>Theorems\<close>

text \<open>
  C8: an update adds to every quantity what the message asks for it, cuts a negative result to
  0, and leaves a quantity the message does not name unchanged; the only way it can fail is an
  addition that leaves \<open>int\<close>, which is undefined behaviour of the C code.
\<close>

theorem update_supplies_correct:
  assumes "food_ok f" and "medicine_ok d"
  shows "update_supplies_from_json json (Some f, Some d) =
    (if update_fits json f d then Inr ((), (Some (food_after json f), Some (medicine_after json d)))
     else Inl (Fault Signed_overflow))"
  by (auto simp: update_supplies_from_json_def run update_food_result [OF assms(1)]
      update_medicine_result [OF assms(2)] update_fits_def)

theorem update_supplies_correct_witness:
  "update_supplies_from_json
     (Some (json_object [member ''food'' (json_object [member ''water'' (json_int (- 7))])]))
     (Some no_food, Some no_medicine) = Inr ((), (Some no_food, Some no_medicine))"
  by (subst update_supplies_correct)
    (simp_all add: food_ok_def medicine_ok_def no_food_def no_medicine_def update_fits_def
      requested_def food_after_def medicine_after_def get_object_item_insensitive
      case_insensitive_strcmp_def tolower_def byte_def int_bounds)

text \<open>
  C21: replication. The supplies message the server sends, applied to empty supplies, gives the
  server's supplies.
\<close>

theorem supplies_replicate:
  assumes "food_ok f" and "medicine_ok d"
  shows "\<exists>msg. convert_supplies_to_json (Some f) (Some d) [] = Inr (Some msg, []) \<and>
    update_supplies_from_json (Some msg) (Some no_food, Some no_medicine) =
      Inr ((), (Some f, Some d))"
proof -
  have "food_ok no_food" "medicine_ok no_medicine"
    by (simp_all add: food_ok_def no_food_def medicine_ok_def no_medicine_def INT_MAX_def)
  then have "update_supplies_from_json (Some (supplies_json f d)) (Some no_food, Some no_medicine)
      = Inr ((), (Some f, Some d))"
    using food_okD [OF assms(1)] medicine_okD [OF assms(2)]
    by (simp add: update_supplies_from_json_def run update_food_result update_medicine_result
        requested_supplies_json food_after_def medicine_after_def no_food_def no_medicine_def)
  then show ?thesis using convert_supplies_Nil [OF assms] by blast
qed

theorem supplies_replicate_witness:
  "\<exists>msg. convert_supplies_to_json
      (Some \<lparr>meat = 3, vegetables = 0, fruits = 1, water = 20\<rparr>) (Some no_medicine) [] =
        Inr (Some msg, []) \<and>
    update_supplies_from_json (Some msg) (Some no_food, Some no_medicine) =
      Inr ((), (Some \<lparr>meat = 3, vegetables = 0, fruits = 1, water = 20\<rparr>, Some no_medicine))"
  by (rule supplies_replicate)
    (simp_all add: food_ok_def medicine_ok_def no_medicine_def INT_MAX_def)

text \<open>
  Quantities are never negative. From the initial supplies, whatever messages are applied
  and in whatever order, every quantity stays between 0 and \<open>INT_MAX\<close>; the only possible
  fault is a signed overflow.
\<close>

theorem supplies_never_negative:
  "wp (block (map update_supplies_from_json msgs)) (\<lambda>_. supplies_ok)
     (\<lambda>e. e = Fault Signed_overflow) (Some no_food, Some no_medicine)"
proof -
  let ?I = "\<lambda>ps. supplies_ok ps \<and> fst ps \<noteq> None \<and> snd ps \<noteq> None"
  have step: "wp (update_supplies_from_json json) (\<lambda>_. ?I) (\<lambda>e. e = Fault Signed_overflow) ps"
    if I: "?I ps" for json ps
  proof -
    obtain f d where ps: "ps = (Some f, Some d)" using I by (cases ps) auto
    then have "food_ok f" "medicine_ok d" using I by (simp_all add: supplies_ok_def)
    then show ?thesis
      by (auto simp: ps update_supplies_from_json_def wp_def run update_food_result
          update_medicine_result supplies_ok_def food_ok_def medicine_ok_def food_after_def
          medicine_after_def int_bounds)
  qed
  have "wp (block (map update_supplies_from_json msgs)) (\<lambda>_. ?I)
     (\<lambda>e. e = Fault Signed_overflow) (Some no_food, Some no_medicine)"
  proof (rule wp_block_invariant)
    show "?I (Some no_food, Some no_medicine)"
      by (simp add: supplies_ok_def food_ok_def medicine_ok_def no_food_def no_medicine_def
          INT_MAX_def)
  qed (use step in auto)
  then show ?thesis by (rule wp_mono) auto
qed

text \<open>
  After initialisation on a machine without the segments, the pointers are to empty
  supplies, exactly when every call for the segment and the ones before it succeeds.
\<close>

theorem init_then_get:
  "get_food_supply os (init_shared_memory_supplies os m) =
     (if shmget_ok os FOOD_SUPPLY_KEY \<and> shmat_ok os FOOD_SUPPLY_KEY then Some no_food else None) \<and>
   (medicine_segment m = None \<longrightarrow>
    get_medicine_supply os (init_shared_memory_supplies os m) =
     (if shmget_ok os FOOD_SUPPLY_KEY \<and> shmat_ok os FOOD_SUPPLY_KEY \<and>
         shmget_ok os MEDICINE_SUPPLY_KEY \<and> shmat_ok os MEDICINE_SUPPLY_KEY
      then Some no_medicine else None))"
  by (auto simp: init_shared_memory_supplies_def get_food_supply_def get_medicine_supply_def Let_def)

theorem init_then_get_witness:
  "get_medicine_supply \<lparr>shmget_ok = (\<lambda>_. True), shmat_ok = (\<lambda>_. True)\<rparr>
     (init_shared_memory_supplies \<lparr>shmget_ok = (\<lambda>_. True), shmat_ok = (\<lambda>_. True)\<rparr>
       \<lparr>food_segment = None, medicine_segment = None\<rparr>) = Some no_medicine"
  using init_then_get [of "\<lparr>shmget_ok = (\<lambda>_. True), shmat_ok = (\<lambda>_. True)\<rparr>"
      "\<lparr>food_segment = None, medicine_segment = None\<rparr>"]
  by simp

end
