(* ===== verification/Emergency.thy ===== *)
theory Emergency
  imports Supplies
begin

text \<open>
  The server's records of alerts and events (\<open>EntryAlertsCount\<close> and \<open>EmergencyInfo\<close> in
  \<open>server.h\<close>, with their operations in \<open>server.c\<close>) and the summary the server sends,
  which is made of them and of the supplies.
\<close>

section \<open>Alert counts\<close>

record EntryAlertsCount =
  north :: int
  south :: int
  east :: int
  west :: int

definition initialize_entry_alerts_count :: "EntryAlertsCount \<Rightarrow> EntryAlertsCount" where
  "initialize_entry_alerts_count ealerts =
     ealerts\<lparr>north := 0, south := 0, east := 0, west := 0\<rparr>"

definition get_alerts_for_entry :: "EntryAlertsCount \<Rightarrow> string \<Rightarrow> int" where
  "get_alerts_for_entry counts entry =
     (if entry = ''NORTH'' then north counts
      else if entry = ''SOUTH'' then south counts
      else if entry = ''EAST'' then east counts
      else if entry = ''WEST'' then west counts
      else - 1)"

definition detect_entry :: "string \<Rightarrow> string option" where
  "detect_entry alert_message =
     (if strstr alert_message ''NORTH'' then Some ''NORTH''
      else if strstr alert_message ''SOUTH'' then Some ''SOUTH''
      else if strstr alert_message ''EAST'' then Some ''EAST''
      else if strstr alert_message ''WEST'' then Some ''WEST''
      else None)"

text \<open>The increments at the end of \<open>check_alerts\<close>.\<close>

definition count_entry :: "string \<Rightarrow> (EntryAlertsCount, unit) prog" where
  "count_entry entry =
     andthen (gets id) (\<lambda>c.
     if entry = ''NORTH'' then
       andthen (lift (c_add (north c) 1)) (\<lambda>n. modify (\<lambda>c. c\<lparr>north := n\<rparr>))
     else if entry = ''SOUTH'' then
       andthen (lift (c_add (south c) 1)) (\<lambda>n. modify (\<lambda>c. c\<lparr>south := n\<rparr>))
     else if entry = ''EAST'' then
       andthen (lift (c_add (east c) 1)) (\<lambda>n. modify (\<lambda>c. c\<lparr>east := n\<rparr>))
     else if entry = ''WEST'' then
       andthen (lift (c_add (west c) 1)) (\<lambda>n. modify (\<lambda>c. c\<lparr>west := n\<rparr>))
     else ret ())"

section \<open>The last event\<close>

text \<open>Two char arrays, of 30 and of 100 bytes.\<close>

record EmergencyInfo =
  last_keepalived :: string
  last_event :: string

definition no_emergency_info :: EmergencyInfo where
  "no_emergency_info =
     \<lparr>last_keepalived = replicate 30 NUL, last_event = replicate 100 NUL\<rparr>"

definition update_emergency_info :: "string \<Rightarrow> string \<Rightarrow> EmergencyInfo \<Rightarrow> EmergencyInfo" where
  "update_emergency_info keepalived event info =
     info\<lparr>last_keepalived := strncpy (length (last_keepalived info)) keepalived,
          last_event := strncpy (length (last_event info)) event\<rparr>"

definition get_last_keepalived :: "EmergencyInfo \<Rightarrow> string" where
  "get_last_keepalived info = last_keepalived info"

definition get_last_event :: "EmergencyInfo \<Rightarrow> string" where
  "get_last_event info = last_event info"

section \<open>The summary\<close>

text \<open>A new object member of \<open>summary\<close>, filled by \<open>fill\<close> through the returned pointer.\<close>

definition with_object ::
    "cJSON option \<Rightarrow> string \<Rightarrow> (cJSON option \<Rightarrow> cJSON option heapm) \<Rightarrow> cJSON option heapm" where
  "with_object summary key fill =
     andthen (cJSON_AddObjectToObject summary key) (\<lambda>(ob, summary').
     andthen (fill ob) (\<lambda>ob'. ret (if ob = None then summary' else store_last ob' summary')))"

definition create_summary_json ::
    "shm_os \<Rightarrow> EntryAlertsCount \<Rightarrow> shm \<Rightarrow> EmergencyInfo \<Rightarrow> cJSON option heapm" where
  "create_summary_json os counts segments info =
     andthen cJSON_CreateObject (\<lambda>summary.
     andthen (with_object summary ''alerts'' (\<lambda>alerts.
       add_numbers alerts
         [(''north_entry'', get_alerts_for_entry counts ''NORTH''),
          (''east_entry'', get_alerts_for_entry counts ''EAST''),
          (''west_entry'', get_alerts_for_entry counts ''WEST''),
          (''south_entry'', get_alerts_for_entry counts ''SOUTH'')])) (\<lambda>summary.
     andthen (convert_supplies_to_json (get_food_supply os segments)
         (get_medicine_supply os segments)) (\<lambda>supplies.
     andthen (cJSON_AddItemToObject summary ''supplies'' supplies) (\<lambda>(_, summary).
     with_object summary ''emergency'' (\<lambda>emergency.
       andthen (add_array_text emergency ''last_keepalived'' (get_last_keepalived info))
         (\<lambda>(_, emergency).
       andthen (add_array_text emergency ''last_event'' (get_last_event info))
         (\<lambda>(_, emergency). ret emergency)))))))"

section \<open>Properties\<close>

definition counts_ok :: "EntryAlertsCount \<Rightarrow> bool" where
  "counts_ok c \<longleftrightarrow> (\<forall>n \<in> {north c, south c, east c, west c}. 0 \<le> n \<and> n \<le> INT_MAX)"

definition info_ok :: "EmergencyInfo \<Rightarrow> bool" where
  "info_ok info \<longleftrightarrow> length (last_keepalived info) = 30 \<and> length (last_event info) = 100 \<and>
     NUL \<in> set (last_keepalived info) \<and> NUL \<in> set (last_event info)"

text \<open>Every entry the detection can answer is one of the four, and counting it adds 1 to it and
  leaves the others.\<close>

lemma detect_entry_cases:
  "detect_entry msg = Some entry \<Longrightarrow> entry \<in> {''NORTH'', ''SOUTH'', ''EAST'', ''WEST''}"
  by (auto simp: detect_entry_def split: if_splits)

lemma count_entry_ok:
  assumes "counts_ok c" and "detect_entry msg = Some entry"
  shows "wp (count_entry entry) (\<lambda>_ c'. counts_ok c' \<and>
      (\<forall>e. get_alerts_for_entry c' e = get_alerts_for_entry c e + (if e = entry then 1 else 0)))
    (\<lambda>e. e = Fault Signed_overflow \<and> get_alerts_for_entry c entry = INT_MAX) c"
  using detect_entry_cases [OF assms(2)] assms(1)
  by (auto simp: count_entry_def c_add_def counts_ok_def get_alerts_for_entry_def int_bounds
      split: sum.splits)

lemma strncpy_terminated: "c_string s \<Longrightarrow> NUL \<in> set (strncpy n s) \<longleftrightarrow> length s < n"
  using cstr_strncpy [of s n] by (auto simp: cstr_def split: if_splits)

lemma info_ok_update_iff:
  "info_ok info \<Longrightarrow> c_string keepalived \<Longrightarrow> c_string event \<Longrightarrow>
   info_ok (update_emergency_info keepalived event info) \<longleftrightarrow>
     length keepalived < 30 \<and> length event < 100"
  by (simp add: update_emergency_info_def info_ok_def strncpy_terminated)

text \<open>
  \<open>update_emergency_info\<close> leaves two arrays that read back as what was stored, exactly as
  long as both texts are shorter than their arrays; a longer event is left without terminator,
  and reading it is undefined behaviour.
\<close>

theorem update_emergency_info_reads_back:
  assumes "info_ok info" and "c_string keepalived" and "c_string event"
  shows "cstr (get_last_keepalived (update_emergency_info keepalived event info)) =
      (if length keepalived < 30 then Inr keepalived else Inl (Fault Unterminated_string)) \<and>
    cstr (get_last_event (update_emergency_info keepalived event info)) =
      (if length event < 100 then Inr event else Inl (Fault Unterminated_string)) \<and>
    (info_ok (update_emergency_info keepalived event info) \<longleftrightarrow>
      length keepalived < 30 \<and> length event < 100)"
  using assms info_ok_update_iff [OF assms]
  by (simp add: update_emergency_info_def get_last_keepalived_def get_last_event_def
      info_ok_def [of info] cstr_strncpy)

theorem update_emergency_info_reads_back_witness:
  "cstr (get_last_event (update_emergency_info ''2024-05-01 10:00:00'' (replicate 110 CHR ''A'')
      no_emergency_info)) = Inl (Fault Unterminated_string)"
  using update_emergency_info_reads_back
    [of no_emergency_info "''2024-05-01 10:00:00''" "replicate 110 CHR ''A''"]
  by (simp add: info_ok_def no_emergency_info_def c_string_def)

definition alerts_json :: "EntryAlertsCount \<Rightarrow> cJSON" where
  "alerts_json c = json_object
     [member ''north_entry'' (json_int (north c)), member ''east_entry'' (json_int (east c)),
      member ''west_entry'' (json_int (west c)), member ''south_entry'' (json_int (south c))]"

definition summary_json ::
    "EntryAlertsCount \<Rightarrow> FoodSupply \<Rightarrow> MedicineSupply \<Rightarrow> string \<Rightarrow> string \<Rightarrow> cJSON" where
  "summary_json c f d keepalived event = json_object
     [member ''alerts'' (alerts_json c),
      member ''supplies'' (supplies_json f d),
      member ''emergency'' (json_object
        [member ''last_keepalived'' (json_string keepalived),
         member ''last_event'' (json_string event)])]"

lemma with_object_Nil:
  assumes "fill (Some (member key (json_object []))) [] = Inr (Some (member key ob), [])"
  shows "with_object (Some (json_object ch)) key fill [] =
    Inr (Some (json_object (ch @ [member key ob])), [])"
  using assms by (simp add: with_object_def run store_last_def)

lemma counts_int:
  assumes "counts_ok c"
  shows "is_int (north c)" "is_int (south c)" "is_int (east c)" "is_int (west c)"
  using assms by (auto simp: counts_ok_def int_bounds)

lemma add_member_member [simp]:
  "add_member (member key (json_object ch)) n it = member key (json_object (ch @ [member n it]))"
  by (simp add: add_member_def)

lemma alerts_Nil:
  assumes "counts_ok c"
  shows "add_numbers (Some (member key (json_object [])))
     [(''north_entry'', get_alerts_for_entry c ''NORTH''),
      (''east_entry'', get_alerts_for_entry c ''EAST''),
      (''west_entry'', get_alerts_for_entry c ''WEST''),
      (''south_entry'', get_alerts_for_entry c ''SOUTH'')] [] =
    Inr (Some (member key (alerts_json c)), [])"
  using counts_int [OF assms]
  by (simp add: run get_alerts_for_entry_def alerts_json_def)

lemma emergency_Nil:
  assumes "cstr ka = Inr keepalived" and "cstr ev = Inr event"
  shows "andthen (add_array_text (Some (member key (json_object []))) ''last_keepalived'' ka)
      (\<lambda>(_, emergency).
       andthen (add_array_text emergency ''last_event'' ev) (\<lambda>(_, emergency). ret emergency)) [] =
    Inr (Some (member key (json_object [member ''last_keepalived'' (json_string keepalived),
      member ''last_event'' (json_string event)])), [])"
  using assms by (simp add: run)

lemma with_alerts_Nil:
  assumes "counts_ok counts"
  shows "with_object (Some (json_object [])) ''alerts'' (\<lambda>alerts. add_numbers alerts
      [(''north_entry'', get_alerts_for_entry counts ''NORTH''),
       (''east_entry'', get_alerts_for_entry counts ''EAST''),
       (''west_entry'', get_alerts_for_entry counts ''WEST''),
       (''south_entry'', get_alerts_for_entry counts ''SOUTH'')]) [] =
    Inr (Some (json_object [member ''alerts'' (alerts_json counts)]), [])"
  by (rule with_object_Nil [THEN trans], rule alerts_Nil [OF assms]) simp

lemma create_summary_Nil:
  assumes "counts_ok counts" and "food_ok f" and "medicine_ok d"
    and "get_food_supply os segments = Some f" and "get_medicine_supply os segments = Some d"
    and "cstr (last_keepalived info) = Inr keepalived" and "cstr (last_event info) = Inr event"
  shows "create_summary_json os counts segments info [] =
    Inr (Some (summary_json counts f d keepalived event), [])"
proof -
  have emergency: "with_object (Some (json_object ch)) ''emergency'' (\<lambda>emergency.
      andthen (add_array_text emergency ''last_keepalived'' (last_keepalived info)) (\<lambda>(_, emergency).
      andthen (add_array_text emergency ''last_event'' (last_event info))
        (\<lambda>(_, emergency). ret emergency))) [] =
      Inr (Some (json_object (ch @ [member ''emergency'' (json_object
        [member ''last_keepalived'' (json_string keepalived),
         member ''last_event'' (json_string event)])])), [])" for ch
    by (rule with_object_Nil, rule emergency_Nil [OF assms(6,7)])
  show ?thesis
    by (simp add: create_summary_json_def andthen_apply with_alerts_Nil [OF assms(1)] emergency assms(4,5)
        convert_supplies_Nil [OF assms(2,3)] get_last_keepalived_def get_last_event_def
        summary_json_def del: add_numbers.simps)
qed

text \<open>A last event without terminator stops the summary.\<close>

lemma create_summary_unterminated:
  assumes "counts_ok counts" and "food_ok f" and "medicine_ok d"
    and "get_food_supply os segments = Some f" and "get_medicine_supply os segments = Some d"
    and "cstr (last_keepalived info) = Inr keepalived" and "cstr (last_event info) = Inl e"
  shows "create_summary_json os counts segments info [] = Inl e"
proof -
  have "with_object (Some (json_object ch)) ''emergency'' (\<lambda>emergency.
      andthen (add_array_text emergency ''last_keepalived'' (last_keepalived info)) (\<lambda>(_, emergency).
      andthen (add_array_text emergency ''last_event'' (last_event info))
        (\<lambda>(_, emergency). ret emergency))) [] = Inl e" for ch
    using assms(6,7)
    by (simp add: with_object_def run) (simp add: add_array_text_def add_created_def create_text_def
        strdup_array_def cJSON_New_Item_def run)
  then show ?thesis
    by (simp add: create_summary_json_def andthen_apply with_alerts_Nil [OF assms(1)] assms(4,5)
        convert_supplies_Nil [OF assms(2,3)] get_last_keepalived_def get_last_event_def
        del: add_numbers.simps)
qed

text \<open>
  The summary message holds the four alert counts under their own names, the supplies in
  the form of a status message, and the time and text of the last recorded event.
\<close>

theorem summary_correct:
  assumes "counts_ok counts" and "food_ok f" and "medicine_ok d"
    and "get_food_supply os segments = Some f" and "get_medicine_supply os segments = Some d"
    and "cstr (last_keepalived info) = Inr keepalived" and "cstr (last_event info) = Inr event"
  shows "create_summary_json os counts segments info [] =
    Inr (Some (summary_json counts f d keepalived event), [])"
  by (rule create_summary_Nil [OF assms])

theorem summary_correct_witness:
  "create_summary_json \<lparr>shmget_ok = (\<lambda>_. True), shmat_ok = (\<lambda>_. True)\<rparr>
     \<lparr>north = 2, south = 0, east = 1, west = 0\<rparr>
     \<lparr>food_segment = Some no_food, medicine_segment = Some no_medicine\<rparr>
     (update_emergency_info ''10:00'' ''Status'' no_emergency_info) [] =
   Inr (Some (summary_json \<lparr>north = 2, south = 0, east = 1, west = 0\<rparr> no_food no_medicine
     ''10:00'' ''Status''), [])"
  by (rule summary_correct)
    (simp_all add: counts_ok_def food_ok_def medicine_ok_def no_food_def no_medicine_def INT_MAX_def
      get_food_supply_def get_medicine_supply_def update_emergency_info_def no_emergency_info_def
      cstr_strncpy)

end
