(* ===== verification/Registry.thy ===== *)
theory Registry
  imports Prelude
begin

text \<open>
  What the two client registries of the server share: loops over a fixed array, with every
  access checked, and the contract of a bounded registry as a locale, with the facts that
  follow from it for any sequence of insertions and deletions.
\<close>

section \<open>Arrays and the loops over them\<close>

definition read_at :: "nat \<Rightarrow> ('a list, 'a) prog" where
  "read_at i a = (if i < length a then Inr (a ! i, a) else Inl (Fault Out_of_bounds))"

definition write_at :: "nat \<Rightarrow> 'a \<Rightarrow> ('a list, unit) prog" where
  "write_at i x a = (if i < length a then Inr ((), a[i := x]) else Inl (Fault Out_of_bounds))"

text \<open>The first index from \<open>i\<close> on, in \<open>k\<close> steps, whose element satisfies \<open>P\<close>.\<close>

primrec find_slot :: "('a \<Rightarrow> bool) \<Rightarrow> nat \<Rightarrow> nat \<Rightarrow> ('a list, nat option) prog" where
  "find_slot P 0 i = ret None"
| "find_slot P (Suc k) i =
     andthen (read_at i) (\<lambda>x. if P x then ret (Some i) else find_slot P k (i + 1))"

text \<open>\<open>k\<close> elements from \<open>i + 1\<close> on move one place to the left.\<close>

primrec shift_left :: "nat \<Rightarrow> nat \<Rightarrow> ('a list, unit) prog" where
  "shift_left 0 i = ret ()"
| "shift_left (Suc k) i =
     andthen (read_at (i + 1)) (\<lambda>x.
     andthen (write_at i x) (\<lambda>_. shift_left k (i + 1)))"

text \<open>A body run on each of \<open>k\<close> elements from \<open>i\<close> on.\<close>

primrec collect :: "('a \<Rightarrow> 'b) \<Rightarrow> nat \<Rightarrow> nat \<Rightarrow> ('a list, 'b list) prog" where
  "collect f 0 i = ret []"
| "collect f (Suc k) i =
     andthen (read_at i) (\<lambda>x.
     andthen (collect f k (i + 1)) (\<lambda>ys. ret (f x # ys)))"

subsection \<open>What the loops compute\<close>

lemma drop_Suc_nth: "i < length a \<Longrightarrow> drop i a = a ! i # drop (Suc i) a"
  by (rule Cons_nth_drop_Suc [symmetric])

lemma find_slot_result:
  assumes "i + k \<le> length a"
  shows "find_slot P k i a =
    Inr (map_option fst (find (\<lambda>(j, x). P x) (zip [i..<i + k] (take k (drop i a)))), a)"
  using assms
proof (induction k arbitrary: i)
  case 0
  then show ?case by (simp add: run)
next
  case (Suc k)
  then have "[i..<i + Suc k] = i # [Suc i..<Suc i + k]" by (simp add: upt_rec)
  then show ?case using Suc by (simp add: run read_at_def drop_Suc_nth)
qed

lemma collect_result:
  "i + k \<le> length a \<Longrightarrow> collect f k i a = Inr (map f (take k (drop i a)), a)"
  by (induction k arbitrary: i) (simp_all add: run read_at_def drop_Suc_nth)

lemma collect_reads: "collect f k i a = Inr (ys, b) \<Longrightarrow> b = a"
  by (induction k arbitrary: i ys) (auto simp: run read_at_def split: if_splits sum.splits)

lemma shift_left_result:
  "i + k < length a \<Longrightarrow>
   shift_left k i a =
     Inr ((), take i a @ take k (drop (Suc i) a) @ drop (i + k) a)"
proof (induction k arbitrary: i a)
  case 0
  then show ?case by (simp add: run)
next
  case (Suc k)
  let ?a = "a[i := a ! Suc i]"
  have "shift_left (Suc k) i a = shift_left k (Suc i) ?a"
    using Suc.prems by (simp add: run read_at_def write_at_def)
  also have "\<dots> = Inr ((), take (Suc i) ?a @ take k (drop (Suc (Suc i)) ?a) @ drop (Suc i + k) ?a)"
    using Suc.prems by (intro Suc.IH) simp
  also have "take (Suc i) ?a = take i a @ [a ! Suc i]"
    using Suc.prems by (simp add: take_Suc_conv_app_nth)
  finally show ?case using Suc.prems by (simp add: drop_Suc_nth [of "Suc i"])
qed

text \<open>The first element a predicate holds of, taken out of a list.\<close>

fun remove_first :: "('a \<Rightarrow> bool) \<Rightarrow> 'a list \<Rightarrow> 'a list" where
  "remove_first P [] = []"
| "remove_first P (x # xs) = (if P x then xs else x # remove_first P xs)"

lemma remove_first_None: "\<forall>x \<in> set xs. \<not> P x \<Longrightarrow> remove_first P xs = xs"
  by (induction xs) auto

lemma remove_first_split:
  "\<forall>x \<in> set xs. \<not> P x \<Longrightarrow> P y \<Longrightarrow> remove_first P (xs @ y # ys) = xs @ ys"
  by (induction xs) auto

lemma remove_first_eq: "remove_first (\<lambda>x. x = y) xs = remove1 y xs"
  by (induction xs) auto

lemma length_remove_first:
  "length (remove_first P xs) = length xs - (if \<exists>x \<in> set xs. P x then 1 else 0)"
  by (induction xs) (auto simp: Suc_diff_le length_greater_0_conv [symmetric]
      simp del: length_greater_0_conv dest: length_pos_if_in_set)

lemma remove_first_subseq: "subseq (remove_first P xs) xs"
  by (induction xs) auto

lemma remove_first_append:
  "remove_first P (xs @ ys) =
     (if \<exists>x \<in> set xs. P x then remove_first P xs @ ys else xs @ remove_first P ys)"
  by (induction xs) auto

text \<open>Searching a prefix of an array and closing the gap is \<open>remove_first\<close> on the prefix.\<close>

lemma set_remove_first: "set (remove_first P xs) \<subseteq> set xs"
  by (induction xs) auto

lemma sorted_wrt_remove_first: "sorted_wrt Q xs \<Longrightarrow> sorted_wrt Q (remove_first P xs)"
  by (induction xs) (auto dest: set_remove_first [THEN subsetD])

lemma find_zip_split:
  assumes "find (\<lambda>(j, x). P x) (zip [i..<i + length xs] xs) = Some (j, y)"
  shows "\<exists>us vs. xs = us @ y # vs \<and> j = i + length us \<and> P y \<and> (\<forall>x \<in> set us. \<not> P x)"
  using assms
proof (induction xs arbitrary: i)
  case Nil
  then show ?case by simp
next
  case (Cons x xs)
  have upt: "[i..<i + length (x # xs)] = i # [Suc i..<Suc i + length xs]"
    by (simp add: upt_rec)
  show ?case
  proof (cases "P x")
    case True
    then have "j = i" "y = x" using Cons.prems unfolding upt by simp_all
    then show ?thesis using True by (intro exI [of _ "[]"] exI [of _ xs]) simp
  next
    case False
    then have "find (\<lambda>(j, x). P x) (zip [Suc i..<Suc i + length xs] xs) = Some (j, y)"
      using Cons.prems unfolding upt by simp
    from Cons.IH [OF this] obtain us vs where
      "xs = us @ y # vs" "j = Suc i + length us" "P y" "\<forall>x \<in> set us. \<not> P x" by blast
    then show ?thesis using False
      by (intro exI [of _ "x # us"] exI [of _ vs]) simp
  qed
qed

lemma find_zip_None:
  "find (\<lambda>(j, x). P x) (zip [i..<i + length xs] xs) = None \<longleftrightarrow> (\<forall>x \<in> set xs. \<not> P x)"
  proof
  assume "find (\<lambda>(j, x). P x) (zip [i..<i + length xs] xs) = None"
  then show "\<forall>x \<in> set xs. \<not> P x"
    by (fastforce simp: find_None_iff in_set_zip in_set_conv_nth)
next
  assume "\<forall>x \<in> set xs. \<not> P x"
  then show "find (\<lambda>(j, x). P x) (zip [i..<i + length xs] xs) = None"
    by (auto simp: find_None_iff dest: set_zip_rightD)
qed

text \<open>The loop of both deletions: find the entry, then move the later ones over it.\<close>

definition close_gap :: "('a \<Rightarrow> bool) \<Rightarrow> nat \<Rightarrow> ('a list, bool) prog" where
  "close_gap P n =
     andthen (find_slot P n 0) (\<lambda>slot.
     case slot of
       None \<Rightarrow> ret False
     | Some i \<Rightarrow> andthen (shift_left (n - 1 - i) i) (\<lambda>_. ret True))"

lemma close_gap_ok:
  assumes "n \<le> length a"
  shows "wp (close_gap P n) (\<lambda>found a'. length a' = length a \<and>
      found = (\<exists>x \<in> set (take n a). P x) \<and>
      take (if found then n - 1 else n) a' = remove_first P (take n a)) (\<lambda>_. False) a"
proof -
  let ?s = "find (\<lambda>(j, x). P x) (zip [0..<n] (take n a))"
  have n: "length (take n a) = n" using assms by simp
  have slot: "find_slot P n 0 a = Inr (map_option fst ?s, a)"
    using find_slot_result [of 0 n a] assms by simp
  show ?thesis
  proof (cases ?s)
    case None
    then have "\<forall>x \<in> set (take n a). \<not> P x"
      using find_zip_None [of P 0 "take n a"] n by simp
    then show ?thesis using None slot
      by (auto simp: close_gap_def wp_def run remove_first_None)
  next
    case (Some p)
    then obtain i y where s: "?s = Some (i, y)" by (cases p) auto
    then obtain us vs where split: "take n a = us @ y # vs" "i = length us" "P y"
        "\<forall>x \<in> set us. \<not> P x"
      using find_zip_split [of P 0 "take n a" i y] n by auto
    have len: "n = Suc (length us + length vs)" using n split by simp
    define r where "r = drop n a"
    have a: "a = us @ y # vs @ r"
      using split(1) append_take_drop_id [of n a] by (simp add: r_def)
    have "shift_left (n - 1 - i) i a =
        Inr ((), take i a @ take (n - 1 - i) (drop (Suc i) a) @ drop (i + (n - 1 - i)) a)"
      by (rule shift_left_result) (use assms len split in auto)
    also have "\<dots> = Inr ((), us @ vs @ last (y # vs) # r)"
      by (cases vs rule: rev_cases) (simp_all add: a split(2) len)
    finally show ?thesis using s slot split
      by (auto simp: close_gap_def wp_def run remove_first_split len a)
  qed
qed

section \<open>The contract of a bounded registry\<close>

text \<open>
  The abstract registry is the list of its entries, oldest first, at most \<open>cap\<close> of them. An
  insertion appends the new entry unless the registry is full or an entry refuses it; a
  deletion takes out the first entry that matches a key.
\<close>

datatype ('e, 'k) registry_op = Insert 'e | Delete 'k

fun registry_spec ::
    "nat \<Rightarrow> ('e \<Rightarrow> 'e \<Rightarrow> bool) \<Rightarrow> ('k \<Rightarrow> 'e \<Rightarrow> bool) \<Rightarrow> ('e, 'k) registry_op \<Rightarrow> 'e list \<Rightarrow> 'e list"
  where
  "registry_spec cap refuses matches (Insert e) xs =
     (if (\<forall>x \<in> set xs. \<not> refuses x e) \<and> length xs < cap then xs @ [e] else xs)"
| "registry_spec cap refuses matches (Delete k) xs = remove_first (matches k) xs"

fun perform ::
    "('e \<Rightarrow> ('r, bool) prog) \<Rightarrow> ('k \<Rightarrow> ('r, bool) prog) \<Rightarrow> ('e, 'k) registry_op \<Rightarrow> ('r, unit) prog"
  where
  "perform ins del (Insert e) = andthen (ins e) (\<lambda>_. ret ())"
| "perform ins del (Delete k) = andthen (del k) (\<lambda>_. ret ())"

lemma registry_spec_length:
  "length xs \<le> cap \<Longrightarrow> length (registry_spec cap refuses matches op xs) \<le> cap"
  by (cases op) (auto simp: length_remove_first)

lemma registry_spec_no_refused:
  "sorted_wrt (\<lambda>x y. \<not> refuses x y) xs \<Longrightarrow>
   sorted_wrt (\<lambda>x y. \<not> refuses x y) (registry_spec cap refuses matches op xs)"
proof (cases op)
  case (Insert e)
  assume "sorted_wrt (\<lambda>x y. \<not> refuses x y) xs"
  then show ?thesis using Insert by (simp add: sorted_wrt_append)
next
  case (Delete k)
  assume "sorted_wrt (\<lambda>x y. \<not> refuses x y) xs"
  then show ?thesis using Delete by (simp add: sorted_wrt_remove_first)
qed

text \<open>Only a deletion that matches an entry takes it out.\<close>

lemma registry_spec_keeps:
  assumes "x \<in> set xs" and "\<And>k. op = Delete k \<Longrightarrow> \<not> matches k x"
  shows "x \<in> set (registry_spec cap refuses matches op xs)"
proof (cases op)
  case (Insert e)
  then show ?thesis using assms(1) by simp
next
  case (Delete k)
  have "\<not> P x \<Longrightarrow> x \<in> set ys \<Longrightarrow> x \<in> set (remove_first P ys)" for P ys
    by (induction ys) auto
  then show ?thesis using assms Delete by simp
qed

locale bounded_registry =
  fixes inv :: "'r \<Rightarrow> bool"
    and entries :: "'r \<Rightarrow> 'e list"
    and cap :: nat
    and ins :: "'e \<Rightarrow> ('r, bool) prog"
    and del :: "'k \<Rightarrow> ('r, bool) prog"
    and refuses :: "'e \<Rightarrow> 'e \<Rightarrow> bool"
    and matches :: "'k \<Rightarrow> 'e \<Rightarrow> bool"
  assumes bounded: "inv r \<Longrightarrow> length (entries r) \<le> cap"
    and ins_ok: "inv r \<Longrightarrow>
      wp (ins e) (\<lambda>done r'. inv r' \<and>
          done = ((\<forall>x \<in> set (entries r). \<not> refuses x e) \<and> length (entries r) < cap) \<and>
          entries r' = registry_spec cap refuses matches (Insert e) (entries r))
        (\<lambda>_. False) r"
    and del_ok: "inv r \<Longrightarrow>
      wp (del k) (\<lambda>done r'. inv r' \<and> done = (\<exists>x \<in> set (entries r). matches k x) \<and>
          entries r' = registry_spec cap refuses matches (Delete k) (entries r))
        (\<lambda>_. False) r"
begin

lemma perform_ok:
  assumes "inv r"
  shows "wp (perform ins del op)
    (\<lambda>_ r'. inv r' \<and> entries r' = registry_spec cap refuses matches op (entries r)) (\<lambda>_. False) r"
proof (cases op)
  case (Insert e)
  then show ?thesis using wp_mono [OF ins_ok [OF assms, of e]] by simp
next
  case (Delete k)
  then show ?thesis using wp_mono [OF del_ok [OF assms, of k]] by simp
qed

text \<open>Any sequence of operations is the same sequence on the abstract registry.\<close>

lemma simulation:
  assumes "inv r"
  shows "wp (block (map (perform ins del) ops))
    (\<lambda>_ r'. inv r' \<and>
       entries r' = foldl (\<lambda>xs op. registry_spec cap refuses matches op xs) (entries r) ops)
    (\<lambda>_. False) r"
  using assms
proof (induction ops arbitrary: r)
  case Nil
  then show ?case by simp
next
  case (Cons op ops)
  show ?case unfolding list.map wp_block_Cons
    by (rule wp_mono [OF perform_ok [OF Cons.prems, of op]]) (auto dest!: Cons.IH)
qed

lemma never_refused_pair:
  assumes "inv r" and "sorted_wrt (\<lambda>x y. \<not> refuses x y) (entries r)"
  shows "wp (block (map (perform ins del) ops))
    (\<lambda>_ r'. length (entries r') \<le> cap \<and> sorted_wrt (\<lambda>x y. \<not> refuses x y) (entries r'))
    (\<lambda>_. False) r"
proof -
  have "sorted_wrt (\<lambda>x y. \<not> refuses x y) xs \<Longrightarrow>
      sorted_wrt (\<lambda>x y. \<not> refuses x y)
        (foldl (\<lambda>xs op. registry_spec cap refuses matches op xs) xs ops)" for xs
    by (induction ops arbitrary: xs) (simp_all add: registry_spec_no_refused)
  then show ?thesis using assms
    by (intro wp_mono [OF simulation]) (use bounded in force)+
qed

lemma kept_until_deleted:
  assumes "inv r" and "x \<in> set (entries r)" and "\<And>k. Delete k \<in> set ops \<Longrightarrow> \<not> matches k x"
  shows "wp (block (map (perform ins del) ops)) (\<lambda>_ r'. x \<in> set (entries r')) (\<lambda>_. False) r"
proof -
  have "x \<in> set xs \<Longrightarrow> (\<And>k. Delete k \<in> set ops \<Longrightarrow> \<not> matches k x) \<Longrightarrow>
      x \<in> set (foldl (\<lambda>xs op. registry_spec cap refuses matches op xs) xs ops)" for xs
  proof (induction ops arbitrary: xs)
    case Nil
    then show ?case by simp
  next
    case (Cons op ops)
    then show ?case by (simp add: registry_spec_keeps)
  qed
  then show ?thesis using assms by (intro wp_mono [OF simulation]) auto
qed

text \<open>Deleting the entry just inserted restores the registry.\<close>

lemma delete_inserted:
  assumes "inv r" and "length (entries r) < cap" and "\<forall>x \<in> set (entries r). \<not> refuses x e"
    and "matches k e" and "\<forall>x \<in> set (entries r). \<not> matches k x"
  shows "wp (block (map (perform ins del) [Insert e, Delete k]))
    (\<lambda>_ r'. entries r' = entries r) (\<lambda>_. False) r"
  using assms
  by (intro wp_mono [OF simulation]) (auto simp: remove_first_split)

end

end
