(* ===== verification/TcpClients.thy ===== *)
theory TcpClients
  imports Registry
begin

text \<open>
  The list of connected TCP clients (\<open>TCPClientList\<close>, \<open>add_tcp_client\<close> and
  \<open>remove_tcp_client\<close> in \<open>server.c\<close>): an array of \<open>MAX_CLIENTS\<close> descriptors and the number
  of them in use. The two functions here are the list operations; their result says whether
  the list changed, which is when the server logs.
\<close>

definition MAX_CLIENTS :: nat where
  "MAX_CLIENTS = 5"

record TCPClientList =
  client_fds :: "int list"
  num_clients :: nat

definition no_tcp_clients :: TCPClientList where
  "no_tcp_clients = \<lparr>client_fds = replicate MAX_CLIENTS 0, num_clients = 0\<rparr>"

definition on_fds :: "(int list, 'a) prog \<Rightarrow> (TCPClientList, 'a) prog" where
  "on_fds = zoom client_fds (\<lambda>a l. l\<lparr>client_fds := a\<rparr>)"

definition tcp_add :: "int \<Rightarrow> (TCPClientList, bool) prog" where
  "tcp_add client_fd =
     andthen (gets num_clients) (\<lambda>n.
     if n < MAX_CLIENTS then
       andthen (on_fds (write_at n client_fd)) (\<lambda>_.
       andthen (modify (\<lambda>l. l\<lparr>num_clients := n + 1\<rparr>)) (\<lambda>_. ret True))
     else ret False)"

definition tcp_remove :: "int \<Rightarrow> (TCPClientList, bool) prog" where
  "tcp_remove client_fd =
     andthen (gets num_clients) (\<lambda>n.
     andthen (on_fds (close_gap (\<lambda>fd. fd = client_fd) n)) (\<lambda>found.
     if found then andthen (modify (\<lambda>l. l\<lparr>num_clients := n - 1\<rparr>)) (\<lambda>_. ret True)
     else ret False))"

section \<open>The list implements a bounded registry\<close>

definition tcp_inv :: "TCPClientList \<Rightarrow> bool" where
  "tcp_inv l \<longleftrightarrow> length (client_fds l) = MAX_CLIENTS \<and> num_clients l \<le> MAX_CLIENTS"

definition connected :: "TCPClientList \<Rightarrow> int list" where
  "connected l = take (num_clients l) (client_fds l)"

lemma tcp_add_ok:
  assumes "tcp_inv l"
  shows "wp (tcp_add fd) (\<lambda>done l'. tcp_inv l' \<and> done = (length (connected l) < MAX_CLIENTS) \<and>
      connected l' = (if length (connected l) < MAX_CLIENTS then connected l @ [fd] else connected l))
    (\<lambda>_. False) l"
  using assms
  by (auto simp: tcp_add_def on_fds_def wp_def run write_at_def tcp_inv_def connected_def
      take_Suc_conv_app_nth)

lemma tcp_remove_ok:
  assumes "tcp_inv l"
  shows "wp (tcp_remove fd) (\<lambda>done l'. tcp_inv l' \<and> done = (fd \<in> set (connected l)) \<and>
      connected l' = remove1 fd (connected l)) (\<lambda>_. False) l"
  using assms close_gap_ok [of "num_clients l" "client_fds l" "\<lambda>x. x = fd"]
  by (auto simp: tcp_remove_def on_fds_def tcp_inv_def connected_def remove_first_eq
      elim!: wp_mono split: if_splits)

interpretation tcp: bounded_registry tcp_inv connected MAX_CLIENTS tcp_add tcp_remove
  "\<lambda>_ _. False" "\<lambda>k x. x = k"
proof
  fix r e k
  assume "tcp_inv r"
  then show "length (connected r) \<le> MAX_CLIENTS" by (simp add: tcp_inv_def connected_def)
  show "wp (tcp_add e) (\<lambda>done r'. tcp_inv r' \<and>
      done = ((\<forall>x \<in> set (connected r). \<not> False) \<and> length (connected r) < MAX_CLIENTS) \<and>
      connected r' = registry_spec MAX_CLIENTS (\<lambda>_ _. False) (\<lambda>k x. x = k) (Insert e) (connected r))
    (\<lambda>_. False) r"
    by (rule wp_mono [OF tcp_add_ok [OF \<open>tcp_inv r\<close>]]) auto
  show "wp (tcp_remove k) (\<lambda>done r'. tcp_inv r' \<and> done = (\<exists>x \<in> set (connected r). x = k) \<and>
      connected r' = registry_spec MAX_CLIENTS (\<lambda>_ _. False) (\<lambda>k x. x = k) (Delete k) (connected r))
    (\<lambda>_. False) r"
    by (rule wp_mono [OF tcp_remove_ok [OF \<open>tcp_inv r\<close>]]) (auto simp: remove_first_eq)
qed

lemma no_tcp_clients_inv [simp]: "tcp_inv no_tcp_clients" "connected no_tcp_clients = []"
  by (simp_all add: tcp_inv_def no_tcp_clients_def connected_def)

text \<open>
  C18: from an empty list, any sequence of connections and disconnections runs without touching
  the array outside its bounds, never holds more than \<open>MAX_CLIENTS\<close> descriptors, and leaves the
  descriptors in the order they connected: a connection is appended unless the list is full, a
  disconnection takes out the first entry of that descriptor.
\<close>

theorem tcp_registry_refines:
  "wp (block (map (perform tcp_add tcp_remove) ops))
     (\<lambda>_ l. length (connected l) \<le> MAX_CLIENTS \<and>
        connected l = foldl (\<lambda>fds op. case op of
            Insert fd \<Rightarrow> if length fds < MAX_CLIENTS then fds @ [fd] else fds
          | Delete fd \<Rightarrow> remove1 fd fds) [] ops)
     (\<lambda>_. False) no_tcp_clients"
proof -
  have spec: "registry_spec MAX_CLIENTS (\<lambda>_ _. False) (\<lambda>k x. x = k) op fds =
      (case op of Insert fd \<Rightarrow> if length fds < MAX_CLIENTS then fds @ [fd] else fds
        | Delete fd \<Rightarrow> remove1 fd fds)" for op :: "(int, int) registry_op" and fds
    by (simp add: remove_first_eq split: registry_op.splits)
  show ?thesis
    by (rule wp_mono [OF tcp.simulation [of no_tcp_clients ops]])
      (use tcp.bounded in \<open>force simp: spec\<close>)+
qed

text \<open>
  A registered client stays registered, whatever other clients connect and disconnect.
\<close>

theorem tcp_client_kept:
  assumes "tcp_inv l" and "fd \<in> set (connected l)" and "Delete fd \<notin> set ops"
  shows "wp (block (map (perform tcp_add tcp_remove) ops)) (\<lambda>_ l'. fd \<in> set (connected l'))
    (\<lambda>_. False) l"
  using assms by (intro tcp.kept_until_deleted) auto

theorem tcp_client_kept_witness:
  "wp (block (map (perform tcp_add tcp_remove) [Insert 8, Delete 5, Delete 8, Insert 9]))
     (\<lambda>_ l'. 7 \<in> set (connected l')) (\<lambda>_. False)
     \<lparr>client_fds = [5, 7, 0, 0, 0], num_clients = 2\<rparr>"
  by (rule tcp_client_kept) (simp_all add: tcp_inv_def connected_def MAX_CLIENTS_def)

end
