(* ===== verification/Net.thy ===== *)
theory Net
  imports Prelude "HOL-Library.Word"
begin

text \<open>
  Socket addresses and their text form. A \<open>sockaddr_storage\<close> holds the address of one of the
  two internet families, or of another family; the code reads it through the structures of
  both families, so the fields of \<open>sockaddr_in\<close> are also defined on the other variants, as
  the bytes found at the same offsets: in a \<open>sockaddr_in6\<close> the port is at the offset of
  \<open>sin_port\<close> and the flow label at the offset of \<open>sin_addr\<close>.
\<close>

type_synonym bytes = "8 word list"

datatype sockaddr =
    Sockaddr_in "16 word" bytes               \<comment> \<open>port, address\<close>
  | Sockaddr_in6 "16 word" bytes bytes        \<comment> \<open>port, flow information, address\<close>
  | Sockaddr_other nat "16 word" bytes bytes  \<comment> \<open>family, the bytes at 2..3, 4..7 and 8..23\<close>

fun sin_port :: "sockaddr \<Rightarrow> 16 word" where
  "sin_port (Sockaddr_in p _) = p"
| "sin_port (Sockaddr_in6 p _ _) = p"
| "sin_port (Sockaddr_other _ p _ _) = p"

fun sin_addr :: "sockaddr \<Rightarrow> bytes" where
  "sin_addr (Sockaddr_in _ a) = a"
| "sin_addr (Sockaddr_in6 _ flow _) = flow"
| "sin_addr (Sockaddr_other _ _ a _) = a"

fun sin6_addr :: "sockaddr \<Rightarrow> bytes option" where
  "sin6_addr (Sockaddr_in _ _) = None"
| "sin6_addr (Sockaddr_in6 _ _ a) = Some a"
| "sin6_addr (Sockaddr_other _ _ _ a) = Some a"

fun sockaddr_ok :: "sockaddr \<Rightarrow> bool" where
  "sockaddr_ok (Sockaddr_in _ a) \<longleftrightarrow> length a = 4"
| "sockaddr_ok (Sockaddr_in6 _ flow a) \<longleftrightarrow> length flow = 4 \<and> length a = 16"
| "sockaddr_ok (Sockaddr_other _ _ a6 a) \<longleftrightarrow> length a6 = 4 \<and> length a = 16"

definition INET_ADDRSTRLEN :: nat where "INET_ADDRSTRLEN = 16"
definition INET6_ADDRSTRLEN :: nat where "INET6_ADDRSTRLEN = 46"

section \<open>Text form\<close>

definition dotted :: "bytes \<Rightarrow> string" where
  "dotted a = concat (map (\<lambda>i. (if i = 0 then '''' else ''.'') @ show_nat (unat (a ! i))) [0..<4])"

definition hex_digit_char :: "nat \<Rightarrow> char" where
  "hex_digit_char d = char_of (if d < 10 then 48 + d else 87 + d)"

fun show_hex :: "nat \<Rightarrow> string" where
  "show_hex n = (if n < 16 then [hex_digit_char n]
                 else show_hex (n div 16) @ [hex_digit_char (n mod 16)])"

declare show_hex.simps [simp del]

text \<open>The groups of an IPv6 address, and the first longest run of zero groups as its start and
  length; runs of one group are not abbreviated.\<close>

definition groups :: "bytes \<Rightarrow> nat list" where
  "groups a = map (\<lambda>i. unat (a ! (2 * i)) * 256 + unat (a ! (2 * i + 1))) [0..<8]"

definition zero_run :: "nat list \<Rightarrow> nat \<Rightarrow> nat" where
  "zero_run ws i = length (takeWhile (\<lambda>w. w = 0) (drop i ws))"

definition longest_run :: "nat list \<Rightarrow> nat \<times> nat" where
  "longest_run ws =
     foldl (\<lambda>(b, l) i. if l < zero_run ws i then (i, zero_run ws i) else (b, l)) (0, 0)
       [0..<length ws]"

definition group_text :: "nat list \<Rightarrow> nat \<Rightarrow> nat \<Rightarrow> nat \<Rightarrow> string" where
  "group_text ws b l i =
     (if 2 \<le> l \<and> b \<le> i \<and> i < b + l then (if i = b then '':'' else '''')
      else (if i \<noteq> 0 then '':'' else '''') @ show_hex (ws ! i))"

definition colon_hex :: "bytes \<Rightarrow> string" where
  "colon_hex a =
     (let ws = groups a; (b, l) = longest_run ws in
      if 2 \<le> l \<and> b = 0 \<and> (l = 6 \<or> l = 5 \<and> ws ! 5 = 65535)
      then concat (map (group_text ws b l) [0..<6]) @ '':'' @ dotted (drop 12 a)
      else concat (map (group_text ws b l) [0..<8]) @
           (if 2 \<le> l \<and> b + l = 8 then '':'' else ''''))"

text \<open>\<open>inet_ntop\<close> fails, leaving the buffer as it was, when the text and its terminator do not
  fit.\<close>

definition inet_ntop4 :: "bytes \<Rightarrow> nat \<Rightarrow> string option" where
  "inet_ntop4 a n = (if length (dotted a) < n then Some (dotted a) else None)"

definition inet_ntop6 :: "bytes \<Rightarrow> nat \<Rightarrow> string option" where
  "inet_ntop6 a n = (if length (colon_hex a) < n then Some (colon_hex a) else None)"

definition IN6_IS_ADDR_V4MAPPED :: "bytes \<Rightarrow> bool" where
  "IN6_IS_ADDR_V4MAPPED a \<longleftrightarrow> take 12 a = replicate 10 0 @ [255, 255]"

section \<open>The text always fits\<close>

lemma unat_byte: "unat (w :: 8 word) < 256"
  using unsigned_less [of w] by simp

lemma length_dotted: "length (dotted a) \<le> 15"
proof -
  have "length (show_nat (unat w)) \<le> 3" for w :: "8 word"
    using length_show_nat [of "unat w" 3] unat_byte [of w] by simp
  then have le: "length (show_nat (unat (a ! i))) \<le> 3" for i by blast
  have "[0..<4] = [0, 1, 2, 3 :: nat]" by (simp add: upt_rec)
  then show ?thesis using le [of 0] le [of 1] le [of 2] le [of 3]
    by (simp add: dotted_def)
qed

lemma length_show_hex: "n < 16 ^ k \<Longrightarrow> 0 < k \<Longrightarrow> length (show_hex n) \<le> k"
proof (induction k arbitrary: n)
  case 0
  then show ?case by simp
next
  case (Suc k)
  show ?case
  proof (cases "n < 16")
    case True
    then show ?thesis by (subst show_hex.simps) simp
  next
    case False
    with Suc.prems have "k \<noteq> 0" by (cases k) auto
    moreover have "n div 16 < 16 ^ k" using Suc.prems(1) by (simp add: less_mult_imp_div_less)
    ultimately have "length (show_hex (n div 16)) \<le> k" using Suc.IH by blast
    then show ?thesis using False by (subst show_hex.simps) simp
  qed
qed

lemma length_group_text:
  assumes "i < 8"
  shows "length (group_text (groups a) b l i) \<le> 5"
proof -
  let ?w = "unat (a ! (2 * i)) * 256 + unat (a ! (2 * i + 1))"
  have "?w < 16 ^ 4"
    using unat_byte [of "a ! (2 * i)"] unat_byte [of "a ! (2 * i + 1)"] by simp
  moreover have "groups a ! i = ?w" using assms by (simp add: groups_def)
  ultimately have "length (show_hex (groups a ! i)) \<le> 4" using length_show_hex [of _ 4] by simp
  then show ?thesis by (auto simp: group_text_def)
qed

lemma length_colon_hex: "length (colon_hex a) \<le> 45"
proof -
  obtain b l where run: "longest_run (groups a) = (b, l)" by (cases "longest_run (groups a)")
  let ?g = "group_text (groups a) b l"
  have g: "length (?g i) \<le> 5" if "i < 8" for i using length_group_text that by blast
  show ?thesis
  proof (cases "2 \<le> l \<and> b = 0 \<and> (l = 6 \<or> l = 5 \<and> groups a ! 5 = 65535)")
    case True
    then have "length (?g 0) = 1" "\<forall>i \<in> {1, 2, 3, 4}. ?g i = ''''"
      by (auto simp: group_text_def)
    moreover have "[0..<6] = [0, 1, 2, 3, 4, 5 :: nat]" by (simp add: upt_rec)
    ultimately have "length (concat (map ?g [0..<6])) \<le> 6" using g [of 5] by simp
    then show ?thesis using True length_dotted [of "drop 12 a"]
      by (simp add: colon_hex_def run)
  next
    case False
    have "[0..<8] = [0, 1, 2, 3, 4, 5, 6, 7 :: nat]" by (simp add: upt_rec)
    then have "length (concat (map ?g [0..<8])) \<le> 40"
      using g [of 0] g [of 1] g [of 2] g [of 3] g [of 4] g [of 5] g [of 6] g [of 7] by simp
    moreover have "colon_hex a = concat (map ?g [0..<8]) @ (if 2 \<le> l \<and> b + l = 8 then '':'' else '''')"
      unfolding colon_hex_def Let_def run prod.case if_not_P [OF False] by (rule refl)
    ultimately show ?thesis by simp
  qed
qed

lemma inet_ntop_fits [simp]:
  "16 \<le> n \<Longrightarrow> inet_ntop4 a n = Some (dotted a)"
  "46 \<le> n \<Longrightarrow> inet_ntop6 a n = Some (colon_hex a)"
  using length_dotted [of a] length_colon_hex [of a]
  by (simp_all add: inet_ntop4_def inet_ntop6_def)

lemma c_string_dotted [simp]: "c_string (dotted a)"
  by (auto simp: dotted_def c_string_def c_string_show_nat [unfolded c_string_def])

lemma c_string_show_hex [simp]: "c_string (show_hex n)"
proof (induction n rule: show_hex.induct)
  case (1 n)
  have digit: "hex_digit_char d \<noteq> NUL" if "d < 16" for d
    using that by (simp add: hex_digit_char_def flip: byte_inject) (simp add: byte_def)
  show ?case using 1 digit by (subst show_hex.simps) auto
qed

lemma c_string_concat: "(\<And>s. s \<in> set ss \<Longrightarrow> c_string s) \<Longrightarrow> c_string (concat ss)"
  by (induction ss) auto

lemma c_string_colon_hex [simp]: "c_string (colon_hex a)"
  by (auto simp: colon_hex_def group_text_def Let_def intro!: c_string_concat split: prod.splits)

end
