(* ===== verification/UdpClients.thy ===== *)
theory UdpClients
  imports TcpClients Net
begin

text \<open>
  The list of known UDP clients (\<open>UDPClientList\<close>, \<open>add_udp_client\<close> and
  \<open>remove_udp_client\<close> in \<open>server.c\<close>). A client is refused when one with the same address and
  port is known, both read as the fields of a \<open>sockaddr_in\<close>.
\<close>

datatype AddressFamily = IPv4 | IPv6

text \<open>The field \<open>family\<close> is never written by the code: \<open>None\<close> is its indeterminate value.\<close>

record UDPClientData =
  sockfd :: int
  client_addr :: sockaddr
  addr_len :: nat
  family :: "AddressFamily option"

record UDPClientList =
  clients :: "UDPClientData list"
  num_udp_clients :: nat

definition on_clients :: "(UDPClientData list, 'a) prog \<Rightarrow> (UDPClientList, 'a) prog" where
  "on_clients = zoom clients (\<lambda>a l. l\<lparr>clients := a\<rparr>)"

definition same_peer :: "UDPClientData \<Rightarrow> UDPClientData \<Rightarrow> bool" where
  "same_peer existing new \<longleftrightarrow>
     sin_addr (client_addr existing) = sin_addr (client_addr new) \<and>
     sin_port (client_addr existing) = sin_port (client_addr new)"

definition udp_add :: "UDPClientData \<Rightarrow> (UDPClientList, bool) prog" where
  "udp_add client =
     andthen (gets num_udp_clients) (\<lambda>n.
     andthen (on_clients (find_slot (\<lambda>c. same_peer c client) n 0)) (\<lambda>known.
     if known \<noteq> None then ret False
     else if n < MAX_CLIENTS then
       andthen (on_clients (write_at n client)) (\<lambda>_.
       andthen (modify (\<lambda>l. l\<lparr>num_udp_clients := n + 1\<rparr>)) (\<lambda>_. ret True))
     else ret False))"

definition remove_udp_client :: "int \<Rightarrow> (UDPClientList, bool) prog" where
  "remove_udp_client fd =
     andthen (gets num_udp_clients) (\<lambda>n.
     andthen (on_clients (close_gap (\<lambda>c. sockfd c = fd) n)) (\<lambda>found.
     if found then andthen (modify (\<lambda>l. l\<lparr>num_udp_clients := n - 1\<rparr>)) (\<lambda>_. ret True)
     else ret False))"

section \<open>The list implements a bounded registry\<close>

definition udp_inv :: "UDPClientList \<Rightarrow> bool" where
  "udp_inv l \<longleftrightarrow> length (clients l) = MAX_CLIENTS \<and> num_udp_clients l \<le> MAX_CLIENTS"

definition known :: "UDPClientList \<Rightarrow> UDPClientData list" where
  "known l = take (num_udp_clients l) (clients l)"

lemma udp_add_ok:
  assumes "udp_inv l"
  shows "wp (udp_add c) (\<lambda>done l'. udp_inv l' \<and>
      done = ((\<forall>x \<in> set (known l). \<not> same_peer x c) \<and> length (known l) < MAX_CLIENTS) \<and>
      known l' = (if (\<forall>x \<in> set (known l). \<not> same_peer x c) \<and> length (known l) < MAX_CLIENTS
                  then known l @ [c] else known l))
    (\<lambda>_. False) l"
proof -
  let ?n = "num_udp_clients l" and ?a = "clients l"
  have "length (known l) = ?n" using assms by (simp add: udp_inv_def known_def)
  then have "find_slot (\<lambda>x. same_peer x c) ?n 0 ?a = Inr (None, ?a) \<and> (\<forall>x \<in> set (known l). \<not> same_peer x c)
      \<or> (\<exists>i. find_slot (\<lambda>x. same_peer x c) ?n 0 ?a = Inr (Some i, ?a)) \<and> (\<exists>x \<in> set (known l). same_peer x c)"
    using find_slot_result [of 0 ?n ?a "\<lambda>x. same_peer x c"] assms
      find_zip_None [of "\<lambda>x. same_peer x c" 0 "known l"]
    by (cases "find (\<lambda>(j, x). same_peer x c) (zip [0..<?n] (known l))")
      (auto simp: udp_inv_def known_def)
  then show ?thesis using assms
    by (auto simp: udp_add_def on_clients_def wp_def run write_at_def udp_inv_def known_def
        take_Suc_conv_app_nth)
qed

lemma remove_udp_ok:
  assumes "udp_inv l"
  shows "wp (remove_udp_client fd) (\<lambda>done l'. udp_inv l' \<and> done = (\<exists>x \<in> set (known l). sockfd x = fd) \<and>
      known l' = remove_first (\<lambda>c. sockfd c = fd) (known l)) (\<lambda>_. False) l"
  using assms close_gap_ok [of "num_udp_clients l" "clients l" "\<lambda>c. sockfd c = fd"]
  by (auto simp: remove_udp_client_def on_clients_def udp_inv_def known_def
      elim!: wp_mono split: if_splits)

interpretation udp: bounded_registry udp_inv known MAX_CLIENTS udp_add remove_udp_client
  same_peer "\<lambda>k x. sockfd x = k"
proof
  fix r e k
  assume inv: "udp_inv r"
  then show "length (known r) \<le> MAX_CLIENTS" by (simp add: udp_inv_def known_def)
  show "wp (udp_add e) (\<lambda>done r'. udp_inv r' \<and>
      done = ((\<forall>x \<in> set (known r). \<not> same_peer x e) \<and> length (known r) < MAX_CLIENTS) \<and>
      known r' = registry_spec MAX_CLIENTS same_peer (\<lambda>k x. sockfd x = k) (Insert e) (known r))
    (\<lambda>_. False) r"
    by (rule wp_mono [OF udp_add_ok [OF inv]]) auto
  show "wp (remove_udp_client k) (\<lambda>done r'. udp_inv r' \<and> done = (\<exists>x \<in> set (known r). sockfd x = k) \<and>
      known r' = registry_spec MAX_CLIENTS same_peer (\<lambda>k x. sockfd x = k) (Delete k) (known r))
    (\<lambda>_. False) r"
    by (rule wp_mono [OF remove_udp_ok [OF inv]]) auto
qed

text \<open>
  C19: whatever clients are added and removed, the list of UDP clients stays within its array
  and never holds two clients that agree on address and port.
\<close>

theorem udp_registry_no_duplicates:
  assumes "udp_inv l" and "sorted_wrt (\<lambda>x y. \<not> same_peer x y) (known l)"
  shows "wp (block (map (perform udp_add remove_udp_client) ops))
    (\<lambda>_ l'. length (known l') \<le> MAX_CLIENTS \<and> sorted_wrt (\<lambda>x y. \<not> same_peer x y) (known l'))
    (\<lambda>_. False) l"
  by (rule udp.never_refused_pair [OF assms])

theorem udp_registry_no_duplicates_witness:
  "wp (block (map (perform udp_add remove_udp_client)
       [Insert \<lparr>sockfd = 4, client_addr = Sockaddr_in 5 [127, 0, 0, 1], addr_len = 16, family = None\<rparr>,
        Delete 4]))
    (\<lambda>_ l'. length (known l') \<le> MAX_CLIENTS \<and> sorted_wrt (\<lambda>x y. \<not> same_peer x y) (known l'))
    (\<lambda>_. False)
    \<lparr>clients = replicate 5 \<lparr>sockfd = 4, client_addr = Sockaddr_in 5 [127, 0, 0, 1],
                            addr_len = 16, family = None\<rparr>, num_udp_clients = 1\<rparr>"
  by (rule udp_registry_no_duplicates)
    (simp_all add: udp_inv_def known_def MAX_CLIENTS_def)

text \<open>
  C20: over the server's IPv6 socket the test does not look at the address: a client whose port
  is the port of a known client, both without a flow label, is not added even when the two
  addresses differ.
\<close>

theorem udp_ipv6_conflated:
  assumes "udp_inv l" and "c \<in> set (known l)"
    and "client_addr c = Sockaddr_in6 port [0, 0, 0, 0] addr"
  shows "wp (udp_add \<lparr>sockfd = fd, client_addr = Sockaddr_in6 port [0, 0, 0, 0] addr',
                      addr_len = 28, family = None\<rparr>)
    (\<lambda>added l'. \<not> added \<and> known l' = known l) (\<lambda>_. False) l"
  by (rule wp_mono [OF udp_add_ok [OF assms(1)]]) (use assms(2,3) in \<open>force simp: same_peer_def\<close>)+

theorem udp_ipv6_conflated_witness:
  "wp (udp_add \<lparr>sockfd = 4, client_addr = Sockaddr_in6 9 [0, 0, 0, 0] (replicate 16 2),
               addr_len = 28, family = None\<rparr>)
    (\<lambda>added l'. \<not> added \<and> known l' =
       [\<lparr>sockfd = 4, client_addr = Sockaddr_in6 9 [0, 0, 0, 0] (replicate 16 1),
         addr_len = 28, family = None\<rparr>]) (\<lambda>_. False)
    \<lparr>clients = replicate 5 \<lparr>sockfd = 4, client_addr = Sockaddr_in6 9 [0, 0, 0, 0] (replicate 16 1),
                            addr_len = 28, family = None\<rparr>, num_udp_clients = 1\<rparr>"
  by (rule wp_mono [OF udp_ipv6_conflated [where addr = "replicate 16 1"]])
    (auto simp: udp_inv_def known_def MAX_CLIENTS_def)

end
