(* ===== verification/CJsonParse.thy ===== *)
theory CJsonParse
  imports CJson "HOL-Library.Word"
begin

text \<open>
  The parser of \<open>lib/cJSON/src/cJSON.c\<close>. The state is the parse buffer; every access to its
  content goes through \<open>byte_at\<close>, which faults outside the content, and every byte written
  to the string a literal is decoded into is checked against the size that was allocated.
  \<open>None\<close> is the result \<open>false\<close> of the C functions.

  \<open>CJSON_NESTING_LIMIT\<close> is defined in a header outside the repository and is the argument
  \<open>limit\<close>. The recursion of \<open>parse_value\<close> takes fuel; \<open>cJSON_ParseWithLengthOpts\<close>
  gives it one unit for each byte, which is proved to be enough.
\<close>

unbundle bit_operations_syntax

section \<open>The parse buffer\<close>

text \<open>The length of the buffer is the length of \<open>content\<close>.\<close>

record parse_buffer =
  content :: string
  offset :: nat
  depth :: nat
  hooks :: "bool list"

type_synonym 'a parsem = "(parse_buffer, 'a) prog"

definition byte_at :: "nat \<Rightarrow> char parsem" where
  "byte_at i b =
     (if i < length (content b) then Inr (content b ! i, b) else Inl (Fault Out_of_bounds))"

definition can_read :: "nat \<Rightarrow> parse_buffer \<Rightarrow> bool" where
  "can_read n b \<longleftrightarrow> offset b + n \<le> length (content b)"

definition can_access_at_index :: "nat \<Rightarrow> parse_buffer \<Rightarrow> bool" where
  "can_access_at_index i b \<longleftrightarrow> offset b + i < length (content b)"

definition looking_at :: "char \<Rightarrow> parse_buffer \<Rightarrow> bool" where
  "looking_at c b \<longleftrightarrow> can_access_at_index 0 b \<and> content b ! offset b = c"

definition starts_with :: "string \<Rightarrow> parse_buffer \<Rightarrow> bool" where
  "starts_with lit b \<longleftrightarrow>
     can_read (length lit) b \<and> take (length lit) (drop (offset b) (content b)) = lit"

definition advance :: "nat \<Rightarrow> unit parsem" where
  "advance n = modify (\<lambda>b. b\<lparr>offset := offset b + n\<rparr>)"

definition retreat :: "nat \<Rightarrow> unit parsem" where
  "retreat n = modify (\<lambda>b. b\<lparr>offset := offset b - n\<rparr>)"

definition pb_alloc :: "'a heapm \<Rightarrow> 'a parsem" where
  "pb_alloc = zoom hooks (\<lambda>h b. b\<lparr>hooks := h\<rparr>)"

definition buffer_skip_whitespace :: "unit parsem" where
  "buffer_skip_whitespace =
     modify (\<lambda>b.
       if \<not> can_access_at_index 0 b then b
       else
         let n = offset b +
               length (takeWhile (\<lambda>c. byte c \<le> 32) (drop (offset b) (content b)))
         in b\<lparr>offset := if n = length (content b) then n - 1 else n\<rparr>)"

definition skip_utf8_bom :: "unit parsem" where
  "skip_utf8_bom =
     modify (\<lambda>b.
       if can_access_at_index 4 b \<and>
          take 3 (drop (offset b) (content b)) = [CHR 0xEF, CHR 0xBB, CHR 0xBF]
       then b\<lparr>offset := offset b + 3\<rparr> else b)"

section \<open>Numbers\<close>

definition number_char :: "char \<Rightarrow> bool" where
  "number_char c \<longleftrightarrow>
     is_digit c \<or> c = CHR ''+'' \<or> c = CHR ''-'' \<or> c = CHR ''e'' \<or> c = CHR ''E'' \<or> c = CHR ''.''"

text \<open>The 64-byte buffer of \<open>parse_number\<close> keeps one byte for the terminator.\<close>

definition number_c_string :: "parse_buffer \<Rightarrow> string" where
  "number_c_string b = takeWhile number_char (take 63 (drop (offset b) (content b)))"

definition parse_number :: "cJSON \<Rightarrow> cJSON option parsem" where
  "parse_number item =
     andthen (gets (\<lambda>b. strtod (number_c_string b))) (\<lambda>(number, used).
     if used = 0 then ret None
     else
       andthen (lift (saturate number)) (\<lambda>vi.
       andthen (advance used) (\<lambda>_.
       ret (Some (set_kind cJSON_Number (set_valueint vi (set_valuedouble number item)))))))"

section \<open>Strings\<close>

definition hex_digit :: "char \<Rightarrow> nat option" where
  "hex_digit c =
     (let b = byte c in
      if 48 \<le> b \<and> b \<le> 57 then Some (b - 48)
      else if 65 \<le> b \<and> b \<le> 70 then Some (10 + b - 65)
      else if 97 \<le> b \<and> b \<le> 102 then Some (10 + b - 97)
      else None)"

text \<open>\<open>parse_hex4\<close>: \<open>k\<close> digits are still to be read from position \<open>p\<close>.\<close>

fun hex4_loop :: "nat \<Rightarrow> nat \<Rightarrow> nat \<Rightarrow> nat parsem" where
  "hex4_loop 0 p h = ret h"
| "hex4_loop (Suc k) p h =
     andthen (byte_at p) (\<lambda>c.
     case hex_digit c of
       None \<Rightarrow> ret 0
     | Some d \<Rightarrow> hex4_loop k (p + 1) (if k = 0 then h + d else push_bit 4 (h + d)))"

definition parse_hex4 :: "nat \<Rightarrow> nat parsem" where
  "parse_hex4 p = hex4_loop 4 p 0"

text \<open>The continuation bytes, from the last to the second, then the first byte.\<close>

fun utf8_tail :: "nat \<Rightarrow> nat \<Rightarrow> string \<Rightarrow> nat \<times> string" where
  "utf8_tail 0 codepoint bytes = (codepoint, bytes)"
| "utf8_tail (Suc n) codepoint bytes =
     utf8_tail n (drop_bit 6 codepoint) (char_of ((codepoint OR 128) AND 191) # bytes)"

definition encode_codepoint :: "nat \<Rightarrow> string option" where
  "encode_codepoint codepoint =
     (if codepoint < 0x80 then Some [char_of (codepoint AND 0x7F)]
      else
        let lm = (if codepoint < 0x800 then Some (2, 0xC0)
                  else if codepoint < 0x10000 then Some (3, 0xE0)
                  else if codepoint \<le> 0x10FFFF then Some (4, 0xF0)
                  else None)
        in case lm of
             None \<Rightarrow> None
           | Some (utf8_length, first_byte_mark) \<Rightarrow>
               (let (cp, bytes) = utf8_tail (utf8_length - 1) codepoint []
                in Some (char_of ((cp OR first_byte_mark) AND 0xFF) # bytes)))"

text \<open>The literal at \<open>ip\<close>: how many input bytes it takes (0: failure) and its UTF-8 bytes.\<close>

definition utf16_literal_to_utf8 :: "nat \<Rightarrow> nat \<Rightarrow> (nat \<times> string) parsem" where
  "utf16_literal_to_utf8 ip input_end =
     (if int input_end - int ip < 6 then ret (0, [])
      else
        andthen (parse_hex4 (ip + 2)) (\<lambda>first_code.
        if 0xDC00 \<le> first_code \<and> first_code \<le> 0xDFFF then ret (0, [])
        else if 0xD800 \<le> first_code \<and> first_code \<le> 0xDBFF then
          if int input_end - int (ip + 6) < 6 then ret (0, [])
          else
            andthen (byte_at (ip + 6)) (\<lambda>c0.
            andthen (byte_at (ip + 7)) (\<lambda>c1.
            if c0 \<noteq> CHR 0x5C \<or> c1 \<noteq> CHR ''u'' then ret (0, [])
            else
              andthen (parse_hex4 (ip + 8)) (\<lambda>second_code.
              if second_code < 0xDC00 \<or> second_code > 0xDFFF then ret (0, [])
              else
                let codepoint =
                  0x10000 + (push_bit 10 (first_code AND 0x3FF) OR (second_code AND 0x3FF))
                in ret (case encode_codepoint codepoint of
                          None \<Rightarrow> (0, []) | Some bytes \<Rightarrow> (12, bytes)))))
        else
          ret (case encode_codepoint first_code of
                 None \<Rightarrow> (0, []) | Some bytes \<Rightarrow> (6, bytes))))"

text \<open>
  The first loop of \<open>parse_string\<close>: the position of the closing quote and the number of
  escape sequences before it.
\<close>

function scan_string :: "string \<Rightarrow> nat \<Rightarrow> nat \<Rightarrow> (nat \<times> nat) option" where
  "scan_string s i skipped =
     (if i < length s \<and> s ! i \<noteq> CHR 0x22 then
        if s ! i = CHR 0x5C then
          if length s \<le> i + 1 then None else scan_string s (i + 2) (skipped + 1)
        else scan_string s (i + 1) skipped
      else if length s \<le> i then None else Some (i, skipped))"
  by pat_completeness auto
termination by (relation "measure (\<lambda>(s, i, _). length s - i)") auto

declare scan_string.simps [simp del]

definition simple_escape :: "char \<Rightarrow> char option" where
  "simple_escape c =
     (if c = CHR ''b'' then Some (CHR 0x08)
      else if c = CHR ''f'' then Some (CHR 0x0C)
      else if c = CHR ''n'' then Some (CHR 0x0A)
      else if c = CHR ''r'' then Some (CHR 0x0D)
      else if c = CHR ''t'' then Some (CHR 0x09)
      else if c = CHR 0x22 \<or> c = CHR 0x5C \<or> c = CHR ''/'' then Some c
      else None)"

text \<open>A write of \<open>bytes\<close> at the end of the output, of which \<open>cap\<close> bytes are allocated.\<close>

definition write_out :: "nat \<Rightarrow> string \<Rightarrow> string \<Rightarrow> string parsem" where
  "write_out cap out bytes =
     (if length out + length bytes \<le> cap then ret (out @ bytes) else fault Out_of_bounds)"

text \<open>The second loop: \<open>Inl ip\<close> is the failure with \<open>input_pointer\<close> at \<open>ip\<close>.\<close>

function decode_string :: "nat \<Rightarrow> nat \<Rightarrow> nat \<Rightarrow> string \<Rightarrow> (nat + string) parsem" where
  "decode_string input_end cap ip out =
     (if ip < input_end then
        andthen (byte_at ip) (\<lambda>c.
        if c \<noteq> CHR 0x5C then
          andthen (write_out cap out [c]) (\<lambda>out'. decode_string input_end cap (ip + 1) out')
        else
          andthen (byte_at (ip + 1)) (\<lambda>e.
          case simple_escape e of
            Some x \<Rightarrow>
              andthen (write_out cap out [x]) (\<lambda>out'. decode_string input_end cap (ip + 2) out')
          | None \<Rightarrow>
              if e = CHR ''u'' then
                andthen (utf16_literal_to_utf8 ip input_end) (\<lambda>(sequence_length, bytes).
                if sequence_length = 0 then ret (Inl ip)
                else
                  andthen (write_out cap out bytes) (\<lambda>out'.
                  decode_string input_end cap (ip + sequence_length) out'))
              else ret (Inl ip)))
      else
        andthen (write_out cap out [NUL]) (\<lambda>_. ret (Inr out)))"
  by pat_completeness auto
termination by (relation "measure (\<lambda>(e, _, ip, _). e - ip)") auto

declare decode_string.simps [simp del]

definition string_fail :: "nat \<Rightarrow> cJSON option parsem" where
  "string_fail ip = andthen (modify (\<lambda>b. b\<lparr>offset := ip\<rparr>)) (\<lambda>_. ret None)"

definition parse_string :: "cJSON \<Rightarrow> cJSON option parsem" where
  "parse_string item =
     andthen (gets offset) (\<lambda>start.
     andthen (byte_at start) (\<lambda>q.
     if q \<noteq> CHR 0x22 then string_fail (start + 1)
     else
       andthen (gets (\<lambda>b. scan_string (content b) (start + 1) 0)) (\<lambda>scan.
       case scan of
         None \<Rightarrow> string_fail (start + 1)
       | Some (input_end, skipped_bytes) \<Rightarrow>
           let allocation_length = input_end - start - skipped_bytes in
           andthen (pb_alloc alloc) (\<lambda>ok.
           if \<not> ok then string_fail (start + 1)
           else
             andthen (decode_string input_end (allocation_length + 1) (start + 1) []) (\<lambda>r.
             case r of
               Inl ip \<Rightarrow> string_fail ip
             | Inr output \<Rightarrow>
                 andthen (modify (\<lambda>b. b\<lparr>offset := input_end + 1\<rparr>)) (\<lambda>_.
                 ret (Some (set_kind cJSON_String
                   (set_valuestring (Some (upto_nul output)) item)))))))))"

section \<open>Values, arrays and objects\<close>

definition enter :: "unit parsem" where
  "enter = modify (\<lambda>b. b\<lparr>depth := depth b + 1\<rparr>)"

text \<open>The label \<open>success\<close> of \<open>parse_array\<close> and \<open>parse_object\<close>.\<close>

definition finish :: "kind \<Rightarrow> cJSON \<Rightarrow> cJSON list \<Rightarrow> cJSON option parsem" where
  "finish k item items =
     andthen (modify (\<lambda>b. b\<lparr>depth := depth b - 1\<rparr>)) (\<lambda>_.
     andthen (advance 1) (\<lambda>_.
     ret (Some (set_kind k (set_child items item)))))"

text \<open>After the loop: the closing bracket must follow.\<close>

definition close_items :: "kind \<Rightarrow> char \<Rightarrow> cJSON \<Rightarrow> cJSON list option \<Rightarrow> cJSON option parsem" where
  "close_items k c item r =
     (case r of
        None \<Rightarrow> ret None
      | Some items \<Rightarrow>
          andthen (gets (looking_at c)) (\<lambda>closed.
          if closed then finish k item items else ret None))"

text \<open>What both functions do from the opening bracket on; \<open>items\<close> is the loop.\<close>

definition bracketed ::
    "kind \<Rightarrow> char \<Rightarrow> cJSON \<Rightarrow> cJSON list option parsem \<Rightarrow> cJSON option parsem" where
  "bracketed k close item items =
     andthen (advance 1) (\<lambda>_.
     andthen buffer_skip_whitespace (\<lambda>_.
     andthen (gets id) (\<lambda>b.
     if looking_at close b then finish k item []
     else if \<not> can_access_at_index 0 b then andthen (retreat 1) (\<lambda>_. ret None)
     else
       andthen (retreat 1) (\<lambda>_.
       andthen items (\<lambda>r. close_items k close item r)))))"

text \<open>What both loops do after a value: a comma starts another round.\<close>

definition more_items :: "(cJSON list \<Rightarrow> cJSON list option parsem) \<Rightarrow> cJSON list \<Rightarrow>
    cJSON option \<Rightarrow> cJSON list option parsem" where
  "more_items loop items r =
     (case r of
        None \<Rightarrow> ret None
      | Some parsed \<Rightarrow>
          andthen buffer_skip_whitespace (\<lambda>_.
          andthen (gets (looking_at (CHR '',''))) (\<lambda>more.
          if more then loop (items @ [parsed]) else ret (Some (items @ [parsed])))))"

text \<open>
  The two functions are given the recursive call as \<open>value_parser\<close>, and their loops the
  number of rounds they may take.
\<close>

primrec parse_elements ::
    "nat \<Rightarrow> (cJSON \<Rightarrow> cJSON option parsem) \<Rightarrow> cJSON list \<Rightarrow> cJSON list option parsem" where
  "parse_elements 0 value_parser items = halt Out_of_fuel"
| "parse_elements (Suc rounds) value_parser items =
     andthen (pb_alloc cJSON_New_Item) (\<lambda>new_item.
     case new_item of
       None \<Rightarrow> ret None
     | Some current_item \<Rightarrow>
         andthen (advance 1) (\<lambda>_.
         andthen buffer_skip_whitespace (\<lambda>_.
         andthen (value_parser current_item)
           (more_items (parse_elements rounds value_parser) items))))"

definition parse_array ::
    "nat \<Rightarrow> nat \<Rightarrow> (cJSON \<Rightarrow> cJSON option parsem) \<Rightarrow> cJSON \<Rightarrow> cJSON option parsem" where
  "parse_array rounds limit value_parser item =
     andthen (gets depth) (\<lambda>d.
     if limit \<le> d then ret None
     else
       andthen enter (\<lambda>_.
       andthen (gets offset) (\<lambda>start.
       andthen (byte_at start) (\<lambda>c.
       if c \<noteq> CHR ''['' then ret None
       else
         bracketed cJSON_Array (CHR '']'') item (parse_elements rounds value_parser [])))))"

text \<open>The name of a member is parsed as its value string and then moved to its name.\<close>

definition take_name :: "cJSON \<Rightarrow> cJSON" where
  "take_name it = set_valuestring None (set_name (string_is_const it) (valuestring it) it)"

primrec parse_members ::
    "nat \<Rightarrow> (cJSON \<Rightarrow> cJSON option parsem) \<Rightarrow> cJSON list \<Rightarrow> cJSON list option parsem" where
  "parse_members 0 value_parser items = halt Out_of_fuel"
| "parse_members (Suc rounds) value_parser items =
     andthen (pb_alloc cJSON_New_Item) (\<lambda>new_item.
     case new_item of
       None \<Rightarrow> ret None
     | Some current_item \<Rightarrow>
         andthen (advance 1) (\<lambda>_.
         andthen buffer_skip_whitespace (\<lambda>_.
         andthen (parse_string current_item) (\<lambda>r.
         case r of
           None \<Rightarrow> ret None
         | Some named \<Rightarrow>
             andthen buffer_skip_whitespace (\<lambda>_.
             andthen (gets (looking_at (CHR '':''))) (\<lambda>colon.
             if \<not> colon then ret None
             else
               andthen (advance 1) (\<lambda>_.
               andthen buffer_skip_whitespace (\<lambda>_.
               andthen (value_parser (take_name named))
                 (more_items (parse_members rounds value_parser) items)))))))))"

definition parse_object ::
    "nat \<Rightarrow> nat \<Rightarrow> (cJSON \<Rightarrow> cJSON option parsem) \<Rightarrow> cJSON \<Rightarrow> cJSON option parsem" where
  "parse_object rounds limit value_parser item =
     andthen (gets depth) (\<lambda>d.
     if limit \<le> d then ret None
     else
       andthen enter (\<lambda>_.
       andthen (gets (looking_at (CHR ''{''))) (\<lambda>opened.
       if \<not> opened then ret None
       else
         bracketed cJSON_Object (CHR ''}'') item (parse_members rounds value_parser []))))"

primrec parse_value :: "nat \<Rightarrow> nat \<Rightarrow> cJSON \<Rightarrow> cJSON option parsem" where
  "parse_value 0 limit item = halt Out_of_fuel"
| "parse_value (Suc fuel) limit item =
     andthen (gets id) (\<lambda>b.
     if starts_with ''null'' b then
       andthen (advance 4) (\<lambda>_. ret (Some (set_kind cJSON_NULL item)))
     else if starts_with ''false'' b then
       andthen (advance 5) (\<lambda>_. ret (Some (set_kind cJSON_False item)))
     else if starts_with ''true'' b then
       andthen (advance 4) (\<lambda>_. ret (Some (set_kind cJSON_True (set_valueint 1 item))))
     else if looking_at (CHR 0x22) b then parse_string item
     else if can_access_at_index 0 b \<and>
         (content b ! offset b = CHR ''-'' \<or> is_digit (content b ! offset b)) then
       parse_number item
     else if looking_at (CHR ''['') b then
       parse_array fuel limit (parse_value fuel limit) item
     else if looking_at (CHR ''{'') b then
       parse_object fuel limit (parse_value fuel limit) item
     else ret None)"

section \<open>Entry points\<close>

text \<open>
  The result of a parse: the item or NULL, the position \<open>return_parse_end\<close> is set to, and
  the position \<open>global_error\<close> holds afterwards (\<open>None\<close> after a success).
\<close>

record parse_result =
  parsed_item :: "cJSON option"
  parse_end :: nat
  error_position :: "nat option"

definition parse_failure :: "parse_buffer \<Rightarrow> parse_result" where
  "parse_failure b =
     (let p = if offset b < length (content b) then offset b
              else if 0 < length (content b) then length (content b) - 1 else 0
      in \<lparr>parsed_item = None, parse_end = p, error_position = Some p\<rparr>)"

definition parse_root :: "nat \<Rightarrow> bool \<Rightarrow> cJSON option parsem" where
  "parse_root limit require_null_terminated =
     andthen (pb_alloc cJSON_New_Item) (\<lambda>item.
     case item of
       None \<Rightarrow> ret None
     | Some it \<Rightarrow>
         andthen skip_utf8_bom (\<lambda>_.
         andthen buffer_skip_whitespace (\<lambda>_.
         andthen (gets (\<lambda>b. length (content b))) (\<lambda>fuel.
         andthen (parse_value fuel limit it) (\<lambda>r.
         case r of
           None \<Rightarrow> ret None
         | Some parsed \<Rightarrow>
             if require_null_terminated then
               andthen buffer_skip_whitespace (\<lambda>_.
               andthen (gets (looking_at NUL)) (\<lambda>ended.
               ret (if ended then Some parsed else None)))
             else ret (Some parsed))))))"

text \<open>\<open>value\<close> is the memory the caller passes, \<open>buffer_length\<close> bytes of it being readable.\<close>

definition cJSON_ParseWithLengthOpts ::
    "nat \<Rightarrow> string option \<Rightarrow> bool \<Rightarrow> parse_result heapm" where
  "cJSON_ParseWithLengthOpts limit value require_null_terminated h =
     (case value of
        None \<Rightarrow> Inr (\<lparr>parsed_item = None, parse_end = 0, error_position = None\<rparr>, h)
      | Some v \<Rightarrow>
          let b = \<lparr>content = v, offset = 0, depth = 0, hooks = h\<rparr> in
          if v = [] then Inr (parse_failure b, h)
          else
            (case parse_root limit require_null_terminated b of
               Inl e \<Rightarrow> Inl e
             | Inr (None, b') \<Rightarrow> Inr (parse_failure b', hooks b')
             | Inr (Some it, b') \<Rightarrow>
                 Inr (\<lparr>parsed_item = Some it, parse_end = offset b', error_position = None\<rparr>,
                   hooks b')))"

definition cJSON_ParseWithOpts :: "nat \<Rightarrow> string option \<Rightarrow> bool \<Rightarrow> parse_result heapm" where
  "cJSON_ParseWithOpts limit value require_null_terminated =
     (case value of
        None \<Rightarrow> ret \<lparr>parsed_item = None, parse_end = 0, error_position = None\<rparr>
      | Some s \<Rightarrow> cJSON_ParseWithLengthOpts limit (Some (s @ [NUL])) require_null_terminated)"

definition cJSON_Parse :: "nat \<Rightarrow> string \<Rightarrow> cJSON option heapm" where
  "cJSON_Parse limit value =
     andthen (cJSON_ParseWithOpts limit (Some value) False) (\<lambda>r. ret (parsed_item r))"

end
