(* ===== verification/CJsonParseSafe.thy ===== *)
theory CJsonParseSafe
  imports CJsonParse
begin

text \<open>
  The parser on a NUL-terminated text: no access outside the text, no write outside an
  allocation, no undefined conversion, and an end within the fuel, whatever the bytes of the
  text and whatever allocations fail.

  The invariant \<open>terminated\<close> says that the content ends with a NUL and that the offset is
  inside. The contract \<open>consumes n\<close> of a value parser says that from any such buffer with at
  most \<open>n\<close> bytes left it ends, keeps the content, and moves the offset forward when it
  succeeds.
\<close>

definition terminated :: "parse_buffer \<Rightarrow> bool" where
  "terminated b \<longleftrightarrow> offset b < length (content b) \<and> last (content b) = NUL"

definition moved :: "parse_buffer \<Rightarrow> parse_buffer \<Rightarrow> bool" where
  "moved b b' \<longleftrightarrow> content b' = content b \<and> terminated b' \<and> offset b < offset b'"

definition ended :: "parse_buffer \<Rightarrow> 'a option \<Rightarrow> parse_buffer \<Rightarrow> bool" where
  "ended b r b' \<longleftrightarrow> content b' = content b \<and> (r \<noteq> None \<longrightarrow> moved b b')"

abbreviation total :: "'a parsem \<Rightarrow> ('a \<Rightarrow> parse_buffer \<Rightarrow> bool) \<Rightarrow> parse_buffer \<Rightarrow> bool" where
  "total m Q b \<equiv> wp m Q (\<lambda>_. False) b"

section \<open>Steps that do not fail\<close>

lemma wp_byte_at [simp]:
  "wp (byte_at i) Q E b \<longleftrightarrow>
     (if i < length (content b) then Q (content b ! i) b else E (Fault Out_of_bounds))"
  by (simp add: wp_def byte_at_def)

lemma wp_advance [simp]: "wp (advance n) Q E b = Q () (b\<lparr>offset := offset b + n\<rparr>)"
  by (simp add: advance_def)

lemma wp_retreat [simp]: "wp (retreat n) Q E b = Q () (b\<lparr>offset := offset b - n\<rparr>)"
  by (simp add: retreat_def)

lemma wp_enter [simp]: "wp enter Q E b = Q () (b\<lparr>depth := depth b + 1\<rparr>)"
  by (simp add: enter_def)

lemma wp_pb_alloc_item:
  assumes "\<And>h. Q None (b\<lparr>hooks := h\<rparr>)" and "\<And>h. Q (Some empty_item) (b\<lparr>hooks := h\<rparr>)"
  shows "wp (pb_alloc cJSON_New_Item) Q E b"
  using assms by (simp add: pb_alloc_def cJSON_New_Item_def split: list.splits)

lemma wp_pb_alloc:
  assumes "\<And>h ok. Q ok (b\<lparr>hooks := h\<rparr>)"
  shows "wp (pb_alloc alloc) Q E b"
  using assms by (simp add: pb_alloc_def split: list.splits)

lemma terminated_simps [simp]:
  "terminated (b\<lparr>hooks := h\<rparr>) = terminated b" "terminated (b\<lparr>depth := d\<rparr>) = terminated b"
  by (simp_all add: terminated_def)

lemma moved_simps [simp]:
  "moved (b\<lparr>hooks := h\<rparr>) b' = moved b b'" "moved (b\<lparr>depth := d\<rparr>) b' = moved b b'"
  "moved b (b'\<lparr>hooks := h\<rparr>) = moved b b'" "moved b (b'\<lparr>depth := d\<rparr>) = moved b b'"
  by (simp_all add: moved_def)

lemma ended_simps [simp]:
  "ended b None b' \<longleftrightarrow> content b' = content b" "ended b (Some x) b' = moved b b'"
  by (auto simp: ended_def moved_def)

text \<open>A byte that is not NUL is followed by another one.\<close>

lemma terminated_next:
  assumes "terminated b" and "content b ! offset b \<noteq> NUL"
  shows "offset b + 1 < length (content b)"
proof (rule ccontr)
  assume "\<not> ?thesis"
  then have "offset b = length (content b) - 1" using assms(1) by (auto simp: terminated_def)
  moreover have "content b \<noteq> []" using assms(1) by (auto simp: terminated_def)
  ultimately have "content b ! offset b = NUL"
    using assms(1) by (simp add: terminated_def last_conv_nth)
  then show False using assms(2) by simp
qed

lemma looking_at_next:
  "terminated b \<Longrightarrow> looking_at c b \<Longrightarrow> c \<noteq> NUL \<Longrightarrow>
   offset b + 1 < length (content b)"
  by (rule terminated_next) (auto simp: looking_at_def)

text \<open>Skipping whitespace stays inside and never goes back.\<close>

lemma wp_skip [simp]: "wp buffer_skip_whitespace Q E b = Q () (snd (projr (buffer_skip_whitespace b)))"
  by (simp add: buffer_skip_whitespace_def run)

definition skipped :: "parse_buffer \<Rightarrow> parse_buffer" where
  "skipped b = snd (projr (buffer_skip_whitespace b))"

lemma skipped_props:
  assumes "terminated b"
  shows "content (skipped b) = content b" "depth (skipped b) = depth b"
    "offset b \<le> offset (skipped b)" "terminated (skipped b)"
proof -
  let ?n = "offset b + length (takeWhile (\<lambda>c. byte c \<le> 32) (drop (offset b) (content b)))"
  have "length (takeWhile (\<lambda>c. byte c \<le> 32) (drop (offset b) (content b)))
      \<le> length (content b) - offset b"
    by (metis length_drop length_takeWhile_le)
  then have "?n \<le> length (content b)" using assms by (auto simp: terminated_def)
  moreover have "skipped b = b\<lparr>offset := if ?n = length (content b) then ?n - 1 else ?n\<rparr>"
    using assms by (simp add: skipped_def buffer_skip_whitespace_def run Let_def
        can_access_at_index_def terminated_def)
  ultimately show "content (skipped b) = content b" "depth (skipped b) = depth b"
    "offset b \<le> offset (skipped b)" "terminated (skipped b)"
    using assms by (auto simp: terminated_def)
qed

lemma wp_skip_whitespace:
  assumes "terminated b"
    and "\<And>b'. content b' = content b \<Longrightarrow> offset b \<le> offset b' \<Longrightarrow> terminated b' \<Longrightarrow> Q () b'"
  shows "wp buffer_skip_whitespace Q E b"
  using skipped_props [OF assms(1)] assms(2) by (simp add: skipped_def)

declare wp_skip [simp del]

section \<open>Numbers and literals\<close>

lemma strtod_not_NaN: "strtod s = (d, k) \<Longrightarrow> d \<noteq> NaN"
  by (auto simp: strtod_def round_double_def Let_def split: prod.splits if_splits)

lemma saturate_total: "d \<noteq> NaN \<Longrightarrow> \<exists>i. saturate d = Inr i"
  by (cases d) auto

lemma number_char_not_NUL: "\<not> number_char NUL"
  by (simp add: number_char_def is_digit_def byte_def)

lemma takeWhile_take: "takeWhile P (take n xs) = take n (takeWhile P xs)"
  by (induction xs arbitrary: n) (auto simp: take_Cons split: nat.splits)

lemma number_c_string_length:
  assumes "terminated b"
  shows "offset b + length (number_c_string b) < length (content b)"
proof -
  let ?d = "drop (offset b) (content b)"
  have d: "?d \<noteq> []" "last ?d = NUL" using assms by (auto simp: terminated_def)
  have "dropWhile number_char ?d \<noteq> []"
    using d number_char_not_NUL by (metis dropWhile_eq_Nil_conv last_in_set)
  then have "length (takeWhile number_char ?d) < length ?d"
    using length_takeWhile_dropWhile [of number_char ?d]
    by (cases "dropWhile number_char ?d") simp_all
  moreover have "takeWhile number_char (take 63 ?d) = take 63 (takeWhile number_char ?d)"
    by (rule takeWhile_take)
  ultimately show ?thesis by (simp add: number_c_string_def)
qed

lemma parse_number_ok:
  assumes "terminated b"
  shows "total (parse_number item) (ended b) b"
proof -
  obtain d k where s: "strtod (number_c_string b) = (d, k)" by (cases "strtod (number_c_string b)")
  obtain vi where "saturate d = Inr vi" using saturate_total strtod_not_NaN [OF s] by blast
  moreover have "offset b + k < length (content b)"
    using strtod_length [OF s] number_c_string_length [OF assms] by simp
  ultimately show ?thesis
    using assms by (simp add: parse_number_def s moved_def terminated_def)
qed

lemma starts_with_moved:
  assumes "terminated b" and "starts_with lit b" and "lit \<noteq> []" and "NUL \<notin> set lit"
  shows "moved b (b\<lparr>offset := offset b + length lit\<rparr>)"
proof -
  let ?d = "drop (offset b) (content b)"
  have "?d \<noteq> []" "last ?d = NUL" using assms(1) by (auto simp: terminated_def)
  have lit: "take (length lit) ?d = lit" using assms(2) by (simp add: starts_with_def)
  have "offset b + length lit \<noteq> length (content b)"
  proof
    assume "offset b + length lit = length (content b)"
    then have "?d = lit" using lit by (metis length_drop add_diff_cancel_left' take_all_iff order_refl)
    then show False using \<open>?d \<noteq> []\<close> \<open>last ?d = NUL\<close> assms(4) by (metis last_in_set)
  qed
  then show ?thesis using assms by (auto simp: moved_def terminated_def starts_with_def can_read_def)
qed

section \<open>Strings\<close>

text \<open>
  The size of the output. The scan counts one step for an ordinary byte and one for an escape
  of two bytes; \<open>scan_steps\<close> is the number of its steps from \<open>i\<close> to the end. The decoding can
  start an escape in the middle of one of the scan's (a \<open>\u\<close> with bad digits takes six bytes
  whatever they are), so the bound is stated from every position: moving forward never
  increases the number of steps, and every byte that is written costs a step.
\<close>

function scan_steps :: "string \<Rightarrow> nat \<Rightarrow> nat \<Rightarrow> nat" where
  "scan_steps s e i =
     (if e \<le> i then 0
      else if s ! i = CHR 0x5C then Suc (scan_steps s e (i + 2))
      else Suc (scan_steps s e (i + 1)))"
  by pat_completeness auto
termination by (relation "measure (\<lambda>(s, e, i). e - i)") auto

declare scan_steps.simps [simp del]

lemma scan_steps_end: "e \<le> i \<Longrightarrow> scan_steps s e i = 0"
  by (subst scan_steps.simps) simp

lemma scan_string_steps:
  "scan_string s i k = Some (e, k') \<Longrightarrow>
   i \<le> e \<and> e < length s \<and> s ! e = CHR 0x22 \<and> k \<le> k' \<and> e = i + scan_steps s e i + (k' - k)"
proof (induction s i k rule: scan_string.induct)
  case (1 s i k)
  show ?case
  proof (cases "i < length s \<and> s ! i \<noteq> CHR 0x22")
    case plain: True
    show ?thesis
    proof (cases "s ! i = CHR 0x5C")
      case True
      then have "scan_string s (i + 2) (k + 1) = Some (e, k')" and i: "\<not> length s \<le> i + 1"
        using "1.prems" plain by (subst (asm) scan_string.simps; simp split: if_splits)+
      then have IH: "i + 2 \<le> e" "e < length s" "s ! e = CHR 0x22" "k + 1 \<le> k'"
          "e = i + 2 + scan_steps s e (i + 2) + (k' - (k + 1))"
        using "1.IH"(1) plain True by auto
      moreover have "scan_steps s e i = Suc (scan_steps s e (i + 2))"
        using True IH(1) by (subst scan_steps.simps) simp
      ultimately show ?thesis by auto
    next
      case False
      then have "scan_string s (i + 1) k = Some (e, k')"
        using "1.prems" plain by (subst (asm) scan_string.simps; simp split: if_splits)
      then have IH: "i + 1 \<le> e" "e < length s" "s ! e = CHR 0x22" "k \<le> k'"
          "e = i + 1 + scan_steps s e (i + 1) + (k' - k)"
        using "1.IH"(2) plain False by auto
      moreover have "scan_steps s e i = Suc (scan_steps s e (i + 1))"
        using False IH(1) by (subst scan_steps.simps) simp
      ultimately show ?thesis by auto
    qed
  next
    case False
    then show ?thesis
      using "1.prems"
      by (subst (asm) scan_string.simps) (auto simp: scan_steps_end split: if_splits)
  qed
qed

lemma scan_steps_next:
  "scan_steps s e (i + 1) \<le> scan_steps s e i \<and> scan_steps s e i \<le> scan_steps s e (i + 1) + 1"
proof (induction "e - i" arbitrary: i rule: less_induct)
  case less
  show ?case
  proof (cases "e \<le> i")
    case True
    then show ?thesis by (simp add: scan_steps_end)
  next
    case False
    show ?thesis
    proof (cases "s ! i = CHR 0x5C")
      case True
      then have "scan_steps s e i = Suc (scan_steps s e (i + 2))"
        using False by (subst scan_steps.simps) simp
      then show ?thesis using less [of "i + 1"] False by simp
    next
      case esc: False
      then have "scan_steps s e i = Suc (scan_steps s e (i + 1))"
        using False by (subst scan_steps.simps) simp
      then show ?thesis by simp
    qed
  qed
qed

lemma scan_steps_mono: "i \<le> j \<Longrightarrow> scan_steps s e j \<le> scan_steps s e i"
proof (induction j)
  case 0
  then show ?case by simp
next
  case (Suc j)
  then show ?case using scan_steps_next [of s e j] by (auto simp: le_Suc_eq)
qed

lemma scan_steps_plain:
  "i < e \<Longrightarrow> s ! i \<noteq> CHR 0x5C \<Longrightarrow> scan_steps s e i = Suc (scan_steps s e (i + 1))"
  by (subst scan_steps.simps) simp

lemma scan_steps_escape:
  "i < e \<Longrightarrow> s ! i = CHR 0x5C \<Longrightarrow> scan_steps s e i = Suc (scan_steps s e (i + 2))"
  by (subst scan_steps.simps) simp

text \<open>Four hexadecimal digits are four ordinary bytes.\<close>

lemma hex_digit_not_escape: "hex_digit c = Some d \<Longrightarrow> c \<noteq> CHR 0x5C"
  by (auto simp: hex_digit_def byte_def)

lemma hex4_loop_ok:
  "p + k \<le> length (content b) \<Longrightarrow>
   total (hex4_loop k p h)
     (\<lambda>r b'. b' = b \<and> (r \<noteq> 0 \<longrightarrow> (\<forall>j < k. content b ! (p + j) \<noteq> CHR 0x5C))) b"
proof (induction k arbitrary: p h)
  case 0
  then show ?case by simp
next
  case (Suc k)
  show ?case
  proof (cases "hex_digit (content b ! p)")
    case None
    then show ?thesis using Suc.prems by simp
  next
    case (Some d)
    let ?h = "if k = 0 then h + d else push_bit 4 (h + d)"
    have "total (hex4_loop k (p + 1) ?h)
        (\<lambda>r b'. b' = b \<and> (r \<noteq> 0 \<longrightarrow> (\<forall>j < k. content b ! (p + 1 + j) \<noteq> CHR 0x5C))) b"
      using Suc.prems by (intro Suc.IH) simp
    then have "total (hex4_loop k (p + 1) ?h)
        (\<lambda>r b'. b' = b \<and> (r \<noteq> 0 \<longrightarrow> (\<forall>j < Suc k. content b ! (p + j) \<noteq> CHR 0x5C))) b"
    proof (rule wp_mono)
      fix r b'
      assume Q: "b' = b \<and> (r \<noteq> 0 \<longrightarrow> (\<forall>j < k. content b ! (p + 1 + j) \<noteq> CHR 0x5C))"
      have "content b ! (p + j) \<noteq> CHR 0x5C" if "r \<noteq> 0" "j < Suc k" for j
        using Q that hex_digit_not_escape [OF Some] by (cases j) auto
      then show "b' = b \<and> (r \<noteq> 0 \<longrightarrow> (\<forall>j < Suc k. content b ! (p + j) \<noteq> CHR 0x5C))"
        using Q by blast
    qed
    then show ?thesis using Suc.prems Some by simp
  qed
qed

lemma parse_hex4_ok:
  assumes "p + 4 \<le> e" and "e < length (content b)"
    and "\<And>r. r \<noteq> 0 \<Longrightarrow> scan_steps (content b) e p = 4 + scan_steps (content b) e (p + 4) \<Longrightarrow> Q r b"
    and "Q 0 b"
  shows "wp (parse_hex4 p) Q E b"
proof -
  have "total (hex4_loop 4 p 0)
      (\<lambda>r b'. b' = b \<and> (r \<noteq> 0 \<longrightarrow> (\<forall>j < 4. content b ! (p + j) \<noteq> CHR 0x5C))) b"
    by (rule hex4_loop_ok) (use assms in simp)
  then show ?thesis unfolding parse_hex4_def
  proof (rule wp_mono)
    fix r :: nat and b'
    assume Q: "b' = b \<and> (r \<noteq> 0 \<longrightarrow> (\<forall>j < 4. content b ! (p + j) \<noteq> CHR 0x5C))"
    let ?s = "content b"
    have "scan_steps ?s e p = 4 + scan_steps ?s e (p + 4)" if "\<forall>j < 4. ?s ! (p + j) \<noteq> CHR 0x5C"
    proof -
      have "scan_steps ?s e (p + j) = Suc (scan_steps ?s e (p + Suc j))" if "j < 4" for j
        using scan_steps_plain [of "p + j" e ?s] that assms(1)
          \<open>\<forall>j < 4. ?s ! (p + j) \<noteq> CHR 0x5C\<close> by simp
      from this [of 0] this [of 1] this [of 2] this [of 3] show ?thesis
        by (simp add: eval_nat_numeral)
    qed
    then show "Q r b'" using Q assms(3,4) by (cases "r = 0") auto
  qed simp
qed
lemma utf8_tail_length: "utf8_tail n cp bs = (cp', bs') \<Longrightarrow> length bs' = n + length bs"
  by (induction n cp bs arbitrary: cp' bs' rule: utf8_tail.induct) (fastforce)+

lemma encode_codepoint_length:
  "encode_codepoint cp = Some bytes \<Longrightarrow> length bytes \<le> 4 \<and> (cp < 128 \<longrightarrow> length bytes = 1)"
  by (auto simp: encode_codepoint_def Let_def dest!: utf8_tail_length split: if_splits prod.splits)

text \<open>What a literal writes, it pays for with the steps it skips.\<close>

definition literal_ok :: "string \<Rightarrow> nat \<Rightarrow> nat \<Rightarrow> nat \<times> string \<Rightarrow> bool" where
  "literal_ok s e ip r \<longleftrightarrow> fst r \<noteq> 0 \<longrightarrow>
     ip + fst r \<le> e \<and> length (snd r) + scan_steps s e (ip + fst r) \<le> scan_steps s e ip"

lemma literal_ok_fail [simp]: "literal_ok s e ip (0, [])"
  by (simp add: literal_ok_def)

lemma utf16_literal_ok:
  assumes e: "e < length (content b)" and ip: "ip < e"
    and esc: "content b ! ip = CHR 0x5C"
  shows "total (utf16_literal_to_utf8 ip e)
    (\<lambda>r b'. b' = b \<and> literal_ok (content b) e ip r) b"
proof (cases "int e - int ip < 6")
  case True
  then show ?thesis by (simp add: utf16_literal_to_utf8_def)
next
  case False
  let ?s = "content b" and ?f = "scan_steps (content b) e"
  have first: "?f ip = Suc (?f (ip + 2))" using scan_steps_escape ip esc by blast
  have zero: "literal_ok ?s e ip (case encode_codepoint 0 of None \<Rightarrow> (0, []) | Some bytes \<Rightarrow> (6, bytes))"
    using False first scan_steps_mono [of "ip + 2" "ip + 6" ?s e]
    by (auto simp: literal_ok_def dest: encode_codepoint_length split: option.splits)
  have six: "ip + 2 + 4 = ip + 6" by simp
  have one: "literal_ok ?s e ip (case encode_codepoint r of None \<Rightarrow> (0, []) | Some bytes \<Rightarrow> (6, bytes))"
    if "?f (ip + 2) = 4 + ?f (ip + 2 + 4)" for r
  proof -
    have "?f ip = 5 + ?f (ip + 6)" using first that unfolding six by linarith
    then show ?thesis using False encode_codepoint_length [of r]
      by (cases "encode_codepoint r") (simp_all add: literal_ok_def)
  qed
  have two: "literal_ok ?s e ip (case encode_codepoint r of None \<Rightarrow> (0, []) | Some bytes \<Rightarrow> (12, bytes))"
    if "?f (ip + 2) = 4 + ?f (ip + 2 + 4)" "\<not> int e - int (ip + 6) < 6" for r
  proof -
    have "?f ip = 5 + ?f (ip + 6)" using first that unfolding six by linarith
    moreover have "?f (ip + 12) \<le> ?f (ip + 6)" by (rule scan_steps_mono) simp
    ultimately show ?thesis using that(2) encode_codepoint_length [of r]
      by (cases "encode_codepoint r") (simp_all add: literal_ok_def)
  qed
  have surrogate: "total (parse_hex4 (ip + 8)) (\<lambda>second_code. wp
      (if second_code < 0xDC00 \<or> second_code > 0xDFFF then ret (0, [])
       else let codepoint = 0x10000 + (push_bit 10 (first_code AND 0x3FF) OR (second_code AND 0x3FF))
         in ret (case encode_codepoint codepoint of None \<Rightarrow> (0, []) | Some bytes \<Rightarrow> (12, bytes)))
      (\<lambda>r b'. b' = b \<and> literal_ok ?s e ip r) (\<lambda>_. False)) b"
    if "?f (ip + 2) = 4 + ?f (ip + 2 + 4)" "\<not> int e - int (ip + 6) < 6" for first_code
  proof (rule parse_hex4_ok [where e = e])
    show "ip + 8 + 4 \<le> e" using that(2) by simp
  qed (use e two [OF that] in \<open>simp_all add: Let_def\<close>)
  show ?thesis
    unfolding utf16_literal_to_utf8_def if_not_P [OF False] wp_andthen
  proof (rule parse_hex4_ok [where e = e])
    show "ip + 2 + 4 \<le> e" using False by simp
  qed (use e ip one surrogate zero in \<open>simp_all\<close>)
qed

lemma wp_write_out [simp]:
  "wp (write_out cap out bytes) Q E b \<longleftrightarrow>
     (if length out + length bytes \<le> cap then Q (out @ bytes) b else E (Fault Out_of_bounds))"
  by (simp add: write_out_def)

lemma decode_string_ok:
  assumes "e < length (content b)"
    and "length out + scan_steps (content b) e ip < cap"
  shows "total (decode_string e cap ip out) (\<lambda>r b'. b' = b) b"
  using assms
proof (induction e cap ip out rule: decode_string.induct)
  case (1 e cap ip out)
  let ?s = "content b" and ?f = "scan_steps (content b) e"
  let ?Q = "\<lambda>r b'. b' = b"
  show ?case
  proof (cases "ip < e")
    case False
    then show ?thesis using "1.prems" by (subst decode_string.simps) (simp add: scan_steps_end)
  next
    case ip: True
    then have bounds: "ip < length ?s" "ip + 1 < length ?s" using "1.prems" by auto
    show ?thesis
    proof (cases "?s ! ip = CHR 0x5C")
      case False
      then have "length (out @ [?s ! ip]) + ?f (ip + 1) < cap"
        using "1.prems"(2) scan_steps_plain [OF ip False] by simp
      then have "total (decode_string e cap (ip + 1) (out @ [?s ! ip])) ?Q b"
        using "1.IH"(1) [OF ip False] "1.prems"(1) by blast
      then show ?thesis
        using ip bounds False "1.prems"(2) scan_steps_plain [OF ip False]
        by (subst decode_string.simps) simp
    next
      case esc: True
      have first: "?f ip = Suc (?f (ip + 2))" using scan_steps_escape ip esc by blast
      show ?thesis
      proof (cases "simple_escape (?s ! (ip + 1))")
        case (Some x)
        then have "total (decode_string e cap (ip + 2) (out @ [x])) ?Q b"
          using "1.IH"(3) [OF ip _ Some] esc "1.prems" first by simp
        then show ?thesis using ip bounds esc Some "1.prems"(2) first
          by (subst decode_string.simps) simp
      next
        case None
        have rest: "total (decode_string e cap (ip + n) (out @ bytes)) ?Q b \<and>
            length out + length bytes \<le> cap"
          if "literal_ok ?s e ip (n, bytes)" "n \<noteq> 0" "?s ! (ip + 1) = CHR ''u''" for n bytes
        proof -
          have "length (out @ bytes) + ?f (ip + n) < cap"
            using that(1,2) "1.prems"(2) by (simp add: literal_ok_def)
          then show ?thesis
            using "1.IH"(2) [OF ip _ None that(3) that(2)] esc "1.prems"(1) by simp
        qed
        show ?thesis
        proof (cases "?s ! (ip + 1) = CHR ''u''")
          case False
          then show ?thesis using ip bounds esc None by (subst decode_string.simps) simp
        next
          case u: True
          have "total (utf16_literal_to_utf8 ip e)
            (\<lambda>x. wp (if fst x = 0 then ret (Inl ip)
                else andthen (write_out cap out (snd x)) (decode_string e cap (ip + fst x)))
              ?Q (\<lambda>_. False)) b"
          proof (rule wp_mono [OF utf16_literal_ok [OF "1.prems"(1) ip esc]])
            fix x b'
            assume "b' = b \<and> literal_ok ?s e ip x"
            then show "wp (if fst x = 0 then ret (Inl ip)
                else andthen (write_out cap out (snd x)) (decode_string e cap (ip + fst x)))
              ?Q (\<lambda>_. False) b'"
              using rest [of "fst x" "snd x"] u by (cases "fst x = 0") auto
          qed simp
          then show ?thesis using ip bounds esc None u
            by (subst decode_string.simps) (simp add: case_prod_beta')
        qed
      qed
    qed
  qed
qed

lemma parse_string_ok:
  assumes "terminated b"
  shows "total (parse_string item) (ended b) b"
proof -
  let ?s = "content b" and ?i = "offset b"
  have i: "?i < length ?s" using assms by (simp add: terminated_def)
  have body: "wp (decode_string e (Suc (e - (?i + k))) (Suc ?i) [])
      (\<lambda>r. wp (case r of
           Inl ip \<Rightarrow> string_fail ip
         | Inr output \<Rightarrow>
             andthen (modify (offset_update (\<lambda>_. Suc e))) (\<lambda>_.
             ret (Some (set_kind cJSON_String
               (set_valuestring (Some (upto_nul output)) item))))) (ended b) (\<lambda>_. False))
      (\<lambda>_. False) (b\<lparr>hooks := h\<rparr>)"
    if scan: "scan_string ?s (?i + 1) 0 = Some (e, k)" for e k h
  proof -
    note steps = scan_string_steps [OF scan]
    have "moved b (b\<lparr>hooks := h, offset := Suc e\<rparr>)"
      using steps assms terminated_next [of "b\<lparr>offset := e\<rparr>"]
      by (auto simp: moved_def terminated_def)
    then show ?thesis
      using steps
      by (intro wp_mono [OF decode_string_ok]) (auto simp: string_fail_def split: sum.splits)
  qed
  show ?thesis
    unfolding parse_string_def using i
    by (auto simp: string_fail_def Let_def intro!: wp_pb_alloc split: option.splits)
      (use body in \<open>auto simp: Let_def\<close>)
qed

section \<open>Arrays and objects\<close>

lemma wp_advanceI: "Q () (b\<lparr>offset := offset b + k\<rparr>) \<Longrightarrow> wp (advance k) Q E b"
  by simp

lemma wp_retI: "Q x s \<Longrightarrow> wp (ret x) Q E s"
  by simp

lemma moved_trans [trans]: "moved a b \<Longrightarrow> moved b c \<Longrightarrow> moved a c"
  by (auto simp: moved_def)

lemma ended_after:
  assumes "ended b1 r b2" and "content b1 = content b" and "offset b \<le> offset b1"
  shows "ended b r b2"
  using assms by (auto simp: ended_def moved_def)

lemma finish_ok:
  assumes "terminated b'" and "content b' = content b" and "offset b < offset b'"
    and "looking_at c b'" and "c \<noteq> NUL"
  shows "total (finish k it items) (ended b) b'"
proof -
  have "offset b' + 1 < length (content b')" using looking_at_next assms by blast
  then show ?thesis using assms by (auto simp: finish_def moved_def terminated_def)
qed

lemma close_items_ok:
  assumes "ended b r b'" and "c \<noteq> NUL"
  shows "total (close_items k c it r) (ended b) b'"
  using assms finish_ok [of b' b c k it] by (auto simp: close_items_def moved_def ended_def
      split: option.splits)

locale value_parser =
  fixes vp :: "cJSON \<Rightarrow> cJSON option parsem" and n :: nat
  assumes value_ok:
    "terminated b \<Longrightarrow> length (content b) - offset b \<le> n \<Longrightarrow> total (vp it) (ended b) b"
begin

lemma value_after:
  assumes "terminated b'" and "content b' = content b" and "offset b < offset b'"
    and "length (content b) - offset b \<le> Suc n"
    and "\<And>b2. content b2 = content b \<Longrightarrow> Q None b2"
    and "\<And>it b2. terminated b2 \<Longrightarrow> content b2 = content b \<Longrightarrow> offset b' < offset b2 \<Longrightarrow> Q (Some it) b2"
  shows "wp (vp it) Q (\<lambda>_. False) b'"
proof (rule wp_mono [OF value_ok])
  show "terminated b'" "length (content b') - offset b' \<le> n" using assms by auto
  fix r :: "cJSON option" and b2
  assume "ended b' r b2"
  then show "Q r b2" using assms(2,5,6) by (cases r) (auto simp: moved_def)
qed simp

text \<open>What follows a value that started after \<open>b\<close>, in both loops.\<close>

lemma more_items_ok:
  assumes b': "content b' = content b" "r \<noteq> None \<Longrightarrow> terminated b' \<and> Suc (offset b) < offset b'"
    and rounds: "length (content b) - offset b \<le> Suc (Suc rounds)"
      "length (content b) - offset b \<le> Suc n"
    and again: "\<And>b2 xs. terminated b2 \<Longrightarrow> Suc (offset b2) < length (content b2) \<Longrightarrow>
      length (content b2) - offset b2 \<le> Suc rounds \<Longrightarrow>
      length (content b2) - offset b2 \<le> Suc n \<Longrightarrow> total (loop xs) (ended b2) b2"
  shows "total (more_items loop items r) (ended b) b'"
proof (cases r)
  case None
  then show ?thesis using b' by (simp add: more_items_def)
next
  case (Some it)
  then have t: "terminated b'" "Suc (offset b) < offset b'" using b'(2) by auto
  have "total (loop xs) (ended b) b2"
    if b2: "content b2 = content b'" "offset b' \<le> offset b2" "terminated b2"
      and comma: "looking_at (CHR '','') b2" for b2 xs
  proof (rule wp_mono [OF again])
    show "Suc (offset b2) < length (content b2)"
      using looking_at_next [OF b2(3) comma] by simp
    fix r :: "cJSON list option" and b3
    assume "ended b2 r b3"
    then show "ended b r b3" by (rule ended_after) (use b2 b' t in auto)
  qed (use b2 b' t rounds in auto)
  then show ?thesis unfolding more_items_def Some option.case wp_andthen
    by (intro wp_skip_whitespace [OF t(1)]) (use t b' in \<open>auto simp: moved_def\<close>)
qed

text \<open>A value and what follows it, from a position after \<open>b\<close>.\<close>

lemma value_more_ok:
  assumes b1: "terminated b1" "content b1 = content b" "offset b < offset b1"
    and rounds: "length (content b) - offset b \<le> Suc (Suc rounds)"
      "length (content b) - offset b \<le> Suc n"
    and again: "\<And>b2 xs. terminated b2 \<Longrightarrow> Suc (offset b2) < length (content b2) \<Longrightarrow>
      length (content b2) - offset b2 \<le> Suc rounds \<Longrightarrow>
      length (content b2) - offset b2 \<le> Suc n \<Longrightarrow> total (loop xs) (ended b2) b2"
  shows "total (andthen (vp it) (more_items loop items)) (ended b) b1"
  unfolding wp_andthen
proof (rule value_after [OF b1 rounds(2)])
  show "total (more_items loop items None) (ended b) b2" if "content b2 = content b" for b2
    using that by (intro more_items_ok [where rounds = rounds] rounds again) auto
  show "total (more_items loop items (Some it')) (ended b) b2"
    if "terminated b2" "content b2 = content b" "offset b1 < offset b2" for it' b2
    using that b1 by (intro more_items_ok [where rounds = rounds] rounds again) auto
qed

lemma elements_ok:
  "terminated b \<Longrightarrow> Suc (offset b) < length (content b) \<Longrightarrow>
   length (content b) - offset b \<le> Suc rounds \<Longrightarrow> length (content b) - offset b \<le> Suc n \<Longrightarrow>
   total (parse_elements rounds vp items) (ended b) b"
proof (induction rounds arbitrary: b items)
  case 0
  then show ?case by simp
next
  case (Suc rounds)
  have step: "total (andthen (advance 1) (\<lambda>_. andthen buffer_skip_whitespace (\<lambda>_.
      andthen (vp empty_item) (more_items (parse_elements rounds vp) items)))) (ended b) b1"
    if "content b1 = content b" "offset b1 = offset b" "terminated b1" for b1
    by (rule wp_andthenI, rule wp_advanceI, rule wp_andthenI, rule wp_skip_whitespace,
        use that Suc.prems in \<open>simp add: terminated_def\<close>)
      (rule value_more_ok [OF _ _ _ Suc.prems(3,4) Suc.IH], use that in auto)
  show ?case unfolding parse_elements.simps
    by (rule wp_andthenI, rule wp_pb_alloc_item; unfold option.case)
      (rule wp_retI, simp, rule step, use Suc.prems in simp_all)
qed

text \<open>After the name of a member: the colon, the value, and what follows it.\<close>

lemma after_name_ok:
  assumes b1: "terminated b1" "content b1 = content b" "offset b < offset b1"
    and rounds: "length (content b) - offset b \<le> Suc (Suc rounds)"
      "length (content b) - offset b \<le> Suc n"
    and again: "\<And>b2 xs. terminated b2 \<Longrightarrow> Suc (offset b2) < length (content b2) \<Longrightarrow>
      length (content b2) - offset b2 \<le> Suc rounds \<Longrightarrow>
      length (content b2) - offset b2 \<le> Suc n \<Longrightarrow> total (loop xs) (ended b2) b2"
  shows "total (andthen buffer_skip_whitespace (\<lambda>_.
      andthen (gets (looking_at (CHR '':''))) (\<lambda>colon.
      if \<not> colon then ret None
      else
        andthen (advance 1) (\<lambda>_.
        andthen buffer_skip_whitespace (\<lambda>_.
        andthen (vp it) (more_items loop items)))))) (ended b) b1"
proof (rule wp_andthenI, rule wp_skip_whitespace [OF b1(1)])
  fix b2
  assume b2: "content b2 = content b1" "offset b1 \<le> offset b2" "terminated b2"
  have "total (andthen (advance 1) (\<lambda>_. andthen buffer_skip_whitespace (\<lambda>_.
        andthen (vp it) (more_items loop items)))) (ended b) b2"
    if colon: "looking_at (CHR '':'') b2"
    by (rule wp_andthenI, rule wp_advanceI, rule wp_andthenI, rule wp_skip_whitespace,
        use looking_at_next [OF b2(3) colon] b2(3) in \<open>simp add: terminated_def\<close>)
      (rule value_more_ok [OF _ _ _ rounds again], use b1 b2 in auto)
  then show "total (andthen (gets (looking_at (CHR '':''))) (\<lambda>colon.
      if \<not> colon then ret None
      else
        andthen (advance 1) (\<lambda>_.
        andthen buffer_skip_whitespace (\<lambda>_.
        andthen (vp it) (more_items loop items))))) (ended b) b2"
    using b1 b2 by (cases "looking_at (CHR '':'') b2") (simp_all del: wp_andthen add: wp_andthen [of "gets f" for f])
qed

lemma members_ok:
  "terminated b \<Longrightarrow> Suc (offset b) < length (content b) \<Longrightarrow>
   length (content b) - offset b \<le> Suc rounds \<Longrightarrow> length (content b) - offset b \<le> Suc n \<Longrightarrow>
   total (parse_members rounds vp items) (ended b) b"
proof (induction rounds arbitrary: b items)
  case 0
  then show ?case by simp
next
  case (Suc rounds)
  note prems = Suc.prems
  let ?after = "\<lambda>r. case r of None \<Rightarrow> ret None
    | Some named \<Rightarrow> andthen buffer_skip_whitespace (\<lambda>_.
        andthen (gets (looking_at (CHR '':''))) (\<lambda>colon.
        if \<not> colon then ret None
        else
          andthen (advance 1) (\<lambda>_.
          andthen buffer_skip_whitespace (\<lambda>_.
          andthen (vp (take_name named)) (more_items (parse_members rounds vp) items)))))"
  have after: "total (?after r) (ended b) b3"
    if "content b2 = content b" "offset b < offset b2" "ended b2 r b3" for b2 b3 r
  proof (cases r)
    case None
    then show ?thesis using that by simp
  next
    case (Some named)
    then have "terminated b3" "content b3 = content b" "offset b < offset b3"
      using that by (auto simp: moved_def)
    from after_name_ok [OF this prems(3,4) Suc.IH] show ?thesis
      unfolding Some option.case by simp
  qed
  have step: "total (andthen (advance 1) (\<lambda>_. andthen buffer_skip_whitespace (\<lambda>_.
      andthen (parse_string empty_item) ?after))) (ended b) b1"
    if b1: "content b1 = content b" "offset b1 = offset b" "terminated b1" for b1
  proof (rule wp_andthenI, rule wp_advanceI, rule wp_andthenI, rule wp_skip_whitespace)
    show "terminated (b1\<lparr>offset := offset b1 + 1\<rparr>)"
      using b1 prems by (simp add: terminated_def)
    fix b2
    assume b2: "content b2 = content (b1\<lparr>offset := offset b1 + 1\<rparr>)"
      "offset (b1\<lparr>offset := offset b1 + 1\<rparr>) \<le> offset b2" "terminated b2"
    show "total (andthen (parse_string empty_item) ?after) (ended b) b2"
      by (rule wp_andthenI, rule wp_mono [OF parse_string_ok [OF b2(3)]])
        (rule after, use b1 b2 in auto)
  qed
  show ?case unfolding parse_members.simps
    by (rule wp_andthenI, rule wp_pb_alloc_item; unfold option.case)
      (rule wp_retI, simp, rule step, use prems in simp_all)
qed

lemma bracketed_ok:
  assumes b: "terminated b" "Suc (offset b) < length (content b)" "close \<noteq> NUL"
    and items: "\<And>b2. content b2 = content b \<Longrightarrow> offset b \<le> offset b2 \<Longrightarrow>
      Suc (offset b2) < length (content b) \<Longrightarrow> total items (ended b) b2"
  shows "total (bracketed k close it items) (ended b) b"
  unfolding bracketed_def
proof (rule wp_andthenI, rule wp_advanceI, rule wp_andthenI, rule wp_skip_whitespace)
  show "terminated (b\<lparr>offset := offset b + 1\<rparr>)" using b by (simp add: terminated_def)
  fix b2
  assume "content b2 = content (b\<lparr>offset := offset b + 1\<rparr>)"
    "offset (b\<lparr>offset := offset b + 1\<rparr>) \<le> offset b2" and b2: "terminated b2"
  then have same: "content b2 = content b" "offset b < offset b2" by auto
  have fin: "looking_at close b2 \<Longrightarrow> total (finish k it []) (ended b) b2"
    by (rule finish_ok [OF b2 same _ b(3)])
  have loop: "total (andthen (retreat 1) (\<lambda>_. andthen items (\<lambda>r. close_items k close it r))) (ended b) b2"
    if "\<not> looking_at close b2"
    unfolding wp_andthen [of "retreat 1"] wp_retreat
  proof (rule wp_andthenI, rule wp_mono [OF items])
    fix r :: "cJSON list option" and b3
    assume "ended b r b3"
    then show "total (close_items k close it r) (ended b) b3" using b(3) by (rule close_items_ok)
  qed (use same b2 in \<open>auto simp: terminated_def\<close>)
  show "total (andthen (gets id) (\<lambda>b. if looking_at close b then finish k it []
      else if \<not> can_access_at_index 0 b then andthen (retreat 1) (\<lambda>_. ret None)
      else andthen (retreat 1) (\<lambda>_. andthen items (\<lambda>r. close_items k close it r)))) (ended b) b2"
  proof (rule wp_andthenI, unfold wp_gets id_apply)
    have "can_access_at_index 0 b2" using b2 by (simp add: terminated_def can_access_at_index_def)
    then show "total (if looking_at close b2 then finish k it []
      else if \<not> can_access_at_index 0 b2 then andthen (retreat 1) (\<lambda>_. ret None)
      else andthen (retreat 1) (\<lambda>_. andthen items (\<lambda>r. close_items k close it r))) (ended b) b2"
      using fin loop by (cases "looking_at close b2") (simp_all del: wp_andthen)
  qed
qed

lemma array_ok:
  assumes b: "terminated b" "looking_at (CHR ''['') b" "length (content b) - offset b \<le> Suc n"
  shows "total (parse_array n limit vp it) (ended b) b"
proof -
  have next_in: "Suc (offset b) < length (content b)"
    using looking_at_next [OF b(1,2)] by simp
  have "total (bracketed cJSON_Array (CHR '']'') it (parse_elements n vp []))
      (ended (b\<lparr>depth := depth b + 1\<rparr>)) (b\<lparr>depth := depth b + 1\<rparr>)"
  proof (rule bracketed_ok)
    fix b2 :: parse_buffer
    assume b2: "content b2 = content (b\<lparr>depth := depth b + 1\<rparr>)"
      "offset (b\<lparr>depth := depth b + 1\<rparr>) \<le> offset b2"
      "Suc (offset b2) < length (content (b\<lparr>depth := depth b + 1\<rparr>))"
    show "total (parse_elements n vp []) (ended (b\<lparr>depth := depth b + 1\<rparr>)) b2"
      by (rule wp_mono [OF elements_ok])
        (use b b2 in \<open>simp_all add: terminated_def\<close>, auto intro: ended_after)
  qed (use b next_in in simp_all)
  then have "total (bracketed cJSON_Array (CHR '']'') it (parse_elements n vp []))
      (ended b) (b\<lparr>depth := depth b + 1\<rparr>)"
    by (rule wp_mono) (auto simp: ended_def)
  moreover have "offset b < length (content b)" "content b ! offset b = CHR ''[''"
    using b by (auto simp: terminated_def looking_at_def)
  ultimately show ?thesis by (simp add: parse_array_def)
qed

lemma object_ok:
  assumes b: "terminated b" "looking_at (CHR ''{'') b" "length (content b) - offset b \<le> Suc n"
  shows "total (parse_object n limit vp it) (ended b) b"
proof -
  have next_in: "Suc (offset b) < length (content b)"
    using looking_at_next [OF b(1,2)] by simp
  have "total (bracketed cJSON_Object (CHR ''}'') it (parse_members n vp []))
      (ended (b\<lparr>depth := depth b + 1\<rparr>)) (b\<lparr>depth := depth b + 1\<rparr>)"
  proof (rule bracketed_ok)
    fix b2 :: parse_buffer
    assume b2: "content b2 = content (b\<lparr>depth := depth b + 1\<rparr>)"
      "offset (b\<lparr>depth := depth b + 1\<rparr>) \<le> offset b2"
      "Suc (offset b2) < length (content (b\<lparr>depth := depth b + 1\<rparr>))"
    show "total (parse_members n vp []) (ended (b\<lparr>depth := depth b + 1\<rparr>)) b2"
      by (rule wp_mono [OF members_ok])
        (use b b2 in \<open>simp_all add: terminated_def\<close>, auto intro: ended_after)
  qed (use b next_in in simp_all)
  then have "total (bracketed cJSON_Object (CHR ''}'') it (parse_members n vp []))
      (ended b) (b\<lparr>depth := depth b + 1\<rparr>)"
    by (rule wp_mono) (auto simp: ended_def)
  moreover have "looking_at (CHR ''{'') (b\<lparr>depth := depth b + 1\<rparr>)"
    using b by (simp add: looking_at_def can_access_at_index_def)
  ultimately show ?thesis by (simp add: parse_object_def)
qed

end

section \<open>The parser\<close>

lemma value_step:
  assumes vp: "value_parser (parse_value fuel limit) fuel"
    and b: "terminated b" "length (content b) - offset b \<le> Suc fuel"
  shows "total (parse_value (Suc fuel) limit it) (ended b) b"
proof -
  have "starts_with ''null'' b \<Longrightarrow> moved b (b\<lparr>offset := offset b + 4\<rparr>)"
    "starts_with ''true'' b \<Longrightarrow> moved b (b\<lparr>offset := offset b + 4\<rparr>)"
    "starts_with ''false'' b \<Longrightarrow> moved b (b\<lparr>offset := offset b + 5\<rparr>)"
    using starts_with_moved [OF b(1), of "''null''"] starts_with_moved [OF b(1), of "''true''"]
      starts_with_moved [OF b(1), of "''false''"] by (simp_all add: eval_nat_numeral)
  then show ?thesis
    unfolding parse_value.simps
    by (intro wp_andthenI)
      (simp add: parse_string_ok [OF b(1)] parse_number_ok [OF b(1)]
        value_parser.array_ok [OF vp b(1) _ b(2)] value_parser.object_ok [OF vp b(1) _ b(2)])
qed

lemma value_parser_parse_value: "value_parser (parse_value fuel limit) fuel"
proof (induction fuel)
  case 0
  show ?case by unfold_locales (auto simp: terminated_def)
next
  case (Suc fuel)
  show ?case by unfold_locales (rule value_step [OF Suc.IH])
qed

interpretation pv: value_parser "parse_value fuel limit" fuel for fuel limit
  by (rule value_parser_parse_value)

lemma skip_utf8_bom_ok:
  assumes "terminated b" and "\<And>b'. content b' = content b \<Longrightarrow> terminated b' \<Longrightarrow> Q () b'"
  shows "wp skip_utf8_bom Q E b"
  using assms by (auto simp: skip_utf8_bom_def can_access_at_index_def terminated_def)

lemma parse_root_ok:
  assumes b: "terminated b"
  shows "total (parse_root limit strict) (\<lambda>r b'. content b' = content b) b"
proof -
  have last: "total (case r of
         None \<Rightarrow> ret None
       | Some parsed \<Rightarrow>
           if strict then
             andthen buffer_skip_whitespace (\<lambda>_.
             andthen (gets (looking_at NUL)) (\<lambda>ended. ret (if ended then Some parsed else None)))
           else ret (Some parsed)) (\<lambda>r b'. content b' = content b) b'"
    if "ended b1 r b'" "content b1 = content b" for r :: "cJSON option" and b1 b'
  proof (cases r)
    case None
    then show ?thesis using that by simp
  next
    case (Some it)
    then have "terminated b'" "content b' = content b" using that by (auto simp: moved_def)
    then show ?thesis unfolding Some option.case
      by (cases strict) (auto intro!: wp_skip_whitespace)
  qed
  have step: "total (andthen skip_utf8_bom (\<lambda>_. andthen buffer_skip_whitespace (\<lambda>_.
      andthen (gets (\<lambda>b. length (content b))) (\<lambda>fuel.
      andthen (parse_value fuel limit empty_item) (\<lambda>r. case r of
         None \<Rightarrow> ret None
       | Some parsed \<Rightarrow>
           if strict then
             andthen buffer_skip_whitespace (\<lambda>_.
             andthen (gets (looking_at NUL)) (\<lambda>ended. ret (if ended then Some parsed else None)))
           else ret (Some parsed)))))) (\<lambda>r b'. content b' = content b) b0"
    if b0: "content b0 = content b" "terminated b0" for b0
  proof (rule wp_andthenI, rule skip_utf8_bom_ok [OF b0(2)], rule wp_andthenI,
      rule wp_skip_whitespace, assumption, rule wp_andthenI, unfold wp_gets, rule wp_andthenI,
      rule wp_mono [OF pv.value_ok])
    fix b1 b2 b3 :: parse_buffer and r :: "cJSON option"
    assume "content b1 = content b0" "content b2 = content b1" "ended b2 r b3"
    then show "total (case r of
         None \<Rightarrow> ret None
       | Some parsed \<Rightarrow>
           if strict then
             andthen buffer_skip_whitespace (\<lambda>_.
             andthen (gets (looking_at NUL)) (\<lambda>ended. ret (if ended then Some parsed else None)))
           else ret (Some parsed)) (\<lambda>r b'. content b' = content b) b3"
      using b0 by (intro last [of b2]) auto
  qed auto
  show ?thesis unfolding parse_root_def
    by (rule wp_andthenI, rule wp_pb_alloc_item; unfold option.case)
      (rule wp_retI, simp, rule step, use b in simp_all)
qed

lemma parse_with_opts_ok:
  "\<exists>r h'. cJSON_ParseWithOpts limit src strict h = Inr (r, h')"
proof (cases src)
  case None
  then show ?thesis by (simp add: cJSON_ParseWithOpts_def run)
next
  case (Some v)
  let ?b = "\<lparr>content = v @ [NUL], offset = 0, depth = 0, hooks = h\<rparr>"
  have "total (parse_root limit strict) (\<lambda>r b'. content b' = content ?b) ?b"
    by (rule parse_root_ok) (simp add: terminated_def)
  then show ?thesis using Some
    by (auto simp: cJSON_ParseWithOpts_def cJSON_ParseWithLengthOpts_def wp_total Let_def
        split: option.splits)
qed

lemma cJSON_Parse_total: "\<exists>item h'. cJSON_Parse limit src h = Inr (item, h')"
  using parse_with_opts_ok [of limit "Some src" False h]
  by (auto simp: cJSON_Parse_def run)

section \<open>Allocators that do not fail\<close>

text \<open>Parsing with an allocator that does not fail leaves one that does not fail.\<close>

abbreviation keeps_Nil :: "'a parsem \<Rightarrow> bool" where
  "keeps_Nil \<equiv> safe (\<lambda>b. hooks b = []) (\<lambda>_. True)"

lemma keeps_basic [safe_rules]:
  "keeps_Nil (advance n)" "keeps_Nil (retreat n)" "keeps_Nil enter" "keeps_Nil (byte_at i)"
  "keeps_Nil buffer_skip_whitespace" "keeps_Nil skip_utf8_bom" "keeps_Nil (write_out cap out bytes)"
  "keeps_Nil (string_fail ip)" "keeps_Nil (pb_alloc alloc)" "keeps_Nil (pb_alloc cJSON_New_Item)"
  by (auto simp: safe_def buffer_skip_whitespace_def skip_utf8_bom_def string_fail_def Let_def
      pb_alloc_def cJSON_New_Item_def)

lemma keeps_number [safe_rules]: "keeps_Nil (parse_number it)"
  unfolding parse_number_def by (intro safe_rules TrueI)

lemma keeps_hex4 [safe_rules]: "keeps_Nil (hex4_loop k p h)"
  by (induction k p h rule: hex4_loop.induct) (auto intro!: safe_rules)

lemma keeps_utf16 [safe_rules]: "keeps_Nil (utf16_literal_to_utf8 ip e)"
  unfolding utf16_literal_to_utf8_def parse_hex4_def Let_def by (intro safe_rules TrueI)

lemma keeps_decode [safe_rules]: "keeps_Nil (decode_string e cap ip out)"
proof (induction e cap ip out rule: decode_string.induct)
  case (1 e cap ip out)
  show ?case by (subst decode_string.simps) (intro safe_rules TrueI 1; assumption?)
qed

lemma keeps_string [safe_rules]: "keeps_Nil (parse_string it)"
  unfolding parse_string_def Let_def by (intro safe_rules TrueI) simp_all

lemma keeps_items [safe_rules]:
  "(\<And>xs. keeps_Nil (loop xs)) \<Longrightarrow> keeps_Nil (more_items loop items r)"
  "keeps_Nil (finish k it items)" "keeps_Nil (close_items k c it r')"
  unfolding more_items_def finish_def close_items_def
  by (intro safe_rules TrueI; simp add: finish_def)+

lemma keeps_bracketed [safe_rules]: "keeps_Nil m \<Longrightarrow> keeps_Nil (bracketed k c it m)"
  unfolding bracketed_def by (intro safe_rules TrueI)

lemma keeps_loops [safe_rules]:
  assumes "\<And>it. keeps_Nil (vp it)"
  shows "keeps_Nil (parse_elements n vp items)" "keeps_Nil (parse_members n vp items)"
proof -
  show "keeps_Nil (parse_elements n vp items)"
    by (induction n arbitrary: items) (auto intro!: safe_rules assms)
  show "keeps_Nil (parse_members n vp items)"
    by (induction n arbitrary: items) (auto intro!: safe_rules assms)
qed

lemma keeps_value [safe_rules]: "keeps_Nil (parse_value n limit it)"
proof (induction n arbitrary: it)
  case (Suc n)
  then show ?case
    by (auto simp: parse_array_def parse_object_def intro!: safe_rules)
qed (simp add: safe_rules)

lemma keeps_root: "keeps_Nil (parse_root limit strict)"
  unfolding parse_root_def by (intro safe_rules TrueI)

lemma cJSON_Parse_Nil: "\<exists>item. cJSON_Parse limit src [] = Inr (item, [])"
proof -
  obtain item h where r: "cJSON_Parse limit src [] = Inr (item, h)" using cJSON_Parse_total by blast
  let ?b = "\<lparr>content = src @ [NUL], offset = 0, depth = 0, hooks = []\<rparr>"
  have "wp (parse_root limit False) (\<lambda>_ b. hooks b = []) (\<lambda>_. True) ?b"
    by (rule safeD [OF keeps_root]) simp
  then have "h = []" using r
    by (auto simp: cJSON_Parse_def run cJSON_ParseWithOpts_def cJSON_ParseWithLengthOpts_def wp_def
        Let_def split: sum.splits option.splits prod.splits)
  then show ?thesis using r by blast
qed

section \<open>Theorem\<close>

text \<open>
  Parsing a C string always returns: whatever the bytes of the text, whatever allocations
  fail and whatever the nesting limit, \<open>cJSON_Parse\<close> reads nothing outside the text, writes
  nothing outside an allocation, and ends (its fuel is always enough).
\<close>

theorem cJSON_Parse_returns: "\<exists>item h'. cJSON_Parse limit src h = Inr (item, h')"
  by (rule cJSON_Parse_total)

end
