(* ===== verification/CJsonPrint.thy ===== *)
theory CJsonPrint
  imports CJson
begin

text \<open>
  The printer of \<open>lib/cJSON/src/cJSON.c\<close>. The state is the print buffer with its memory:
  a byte that was allocated and never written is \<open>None\<close>, a write outside the allocation
  faults, and \<open>update_offset\<close> (a \<open>strlen\<close>) faults when it meets an unwritten byte or the end
  of the allocation before a NUL. Every printing function returns the C result.
\<close>

section \<open>The print buffer\<close>

record printbuffer =
  buffer :: "char option list option"   \<comment> \<open>\<open>None\<close>: the pointer is NULL\<close>
  p_length :: nat
  p_offset :: nat
  p_depth :: nat
  noalloc :: bool
  format :: bool
  has_realloc :: bool                   \<comment> \<open>\<open>hooks.reallocate\<close> is not NULL\<close>
  p_hooks :: "bool list"

type_synonym 'a printm = "(printbuffer, 'a) prog"

definition p_alloc :: "bool printm" where
  "p_alloc = zoom p_hooks (\<lambda>h p. p\<lparr>p_hooks := h\<rparr>) alloc"

text \<open>The memory after a successful reallocation to \<open>n\<close> bytes, or after the copy by hand.\<close>

definition grown :: "printbuffer \<Rightarrow> char option list \<Rightarrow> nat \<Rightarrow> char option list" where
  "grown p m n =
     (let kept = if has_realloc p then m else take (p_offset p + 1) m
      in take n (kept @ replicate n None))"

text \<open>\<open>ensure\<close> returns the position to write at, or \<open>None\<close>.\<close>

definition ensure :: "nat \<Rightarrow> nat option printm" where
  "ensure needed =
     andthen (gets id) (\<lambda>p.
     case buffer p of
       None \<Rightarrow> ret None
     | Some m \<Rightarrow>
         if 0 < p_length p \<and> p_length p \<le> p_offset p then ret None
         else if INT_MAX < int needed then ret None
         else
           let needed = needed + p_offset p + 1 in
           if needed \<le> p_length p then ret (Some (p_offset p))
           else if noalloc p then ret None
           else if INT_MAX div 2 < int needed \<and> INT_MAX < int needed then ret None
           else
             let newsize = (if INT_MAX div 2 < int needed then nat INT_MAX else needed * 2) in
             andthen p_alloc (\<lambda>ok.
             if ok then
               andthen (modify (\<lambda>p. p\<lparr>p_length := newsize, buffer := Some (grown p m newsize)\<rparr>))
                 (\<lambda>_. ret (Some (p_offset p)))
             else
               andthen (modify (\<lambda>p. p\<lparr>p_length := 0, buffer := None\<rparr>)) (\<lambda>_. ret None)))"

text \<open>Writing bytes at a position; the length of the C string at a position.\<close>

definition store :: "nat \<Rightarrow> string \<Rightarrow> unit printm" where
  "store pos s =
     andthen (gets buffer) (\<lambda>mem.
     case mem of
       None \<Rightarrow> fault Null_deref
     | Some m \<Rightarrow>
         if pos + length s \<le> length m then
           modify (\<lambda>p. p\<lparr>buffer :=
             Some (take pos m @ map Some s @ drop (pos + length s) m)\<rparr>)
         else fault Out_of_bounds)"

fun strlen_from :: "char option list \<Rightarrow> stop + nat" where
  "strlen_from [] = Inl (Fault Out_of_bounds)"
| "strlen_from (None # m) = Inl (Fault Uninitialised)"
| "strlen_from (Some c # m) =
     (if c = NUL then Inr 0 else map_sum id Suc (strlen_from m))"

definition p_advance :: "nat \<Rightarrow> unit printm" where
  "p_advance n = modify (\<lambda>p. p\<lparr>p_offset := p_offset p + n\<rparr>)"

definition update_offset :: "unit printm" where
  "update_offset =
     andthen (gets id) (\<lambda>p.
     case buffer p of
       None \<Rightarrow> ret ()
     | Some m \<Rightarrow> andthen (lift (strlen_from (drop (p_offset p) m))) p_advance)"

text \<open>\<open>ensure\<close>, then \<open>k\<close> with the position, or the result \<open>false\<close>.\<close>

definition ensuring :: "nat \<Rightarrow> (nat \<Rightarrow> bool printm) \<Rightarrow> bool printm" where
  "ensuring needed k =
     andthen (ensure needed) (\<lambda>output.
     case output of None \<Rightarrow> ret False | Some pos \<Rightarrow> k pos)"

section \<open>Numbers\<close>

definition compare_double :: "double \<Rightarrow> double \<Rightarrow> bool" where
  "compare_double a b =
     (let maxVal = (if \<bar>b\<bar> < \<bar>a\<bar> then \<bar>a\<bar> else \<bar>b\<bar>)
      in \<bar>a - b\<bar> \<le> double_scale maxVal DBL_EPSILON)"

definition number_text :: "double \<Rightarrow> int \<Rightarrow> string" where
  "number_text d vi =
     (case d of
        NaN \<Rightarrow> ''null''
      | Inf _ \<Rightarrow> ''null''
      | Fin q \<Rightarrow>
          if double_eq d (double_of_int vi) then show_int vi
          else
            let s = format_g 15 q;
                (test, used) = strtod s
            in if used = 0 \<or> \<not> compare_double test d then format_g 17 q else s)"

text \<open>The text goes through a buffer of 26 bytes.\<close>

definition print_number :: "cJSON \<Rightarrow> bool printm" where
  "print_number item =
     (let text = number_text (valuedouble item) (valueint item) in
      if 26 < length text + 1 then fault Out_of_bounds
      else
        ensuring (length text + 1) (\<lambda>pos.
        andthen (store pos (text @ [NUL])) (\<lambda>_.
        andthen (p_advance (length text)) (\<lambda>_. ret True))))"

section \<open>Strings\<close>

definition hex_char :: "nat \<Rightarrow> char" where
  "hex_char n = char_of (if n < 10 then 48 + n else 87 + n)"

text \<open>The escaped form of one character, and how many bytes more than one it takes.\<close>

definition escape_char :: "char \<Rightarrow> string" where
  "escape_char c =
     (if 31 < byte c \<and> c \<noteq> CHR 0x22 \<and> c \<noteq> CHR 0x5C then [c]
      else CHR 0x5C #
        (if c = CHR 0x5C \<or> c = CHR 0x22 then [c]
         else if c = CHR 0x08 then ''b''
         else if c = CHR 0x0C then ''f''
         else if c = CHR 0x0A then ''n''
         else if c = CHR 0x0D then ''r''
         else if c = CHR 0x09 then ''t''
         else ''u00'' @ [hex_char (byte c div 16), hex_char (byte c mod 16)]))"

definition escape_count :: "char \<Rightarrow> nat" where
  "escape_count c =
     (if c \<in> {CHR 0x22, CHR 0x5C, CHR 0x08, CHR 0x0C, CHR 0x0A, CHR 0x0D, CHR 0x09} then 1
      else if byte c < 32 then 5 else 0)"

definition print_string_ptr :: "string option \<Rightarrow> bool printm" where
  "print_string_ptr input =
     (case input of
        None \<Rightarrow>
          ensuring 3 (\<lambda>pos.
          andthen (store pos [CHR 0x22, CHR 0x22, NUL]) (\<lambda>_. ret True))
      | Some s \<Rightarrow>
          let escape_characters = sum_list (map escape_count s);
              output_length = length s + escape_characters
          in ensuring (output_length + 3) (\<lambda>pos.
             if escape_characters = 0 then
               andthen (store pos (CHR 0x22 # s @ [CHR 0x22, NUL])) (\<lambda>_. ret True)
             else
               andthen (store pos (CHR 0x22 # concat (map escape_char s))) (\<lambda>_.
               andthen (store (pos + output_length + 1) [CHR 0x22, NUL]) (\<lambda>_. ret True))))"

definition print_string :: "cJSON \<Rightarrow> bool printm" where
  "print_string item = print_string_ptr (valuestring item)"

section \<open>Values, arrays and objects\<close>

definition print_literal :: "string \<Rightarrow> bool printm" where
  "print_literal s =
     ensuring (length s + 1) (\<lambda>pos. andthen (store pos (s @ [NUL])) (\<lambda>_. ret True))"

definition print_raw :: "cJSON \<Rightarrow> bool printm" where
  "print_raw item =
     (case valuestring item of None \<Rightarrow> ret False | Some s \<Rightarrow> print_literal s)"

text \<open>The loop over the elements of an array, each given by its printing computation.\<close>

fun print_elements :: "bool printm list \<Rightarrow> bool printm" where
  "print_elements [] = ret True"
| "print_elements (element # rest) =
     andthen element (\<lambda>ok.
     if \<not> ok then ret False
     else
       andthen update_offset (\<lambda>_.
       if rest = [] then ret True
       else
         andthen (gets format) (\<lambda>fmt.
         let length = (if fmt then 2 else 1) in
         ensuring (length + 1) (\<lambda>pos.
         andthen (store pos ((if fmt then '', '' else '','') @ [NUL])) (\<lambda>_.
         andthen (p_advance length) (\<lambda>_. print_elements rest))))))"

definition print_array :: "bool printm list \<Rightarrow> bool printm" where
  "print_array elements =
     ensuring 1 (\<lambda>pos.
     andthen (store pos ''['') (\<lambda>_.
     andthen (modify (\<lambda>p. p\<lparr>p_offset := p_offset p + 1, p_depth := p_depth p + 1\<rparr>)) (\<lambda>_.
     andthen (print_elements elements) (\<lambda>ok.
     if \<not> ok then ret False
     else
       ensuring 2 (\<lambda>pos.
       andthen (store pos ('']'' @ [NUL])) (\<lambda>_.
       andthen (modify (\<lambda>p. p\<lparr>p_depth := p_depth p - 1\<rparr>)) (\<lambda>_. ret True)))))))"

definition tabs :: "nat \<Rightarrow> string" where
  "tabs n = replicate n (CHR 0x09)"

text \<open>The indentation in front of a member, in formatted output.\<close>

definition print_indent :: "bool printm" where
  "print_indent =
     andthen (gets id) (\<lambda>p.
     if format p then
       ensuring (p_depth p) (\<lambda>pos.
       andthen (store pos (tabs (p_depth p))) (\<lambda>_.
       andthen (p_advance (p_depth p)) (\<lambda>_. ret True)))
     else ret True)"

text \<open>Run the second computation when the first returned true.\<close>

definition on_true :: "bool printm \<Rightarrow> bool printm \<Rightarrow> bool printm" where
  "on_true m k = andthen m (\<lambda>ok. if ok then k else ret False)"

definition print_key :: "string option \<Rightarrow> bool printm" where
  "print_key key =
     on_true (print_string_ptr key)
       (andthen update_offset (\<lambda>_.
        andthen (gets format) (\<lambda>fmt.
        let length = (if fmt then 2 else 1) in
        ensuring length (\<lambda>pos.
        andthen (store pos (if fmt then '':'' @ [CHR 0x09] else '':'')) (\<lambda>_.
        andthen (p_advance length) (\<lambda>_. ret True))))))"

definition print_member_end :: "bool \<Rightarrow> bool printm" where
  "print_member_end has_next =
     andthen (gets format) (\<lambda>fmt.
     let text = (if has_next then '','' else '''') @ (if fmt then [CHR 0x0A] else []) in
     ensuring (length text + 1) (\<lambda>pos.
     andthen (store pos (text @ [NUL])) (\<lambda>_.
     andthen (p_advance (length text)) (\<lambda>_. ret True))))"

fun print_members :: "(string option \<times> bool printm) list \<Rightarrow> bool printm" where
  "print_members [] = ret True"
| "print_members ((key, value) # rest) =
     on_true print_indent
    (on_true (print_key key)
    (on_true value
       (andthen update_offset (\<lambda>_.
        on_true (print_member_end (rest \<noteq> [])) (print_members rest)))))"

definition print_object :: "(string option \<times> bool printm) list \<Rightarrow> bool printm" where
  "print_object members =
     andthen (gets format) (\<lambda>fmt.
     let length = (if fmt then 2 else 1) in
     ensuring (length + 1) (\<lambda>pos.
     andthen (store pos (''{'' @ (if fmt then [CHR 0x0A] else []))) (\<lambda>_.
     andthen (modify (\<lambda>p. p\<lparr>p_depth := p_depth p + 1, p_offset := p_offset p + length\<rparr>)) (\<lambda>_.
     on_true (print_members members)
       (andthen (gets p_depth) (\<lambda>d.
        ensuring (if fmt then d + 1 else 2) (\<lambda>pos.
        andthen (store pos ((if fmt then tabs (d - 1) else []) @ ''}'' @ [NUL])) (\<lambda>_.
        andthen (modify (\<lambda>p. p\<lparr>p_depth := p_depth p - 1\<rparr>)) (\<lambda>_. ret True)))))))))"

lemma size_child [termination_simp]: "c \<in> set (child it) \<Longrightarrow> size c < size it"
proof (cases it)
  case (Item k r cs vs vi vd n ch)
  assume "c \<in> set (child it)"
  then have "size c \<le> size_list size ch" using Item by (simp add: size_list_estimation')
  then show ?thesis using Item by simp
qed

function print_value :: "cJSON \<Rightarrow> bool printm" where
  "print_value item =
     (case kind item of
        cJSON_NULL \<Rightarrow> print_literal ''null''
      | cJSON_False \<Rightarrow> print_literal ''false''
      | cJSON_True \<Rightarrow> print_literal ''true''
      | cJSON_Number \<Rightarrow> print_number item
      | cJSON_Raw \<Rightarrow> print_raw item
      | cJSON_String \<Rightarrow> print_string item
      | cJSON_Array \<Rightarrow> print_array (map print_value (child item))
      | cJSON_Object \<Rightarrow> print_object (map (\<lambda>c. (name c, print_value c)) (child item))
      | cJSON_Invalid \<Rightarrow> ret False)"
  by pat_completeness auto
termination by (relation "measure size") (simp_all add: size_child)

declare print_value.simps [simp del]

section \<open>Entry points\<close>

text \<open>
  \<open>print\<close>: a buffer of 256 bytes, then the result cut to its length. \<open>None\<close> is NULL, the
  result of a failed print and of printing NULL.
\<close>

definition fresh_buffer :: "nat \<Rightarrow> bool \<Rightarrow> bool list \<Rightarrow> printbuffer" where
  "fresh_buffer n fmt h =
     \<lparr>buffer = Some (replicate n None), p_length = n, p_offset = 0, p_depth = 0,
      noalloc = False, format = fmt, has_realloc = True, p_hooks = h\<rparr>"

text \<open>Reading the printed text back: all bytes below the offset have been written.\<close>

definition printed_text :: "printbuffer \<Rightarrow> stop + string" where
  "printed_text p =
     (case buffer p of
        None \<Rightarrow> Inl (Fault Null_deref)
      | Some m \<Rightarrow>
          if length m < p_offset p then Inl (Fault Out_of_bounds)
          else if None \<in> set (take (p_offset p) m) then Inl (Fault Uninitialised)
          else Inr (map the (take (p_offset p) m)))"

definition print :: "cJSON option \<Rightarrow> bool \<Rightarrow> string option heapm" where
  "print item fmt =
     andthen alloc (\<lambda>ok.
     if \<not> ok then ret None
     else
       (\<lambda>h.
         case (case item of None \<Rightarrow> ret False | Some it \<Rightarrow> print_value it) (fresh_buffer 256 fmt h) of
           Inl e \<Rightarrow> Inl e
         | Inr (printed, p) \<Rightarrow>
             if \<not> printed then Inr (None, p_hooks p)
             else
               (case update_offset p of
                  Inl e \<Rightarrow> Inl e
                | Inr (_, p) \<Rightarrow>
                    andthen alloc (\<lambda>ok.
                    if ok then andthen (lift (printed_text p)) (\<lambda>s. ret (Some s)) else ret None)
                      (p_hooks p))))"

definition cJSON_Print :: "cJSON option \<Rightarrow> string option heapm" where
  "cJSON_Print item = print item True"

definition cJSON_PrintUnformatted :: "cJSON option \<Rightarrow> string option heapm" where
  "cJSON_PrintUnformatted item = print item False"

end
