(* ===== verification/CJsonRender.thy ===== *)
theory CJsonRender
  imports CJsonPrint
begin

text \<open>
  What the printer prints. \<open>render\<close> is the text of an item, without any buffer; the printer
  refines it: run on a buffer that holds a text \<open>t\<close>, it never touches memory outside the
  buffer nor reads a byte it has not written, and when it returns true the buffer holds \<open>t\<close>
  and the rendered text. It does return true when no allocation fails and the text is
  shorter than \<open>INT_MAX\<close>.
\<close>

section \<open>The rendered text\<close>

definition quote :: "string option \<Rightarrow> string" where
  "quote s = CHR 0x22 # (case s of None \<Rightarrow> [] | Some s \<Rightarrow> concat (map escape_char s)) @ [CHR 0x22]"

definition array_separator :: "bool \<Rightarrow> string" where
  "array_separator fmt = (if fmt then '', '' else '','')"

definition newline :: "bool \<Rightarrow> string" where
  "newline fmt = (if fmt then [CHR 0x0A] else [])"

definition colon :: "bool \<Rightarrow> string" where
  "colon fmt = (if fmt then '':'' @ [CHR 0x09] else '':'')"

definition indent :: "bool \<Rightarrow> nat \<Rightarrow> string" where
  "indent fmt d = (if fmt then tabs d else [])"

fun element_texts :: "bool \<Rightarrow> string list \<Rightarrow> string" where
  "element_texts fmt [] = []"
| "element_texts fmt [s] = s"
| "element_texts fmt (s # ss) = s @ array_separator fmt @ element_texts fmt ss"

definition member_text :: "bool \<Rightarrow> nat \<Rightarrow> string option \<times> string \<Rightarrow> string" where
  "member_text fmt d kv = indent fmt d @ quote (fst kv) @ colon fmt @ snd kv"

fun member_texts :: "bool \<Rightarrow> nat \<Rightarrow> (string option \<times> string) list \<Rightarrow> string" where
  "member_texts fmt d [] = []"
| "member_texts fmt d [m] = member_text fmt d m @ newline fmt"
| "member_texts fmt d (m # ms) = member_text fmt d m @ '','' @ newline fmt @ member_texts fmt d ms"

function render :: "bool \<Rightarrow> nat \<Rightarrow> cJSON \<Rightarrow> string option" where
  "render fmt d item =
     (case kind item of
        cJSON_NULL \<Rightarrow> Some ''null''
      | cJSON_False \<Rightarrow> Some ''false''
      | cJSON_True \<Rightarrow> Some ''true''
      | cJSON_Number \<Rightarrow> Some (number_text (valuedouble item) (valueint item))
      | cJSON_Raw \<Rightarrow> valuestring item
      | cJSON_String \<Rightarrow> Some (quote (valuestring item))
      | cJSON_Array \<Rightarrow>
          map_option (\<lambda>ss. ''['' @ element_texts fmt ss @ '']'')
            (those (map (render fmt (d + 1)) (child item)))
      | cJSON_Object \<Rightarrow>
          map_option (\<lambda>ss. ''{'' @ newline fmt @
              member_texts fmt (d + 1) (zip (map name (child item)) ss) @ indent fmt d @ ''}'')
            (those (map (render fmt (d + 1)) (child item)))
      | cJSON_Invalid \<Rightarrow> None)"
  by pat_completeness auto
termination by (relation "measure (\<lambda>(_, _, it). size it)") (simp_all add: size_child)

declare render.simps [simp del]

section \<open>The buffer and the text it holds\<close>

definition same :: "printbuffer \<Rightarrow> printbuffer \<Rightarrow> bool" where
  "same p p' \<longleftrightarrow> format p' = format p \<and> noalloc p' = noalloc p \<and> has_realloc p' = has_realloc p \<and>
     (noalloc p \<longrightarrow> p_length p' = p_length p)"

text \<open>\<open>written t p\<close>: everything up to the offset is \<open>t\<close>, and one more byte is allocated.
  \<open>pending t p\<close>: \<open>t\<close> and a NUL are in the buffer, the offset somewhere in \<open>t\<close>.\<close>

definition written :: "string \<Rightarrow> printbuffer \<Rightarrow> bool" where
  "written t p \<longleftrightarrow> (\<exists>m. buffer p = Some m \<and> length m = p_length p \<and> length t < length m \<and>
     p_offset p = length t \<and> take (length t) m = map Some t \<and> c_string t)"

definition pending :: "string \<Rightarrow> printbuffer \<Rightarrow> bool" where
  "pending t p \<longleftrightarrow> (\<exists>m. buffer p = Some m \<and> length m = p_length p \<and> length t < length m \<and>
     p_offset p \<le> length t \<and> take (length t + 1) m = map Some (t @ [NUL]) \<and> c_string t)"

definition room :: "nat \<Rightarrow> printbuffer \<Rightarrow> bool" where
  "room n p \<longleftrightarrow> (\<exists>m. buffer p = Some m \<and> p_offset p + n < length m)"

text \<open>Nothing stands in the way of printing up to a length of \<open>n\<close>.\<close>

definition roomy :: "nat \<Rightarrow> printbuffer \<Rightarrow> bool" where
  "roomy n p \<longleftrightarrow> p_hooks p = [] \<and> (noalloc p \<longrightarrow> n + 2 \<le> p_length p) \<and> int n + 2 \<le> INT_MAX"

lemma same_refl [simp, intro]: "same p p"
  by (simp add: same_def)

lemma same_trans: "same p q \<Longrightarrow> same q r \<Longrightarrow> same p r"
  by (simp add: same_def)

lemma p_alloc_wp:
  "wp p_alloc Q E p \<longleftrightarrow>
     (case p_hooks p of [] \<Rightarrow> Q True (p\<lparr>p_hooks := []\<rparr>) | b # bs \<Rightarrow> Q b (p\<lparr>p_hooks := bs\<rparr>))"
  by (simp add: p_alloc_def split: list.splits)

lemma ensure_ok:
  assumes w: "written t p"
    and ok: "\<And>p'. written t p' \<Longrightarrow> room n p' \<Longrightarrow> same p p' \<Longrightarrow> p_depth p' = p_depth p \<Longrightarrow>
      (p_hooks p = [] \<Longrightarrow> p_hooks p' = []) \<Longrightarrow> Q (Some (length t)) p'"
    and fail: "\<And>p'. p_hooks p \<noteq> [] \<or> noalloc p \<and> p_length p < length t + n + 1 \<or> INT_MAX < int (length t + n) + 1 \<Longrightarrow> Q None p'"
  shows "wp (ensure n) Q E p"
proof -
  obtain m where m: "buffer p = Some m" "length m = p_length p" "length t < length m"
      "p_offset p = length t" "take (length t) m = map Some t" "c_string t"
    using w by (auto simp: written_def)
  let ?n = "n + length t + 1"
  have grown: "Q (Some (length t)) (p\<lparr>p_hooks := h, p_length := k, buffer := Some (grown (p\<lparr>p_hooks := h\<rparr>) m k)\<rparr>)"
    if "?n \<le> k" "p_length p < k" "p_hooks p = [] \<longrightarrow> h = []" "\<not> noalloc p" for h k
  proof (rule ok)
    have kept: "take (length t) (grown (p\<lparr>p_hooks := h\<rparr>) m k) = map Some t"
        "length (grown (p\<lparr>p_hooks := h\<rparr>) m k) = k"
      using m that by (auto simp: grown_def Let_def min_def)
    then show "written t (p\<lparr>p_hooks := h, p_length := k, buffer := Some (grown (p\<lparr>p_hooks := h\<rparr>) m k)\<rparr>)"
      using m that by (auto simp: written_def)
    show "room n (p\<lparr>p_hooks := h, p_length := k, buffer := Some (grown (p\<lparr>p_hooks := h\<rparr>) m k)\<rparr>)"
      using m that kept by (auto simp: room_def)
  qed (use that in \<open>simp_all add: same_def\<close>)
  have keep: "Q (Some (length t)) p" if "?n \<le> p_length p"
    using that m w by (intro ok) (auto simp: room_def)
  show ?thesis
    using m keep fail
    by (auto simp: ensure_def p_alloc_wp Let_def int_bounds split: list.splits
        intro!: grown)
qed

section \<open>Outcomes\<close>

text \<open>
  The outcome of a printing step that is to add \<open>u\<close> to the text \<open>t\<close>; \<open>W\<close> is \<open>written\<close> or
  \<open>pending\<close>, and \<open>d\<close> the depth it ends at. With \<open>u = None\<close> there is nothing to print and the step returns false.
\<close>

definition outcome :: "(string \<Rightarrow> printbuffer \<Rightarrow> bool) \<Rightarrow> string \<Rightarrow> string option \<Rightarrow> nat \<Rightarrow>
    printbuffer \<Rightarrow> bool \<Rightarrow> printbuffer \<Rightarrow> bool" where
  "outcome W t u d p r p' =
     (case u of
        None \<Rightarrow> \<not> r
      | Some u \<Rightarrow> (r \<longrightarrow> W (t @ u) p' \<and> same p p' \<and> p_depth p' = d) \<and>
                  (roomy (length (t @ u)) p \<longrightarrow> r \<and> p_hooks p' = []))"

abbreviation adds :: "bool printm \<Rightarrow> (string \<Rightarrow> printbuffer \<Rightarrow> bool) \<Rightarrow> string \<Rightarrow> string option \<Rightarrow>
    printbuffer \<Rightarrow> bool" where
  "adds m W t u p \<equiv> wp m (outcome W t u (p_depth p) p) (\<lambda>_. False) p"

abbreviation adds_to :: "bool printm \<Rightarrow> (string \<Rightarrow> printbuffer \<Rightarrow> bool) \<Rightarrow> string \<Rightarrow> string option \<Rightarrow>
    nat \<Rightarrow> printbuffer \<Rightarrow> printbuffer \<Rightarrow> bool" where
  "adds_to m W t u d p p1 \<equiv> wp m (outcome W t u d p) (\<lambda>_. False) p1"

lemma roomy_less: "roomy n p \<Longrightarrow> k \<le> n \<Longrightarrow> roomy k p"
  by (auto simp: roomy_def)

lemma roomy_same: "roomy n p \<Longrightarrow> same p p' \<Longrightarrow> p_hooks p' = [] \<Longrightarrow> roomy n p'"
  by (simp add: roomy_def same_def)

text \<open>A step that adds \<open>u\<close>, and then one that adds \<open>v\<close>.\<close>

lemma outcome_compose:
  assumes "outcome W (t @ u) v d p1 r p2" and "same p p1"
    and "roomy (length (t @ u)) p \<Longrightarrow> p_hooks p1 = []"
  shows "outcome W t (map_option (\<lambda>v. u @ v) v) d p r p2"
  using assms roomy_less [of "length (t @ u @ the v)" p "length (t @ u)"]
  by (auto simp: outcome_def split: option.splits dest: same_trans roomy_same)

lemma outcome_fail:
  "\<not> roomy (length (t @ u)) p \<Longrightarrow> outcome W t (map_option (\<lambda>v. u @ v) v) d p False p'"
  using roomy_less [of "length (t @ u @ the v)" p "length (t @ u)"]
  by (auto simp: outcome_def split: option.splits)

lemma outcome_fail': "\<not> roomy (length (t @ u)) p \<Longrightarrow> outcome W t (Some u) d p False p'"
  by (simp add: outcome_def)

lemma outcome_then:
  assumes m: "outcome W1 t (Some u) e p r p1"
    and k: "r \<Longrightarrow> W1 (t @ u) p1 \<Longrightarrow> same p p1 \<Longrightarrow> p_depth p1 = e \<Longrightarrow>
      adds_to k W (t @ u) v d p1 p1"
  shows "adds_to (if r then k else ret False) W t (map_option (\<lambda>v. u @ v) v) d p p1"
proof (cases r)
  case False
  then have "\<not> roomy (length (t @ u)) p" using m by (auto simp: outcome_def)
  then show ?thesis using False outcome_fail by simp
next
  case True
  then have p1: "W1 (t @ u) p1" "same p p1" "p_depth p1 = e"
      "roomy (length (t @ u)) p \<Longrightarrow> p_hooks p1 = []"
    using m by (auto simp: outcome_def)
  have "adds_to k W t (map_option (\<lambda>v. u @ v) v) d p p1"
    by (rule wp_mono [OF k [OF True p1(1,2,3)]]) (use p1 in \<open>auto intro: outcome_compose\<close>)
  then show ?thesis using True by simp
qed

lemma on_true_ok:
  assumes "adds m written t (Some u) p"
    and "\<And>p1. written (t @ u) p1 \<Longrightarrow> same p p1 \<Longrightarrow> p_depth p1 = p_depth p \<Longrightarrow>
      adds_to k W (t @ u) v d p1 p1"
  shows "adds_to (on_true m k) W t (map_option (\<lambda>v. u @ v) v) d p p"
  unfolding on_true_def
  by (rule wp_andthenI, rule wp_mono [OF assms(1)]) (erule outcome_then, rule assms(2), simp_all)

text \<open>The offset catches up with what is pending.\<close>

lemma strlen_from_text:
  "c_string u \<Longrightarrow> strlen_from (map Some u @ Some NUL # rest) = Inr (length u)"
  by (induction u) auto

lemma update_offset_ok:
  assumes "pending t p"
  shows "wp update_offset (\<lambda>_ p'. written t p' \<and> p' = p\<lparr>p_offset := length t\<rparr>) (\<lambda>_. False) p"
proof -
  obtain m where m: "buffer p = Some m" "length m = p_length p" "length t < length m"
      "p_offset p \<le> length t" "take (length t + 1) m = map Some (t @ [NUL])" "c_string t"
    using assms by (auto simp: pending_def)
  let ?o = "p_offset p"
  have "drop ?o m = map Some (drop ?o t) @ Some NUL # drop (length t + 1) m"
  proof -
    have "drop ?o m = drop ?o (take (length t + 1) m @ drop (length t + 1) m)"
      by (simp only: append_take_drop_id)
    also have "\<dots> = drop ?o (map Some (t @ [NUL])) @ drop (length t + 1) m"
      using m by (simp only: m(5)) simp
    finally show ?thesis using m(4) by (simp add: drop_map)
  qed
  moreover have "c_string (drop ?o t)" using m(6) by (auto simp: c_string_def dest: in_set_dropD)
  ultimately have "strlen_from (drop ?o m) = Inr (length (drop ?o t))"
    by (simp add: strlen_from_text)
  moreover have "take (length t) m = map Some t"
    using arg_cong [OF m(5), of "take (length t)"] by (simp add: take_map)
  ultimately show ?thesis using m
    by (simp add: update_offset_def p_advance_def written_def)
qed

lemma outcome_offset [simp]: "outcome W t u d (p\<lparr>p_offset := n\<rparr>) = outcome W t u d p"
  by (intro ext) (simp add: outcome_def same_def roomy_def split: option.splits)

lemma outcome_depth [simp]: "outcome W t u d (p\<lparr>p_depth := n\<rparr>) = outcome W t u d p"
  by (intro ext) (simp add: outcome_def same_def roomy_def split: option.splits)

lemma then_update_ok:
  assumes "adds m pending t (Some u) p"
    and "\<And>p1. written (t @ u) p1 \<Longrightarrow> same p p1 \<Longrightarrow> p_depth p1 = p_depth p \<Longrightarrow>
      adds_to k W (t @ u) v d p1 p1"
  shows "adds_to (andthen m (\<lambda>ok. if ok then andthen update_offset (\<lambda>_. k) else ret False)) W t
    (map_option (\<lambda>v. u @ v) v) d p p"
proof (rule wp_andthenI, rule wp_mono [OF assms(1)])
  fix r p1
  assume out: "outcome pending t (Some u) (p_depth p) p r p1"
  then show "adds_to (if r then andthen update_offset (\<lambda>_. k) else ret False) W t
    (map_option (\<lambda>v. u @ v) v) d p p1"
  proof (rule outcome_then)
    assume p1: "pending (t @ u) p1" "same p p1" "p_depth p1 = p_depth p"
    show "adds_to (andthen update_offset (\<lambda>_. k)) W (t @ u) v d p1 p1"
    proof (rule wp_andthenI, rule wp_mono [OF update_offset_ok [OF p1(1)]])
      fix p2
      assume "written (t @ u) p2 \<and> p2 = p1\<lparr>p_offset := length (t @ u)\<rparr>"
      then show "adds_to k W (t @ u) v d p1 p2"
        using assms(2) [of p2] p1 by (auto simp: same_def)
    qed simp
  qed
qed simp

section \<open>Writing a piece of text\<close>

definition holds :: "string \<Rightarrow> string \<Rightarrow> printbuffer \<Rightarrow> bool" where
  "holds t x p \<longleftrightarrow> (\<exists>m. buffer p = Some m \<and> length m = p_length p \<and> p_offset p = length t \<and>
     length (t @ x) \<le> length m \<and> take (length (t @ x)) m = map Some (t @ x) \<and> c_string t)"

lemma store_ok:
  assumes "written t p" and "room n p" and "length x \<le> n + 1"
    and "\<And>m. holds t x (p\<lparr>buffer := Some m\<rparr>) \<Longrightarrow> length t + n < p_length p \<Longrightarrow>
      Q () (p\<lparr>buffer := Some m\<rparr>)"
  shows "wp (store (length t) x) Q E p"
proof -
  obtain m where m: "buffer p = Some m" "length m = p_length p" "p_offset p = length t"
      "take (length t) m = map Some t" "length t + n < length m" "c_string t"
    using assms(1,2) by (auto simp: written_def room_def)
  let ?m = "take (length t) m @ map Some x @ drop (length t + length x) m"
  have "holds t x (p\<lparr>buffer := Some ?m\<rparr>)"
    using m assms(3) by (auto simp: holds_def)
  then show ?thesis using m assms(3,4) by (simp add: store_def)
qed

lemma emit_ok:
  assumes w: "written t p"
    and n: "length u \<le> n" "n \<le> length u + 1" "length (u @ z) \<le> n + 1"
    and k: "\<And>p1. holds t (u @ z) p1 \<Longrightarrow> length t + length u < p_length p1 \<Longrightarrow> same p p1 \<Longrightarrow>
      p_depth p1 = p_depth p \<Longrightarrow> (p_hooks p = [] \<Longrightarrow> p_hooks p1 = []) \<Longrightarrow> wp k Q E p1"
    and fail: "\<And>p1. \<not> roomy (length (t @ u)) p \<Longrightarrow> Q False p1"
  shows "wp (ensuring n (\<lambda>pos. andthen (store pos (u @ z)) (\<lambda>_. k))) Q E p"
  unfolding ensuring_def
proof (rule wp_andthenI, rule ensure_ok [OF w])
  fix p1
  assume p1: "written t p1" "room n p1" "same p p1" "p_depth p1 = p_depth p"
    "p_hooks p = [] \<Longrightarrow> p_hooks p1 = []"
  have "wp (store (length t) (u @ z)) (\<lambda>_. wp k Q E) E p1"
    by (rule store_ok [OF p1(1,2)]) (use n p1 in \<open>auto simp: same_def intro!: k\<close>)
  then show "wp (case Some (length t) of None \<Rightarrow> ret False
      | Some pos \<Rightarrow> andthen (store pos (u @ z)) (\<lambda>_. k)) Q E p1" by simp
next
  fix p1
  assume "p_hooks p \<noteq> [] \<or> noalloc p \<and> p_length p < length t + n + 1 \<or> INT_MAX < int (length t + n) + 1"
  then have "\<not> roomy (length (t @ u)) p" using n by (auto simp: roomy_def)
  then show "wp (case None of None \<Rightarrow> ret False
      | Some pos \<Rightarrow> andthen (store pos (u @ z)) (\<lambda>_. k)) Q E p1" using fail by simp
qed

lemma pendingI:
  "holds t (u @ [NUL]) p \<Longrightarrow> c_string u \<Longrightarrow> pending (t @ u) p"
  by (auto simp: holds_def pending_def)

lemma writtenI:
  assumes "holds t (u @ z) p" and "c_string u" and "length t + length u < p_length p"
  shows "written (t @ u) (p\<lparr>p_offset := length t + length u\<rparr>)"
proof -
  obtain m where m: "buffer p = Some m" "length m = p_length p"
      "take (length (t @ u @ z)) m = map Some (t @ u @ z)" "c_string t"
    using assms(1) by (auto simp: holds_def)
  have "take (length (t @ u)) m = map Some (t @ u)"
    using arg_cong [OF m(3), of "take (length (t @ u))"] by (simp add: take_map)
  then show ?thesis using m assms(2,3) by (auto simp: written_def)
qed

text \<open>The two shapes of a piece: left pending, or with the offset moved behind it.\<close>

lemma emit_pending:
  assumes "written t p" and "length u \<le> n" and "n \<le> length u + 1" and "c_string u"
  shows "adds (ensuring n (\<lambda>pos. andthen (store pos (u @ [NUL])) (\<lambda>_. ret True))) pending t (Some u) p"
  by (rule emit_ok [OF assms(1-3)])
    (use assms in \<open>auto simp: outcome_def roomy_def intro: pendingI\<close>)

lemma emit_then:
  assumes w: "written t p" and n: "length u \<le> n" "n \<le> length u + 1" "length (u @ z) \<le> n + 1"
    and u: "c_string u"
    and k: "\<And>p1. written (t @ u) p1 \<Longrightarrow> same p p1 \<Longrightarrow> p_depth p1 = e (p_depth p) \<Longrightarrow>
      adds_to k W (t @ u) v d p1 p1"
  shows "adds_to (ensuring n (\<lambda>pos. andthen (store pos (u @ z)) (\<lambda>_.
      andthen (modify (\<lambda>p. p\<lparr>p_offset := p_offset p + length u, p_depth := e (p_depth p)\<rparr>)) (\<lambda>_. k))))
    W t (map_option (\<lambda>v. u @ v) v) d p p"
proof (rule emit_ok [OF w n])
  fix p1
  assume p1: "holds t (u @ z) p1" "length t + length u < p_length p1" "same p p1"
    "p_depth p1 = p_depth p" "p_hooks p = [] \<Longrightarrow> p_hooks p1 = []"
  let ?p = "p1\<lparr>p_offset := length t + length u, p_depth := e (p_depth p)\<rparr>"
  have "p_offset p1 = length t" using p1(1) by (auto simp: holds_def)
  moreover have "written (t @ u) ?p"
    using writtenI [OF p1(1) u p1(2)] by (simp add: written_def)
  then have "adds_to k W t (map_option (\<lambda>v. u @ v) v) d p ?p"
    by (intro wp_mono [OF k [of ?p]] outcome_compose) (use p1 in \<open>auto simp: same_def roomy_def\<close>)
  ultimately show "adds_to (andthen (modify (\<lambda>p. p\<lparr>p_offset := p_offset p + length u,
      p_depth := e (p_depth p)\<rparr>)) (\<lambda>_. k)) W t (map_option (\<lambda>v. u @ v) v) d p p1"
    using p1(4) by simp
qed (simp add: outcome_fail)

lemma emit_advance:
  assumes "written t p" and "length u \<le> n" "n \<le> length u + 1" "length (u @ z) \<le> n + 1"
    and "c_string u"
    and "\<And>p1. written (t @ u) p1 \<Longrightarrow> same p p1 \<Longrightarrow> p_depth p1 = p_depth p \<Longrightarrow>
      adds_to k W (t @ u) v d p1 p1"
  shows "adds_to (ensuring n (\<lambda>pos. andthen (store pos (u @ z)) (\<lambda>_.
      andthen (p_advance (length u)) (\<lambda>_. k)))) W t (map_option (\<lambda>v. u @ v) v) d p p"
proof -
  have "p_advance (length u) =
      modify (\<lambda>p. p\<lparr>p_offset := p_offset p + length u, p_depth := p_depth p\<rparr>)"
    by (simp add: p_advance_def)
  then show ?thesis using emit_then [of t p u n z "\<lambda>d. d" k W v d] assms by simp
qed

lemma outcome_written_Nil:
  "written t p \<Longrightarrow> adds (ret True) written t (Some []) p"
  by (simp add: outcome_def roomy_def)

lemma emit_written:
  assumes "written t p" and "length u \<le> n" and "n \<le> length u + 1" and "length (u @ z) \<le> n + 1"
    and "c_string u"
  shows "adds (ensuring n (\<lambda>pos. andthen (store pos (u @ z)) (\<lambda>_.
      andthen (p_advance (length u)) (\<lambda>_. ret True)))) written t (Some u) p"
proof -
  have "adds_to (ensuring n (\<lambda>pos. andthen (store pos (u @ z)) (\<lambda>_.
      andthen (p_advance (length u)) (\<lambda>_. ret True)))) written t
      (map_option (\<lambda>v. u @ v) (Some [])) (p_depth p) p p"
    by (rule emit_advance [OF assms]) (simp add: outcome_def roomy_def)
  then show ?thesis by simp
qed

section \<open>Literals, numbers and strings\<close>

lemma pendingI_advanced:
  "holds t (u @ [NUL]) p \<Longrightarrow> c_string u \<Longrightarrow> pending (t @ u) (p\<lparr>p_offset := length t + length u\<rparr>)"
  by (auto simp: holds_def pending_def)

lemma print_literal_ok:
  "written t p \<Longrightarrow> c_string u \<Longrightarrow> adds (print_literal u) pending t (Some u) p"
  unfolding print_literal_def by (rule emit_pending) simp_all

lemma print_number_ok:
  assumes w: "written t p" and len: "length u \<le> 25" and u: "c_string u"
    and "u = number_text (valuedouble item) (valueint item)"
  shows "adds (print_number item) pending t (Some u) p"
proof -
  have "adds (ensuring (length u + 1) (\<lambda>pos. andthen (store pos (u @ [NUL])) (\<lambda>_.
      andthen (p_advance (length u)) (\<lambda>_. ret True)))) pending t (Some u) p"
  proof (rule emit_ok [OF w])
    fix p1
    assume p1: "holds t (u @ [NUL]) p1" "length t + length u < p_length p1" "same p p1"
      "p_depth p1 = p_depth p" "p_hooks p = [] \<Longrightarrow> p_hooks p1 = []"
    then have "p_offset p1 = length t" by (auto simp: holds_def)
    then show "wp (andthen (p_advance (length u)) (\<lambda>_. ret True)) (outcome pending t (Some u) (p_depth p) p)
        (\<lambda>_. False) p1"
      using p1 pendingI_advanced [OF p1(1) u]
      by (simp add: p_advance_def outcome_def roomy_def same_def)
  qed (simp_all add: outcome_fail')
  then show ?thesis using len assms(4) by (simp add: print_number_def Let_def)
qed

lemma store_append:
  "andthen (store pos x) (\<lambda>_. andthen (store (pos + length x) y) k) = andthen (store pos (x @ y)) k"
  by (auto simp: fun_eq_iff store_def run split: option.splits) (simp add: ac_simps)

lemma length_escape_char: "length (escape_char c) = 1 + escape_count c"
  by (auto simp: escape_char_def escape_count_def byte_def)

lemma length_escaped:
  "length (concat (map escape_char s)) = length s + sum_list (map escape_count s)"
  by (induction s) (simp_all add: length_escape_char)

lemma escape_char_plain: "escape_count c = 0 \<Longrightarrow> escape_char c = [c]"
  by (auto simp: escape_char_def escape_count_def split: if_splits)

lemma escaped_plain: "sum_list (map escape_count s) = 0 \<Longrightarrow> concat (map escape_char s) = s"
  by (induction s) (simp_all add: escape_char_plain)

lemma hex_char_not_NUL: "n < 16 \<Longrightarrow> hex_char n \<noteq> NUL"
  by (simp add: hex_char_def flip: byte_inject) (simp add: byte_def)

lemma c_string_escape_char: "c \<noteq> NUL \<Longrightarrow> c_string (escape_char c)"
  using byte_less [of c] by (auto simp: escape_char_def hex_char_not_NUL)

lemma c_string_quote: "pred_option c_string s \<Longrightarrow> c_string (quote s)"
proof (cases s)
  case (Some x)
  moreover assume "pred_option c_string s"
  ultimately have "c_string x" by simp
  then have "c_string (concat (map escape_char x))"
    by (induction x) (auto simp: c_string_escape_char)
  then show ?thesis using Some by (simp add: quote_def)
qed (simp add: quote_def)

lemma print_string_ptr_ok:
  assumes w: "written t p" and s: "pred_option c_string s"
  shows "adds (print_string_ptr s) pending t (Some (quote s)) p"
proof (cases s)
  case None
  then show ?thesis
    using emit_pending [OF w, of "quote s" 3] c_string_quote [OF s]
    by (simp add: print_string_ptr_def quote_def)
next
  case (Some x)
  let ?e = "concat (map escape_char x)"
  let ?n = "length x + sum_list (map escape_count x)"
  have len: "length (quote s) = ?n + 2"
    by (simp add: quote_def Some length_escaped)
  have q: "quote s @ [NUL] = (CHR 0x22 # ?e) @ [CHR 0x22, NUL]" by (simp add: quote_def Some)
  have two: "andthen (store pos (CHR 0x22 # ?e)) (\<lambda>_.
      andthen (store (pos + ?n + 1) [CHR 0x22, NUL]) (\<lambda>_. ret True)) =
      andthen (store pos (quote s @ [NUL])) (\<lambda>_. ret True)" for pos
    using store_append [of pos "CHR 0x22 # ?e" "[CHR 0x22, NUL]" "\<lambda>_. ret True"]
    by (simp add: q length_escaped add.assoc)
  have one: "sum_list (map escape_count x) = 0 \<Longrightarrow> CHR 0x22 # x @ [CHR 0x22, NUL] = quote s @ [NUL]"
    using escaped_plain [of x] by (simp add: q)
  have "print_string_ptr s =
      ensuring (?n + 3) (\<lambda>pos. andthen (store pos (quote s @ [NUL])) (\<lambda>_. ret True))"
    by (cases "sum_list (map escape_count x) = 0")
      (simp_all only: print_string_ptr_def Some option.case Let_def if_True if_False simp_thms
        one [unfolded Some] two [unfolded Some])
  then show ?thesis
    using emit_pending [OF w, of "quote s" "?n + 3"] len c_string_quote [OF s] by simp
qed

section \<open>Arrays\<close>

text \<open>The contract of a value printer at one format and depth.\<close>

definition value_prints :: "bool \<Rightarrow> nat \<Rightarrow> bool printm \<Rightarrow> string option \<Rightarrow> bool" where
  "value_prints fmt d m u \<longleftrightarrow>
     (\<forall>t p. written t p \<longrightarrow> format p = fmt \<longrightarrow> p_depth p = d \<longrightarrow> adds m pending t u p)"

lemma value_printsD:
  "value_prints fmt d m u \<Longrightarrow> written t p \<Longrightarrow> format p = fmt \<Longrightarrow> p_depth p = d \<Longrightarrow>
   adds m pending t u p"
  by (simp add: value_prints_def)

lemma outcome_None: "outcome W t None d p r p' \<longleftrightarrow> \<not> r"
  by (simp add: outcome_def)

text \<open>A value and then \<open>k\<close>, or the result false: the shape of both loops.\<close>

lemma value_then_ok:
  assumes "value_prints fmt d m u" and "written t p" and "format p = fmt" and "p_depth p = d"
    and k: "\<And>v p1. u = Some v \<Longrightarrow> written (t @ v) p1 \<Longrightarrow> same p p1 \<Longrightarrow> p_depth p1 = p_depth p \<Longrightarrow>
      adds_to k W (t @ v) w e p1 p1"
  shows "adds_to (andthen m (\<lambda>ok. if ok then andthen update_offset (\<lambda>_. k) else ret False)) W t
    (case u of None \<Rightarrow> None | Some v \<Rightarrow> map_option (\<lambda>x. v @ x) w) e p p"
proof (cases u)
  case None
  show ?thesis
  proof (rule wp_andthenI, rule wp_mono [OF value_printsD [OF assms(1-4)]])
    fix r p1
    assume "outcome pending t u (p_depth p) p r p1"
    then have "r = False" unfolding None outcome_None by blast
    then show "adds_to (if r then andthen update_offset (\<lambda>_. k) else ret False) W t
        (case u of None \<Rightarrow> None | Some v \<Rightarrow> map_option (\<lambda>x. v @ x) w) e p p1"
      by (simp only: None option.case if_False wp_ret outcome_None) simp
  qed
next
  case (Some v)
  have "adds m pending t (Some v) p" using value_printsD [OF assms(1-4)] Some by simp
  then have "adds_to (andthen m (\<lambda>ok. if ok then andthen update_offset (\<lambda>_. k) else ret False)) W t
      (map_option (\<lambda>x. v @ x) w) e p p"
    by (rule then_update_ok) (rule k [OF Some])
  then show ?thesis by (simp only: Some option.case)
qed

lemma print_elements_Cons:
  "print_elements (m # ms) =
     andthen m (\<lambda>ok. if ok then andthen update_offset (\<lambda>_.
       if ms = [] then ret True
       else
         andthen (gets format) (\<lambda>fmt.
         ensuring (length (array_separator fmt) + 1) (\<lambda>pos.
         andthen (store pos (array_separator fmt @ [NUL])) (\<lambda>_.
         andthen (p_advance (length (array_separator fmt))) (\<lambda>_. print_elements ms)))))
       else ret False)"
proof -
  have len: "length (array_separator b) = (if b then 2 else 1)" for b
    by (simp add: array_separator_def)
  show ?thesis
    unfolding print_elements.simps len Let_def
    unfolding array_separator_def
    by (rule arg_cong [where f = "andthen m"], rule ext) (simp only: if_not_P if_P not_not if_cancel split: if_split, simp)
qed

lemma c_string_separators [simp]:
  "c_string (array_separator fmt)" "c_string (newline fmt)" "c_string (colon fmt)"
  "c_string (indent fmt d)"
  by (simp_all add: array_separator_def newline_def colon_def indent_def tabs_def c_string_def)

lemma wp_gets_format:
  "format p = fmt \<Longrightarrow> wp (f fmt) Q E p \<Longrightarrow> wp (andthen (gets format) f) Q E p"
  by simp

lemma print_elements_ok:
  assumes "list_all2 (value_prints fmt d) ms us" and "written t p" and "format p = fmt"
    and "p_depth p = d"
  shows "adds_to (print_elements ms) written t (map_option (element_texts fmt) (those us)) d p p"
  using assms
proof (induction ms us arbitrary: t p rule: list_all2_induct)
  case Nil
  then show ?case by (simp add: outcome_def roomy_def)
next
  case (Cons m ms u us)
  let ?rest = "map_option (element_texts fmt) (those us)"
  let ?w = "if ms = [] then Some [] else map_option (\<lambda>x. array_separator fmt @ x) ?rest"
  have k: "adds_to (if ms = [] then ret True
       else
         andthen (gets format) (\<lambda>fmt.
         ensuring (length (array_separator fmt) + 1) (\<lambda>pos.
         andthen (store pos (array_separator fmt @ [NUL])) (\<lambda>_.
         andthen (p_advance (length (array_separator fmt))) (\<lambda>_. print_elements ms)))))
      written (t @ v) ?w d p1 p1"
    if p1: "written (t @ v) p1" "same p p1" "p_depth p1 = p_depth p" for v p1
  proof (cases "ms = []")
    case True
    then show ?thesis using p1 Cons.prems by (simp add: outcome_def roomy_def)
  next
    case False
    have "adds_to (andthen (gets format) (\<lambda>fmt.
         ensuring (length (array_separator fmt) + 1) (\<lambda>pos.
         andthen (store pos (array_separator fmt @ [NUL])) (\<lambda>_.
         andthen (p_advance (length (array_separator fmt))) (\<lambda>_. print_elements ms)))))
        written (t @ v) (map_option (\<lambda>x. array_separator fmt @ x) ?rest) d p1 p1"
      using p1 Cons.prems
      by (intro wp_gets_format [where fmt = fmt] emit_advance Cons.IH) (auto simp: same_def)
    then show ?thesis using False by simp
  qed
  have "map_option (element_texts fmt) (those (u # us)) =
    (case u of None \<Rightarrow> None | Some v \<Rightarrow> map_option (\<lambda>x. v @ x) ?w)"
    using Cons.hyps(2) by (cases us) (auto simp: option.map_comp comp_def split: option.splits)
  then show ?case unfolding print_elements_Cons
    by (simp only:) (rule value_then_ok [OF Cons.hyps(1) Cons.prems], rule k, assumption+)
qed

lemma flip_if: "(if \<not> b then x else y) = (if b then y else x)"
  by simp

text \<open>Like \<open>on_true_ok\<close>, for a first step that may have nothing to print.\<close>

lemma on_true_option:
  assumes m: "adds_to m written t u d0 p p"
    and k: "\<And>v p1. u = Some v \<Longrightarrow> written (t @ v) p1 \<Longrightarrow> same p p1 \<Longrightarrow> p_depth p1 = d0 \<Longrightarrow>
      adds_to k W (t @ v) w d p1 p1"
  shows "adds_to (on_true m k) W t (case u of None \<Rightarrow> None | Some v \<Rightarrow> map_option (\<lambda>x. v @ x) w) d p p"
  unfolding on_true_def
proof (rule wp_andthenI, rule wp_mono [OF m])
  fix r p1
  assume out: "outcome written t u d0 p r p1"
  show "adds_to (if r then k else ret False) W t
      (case u of None \<Rightarrow> None | Some v \<Rightarrow> map_option (\<lambda>x. v @ x) w) d p p1"
  proof (cases u)
    case None
    then have "r = False" using out unfolding None outcome_None by blast
    then show ?thesis by (simp only: None option.case if_False wp_ret outcome_None) simp
  next
    case (Some v)
    have "adds_to (if r then k else ret False) W t (map_option (\<lambda>x. v @ x) w) d p p1"
      by (rule outcome_then [OF out [unfolded Some]]) (rule k [OF Some])
    then show ?thesis by (simp only: Some option.case)
  qed
qed

lemma emit_close:
  assumes "written t p" and "length u \<le> n" and "n \<le> length u + 1" and "c_string u"
  shows "adds_to (ensuring n (\<lambda>pos. andthen (store pos (u @ [NUL])) (\<lambda>_.
      andthen (modify (\<lambda>p. p\<lparr>p_depth := p_depth p - 1\<rparr>)) (\<lambda>_. ret True))))
    pending t (Some u) (p_depth p - 1) p p"
proof (rule emit_ok [OF assms(1-3)])
  fix p1
  assume p1: "holds t (u @ [NUL]) p1" "length t + length u < p_length p1" "same p p1"
    "p_depth p1 = p_depth p" "p_hooks p = [] \<Longrightarrow> p_hooks p1 = []"
  have "pending (t @ u) (p1\<lparr>p_depth := p_depth p1 - 1\<rparr>)"
    using pendingI [OF p1(1) assms(4)] by (simp add: pending_def)
  then show "adds_to (andthen (modify (\<lambda>p. p\<lparr>p_depth := p_depth p - 1\<rparr>)) (\<lambda>_. ret True))
      pending t (Some u) (p_depth p - 1) p p1"
    using p1 by (simp add: outcome_def same_def roomy_def)
qed (use assms in \<open>simp_all add: outcome_fail'\<close>)

lemma print_array_ok:
  assumes els: "list_all2 (value_prints fmt (d + 1)) ms us" and p: "written t p" "format p = fmt"
    "p_depth p = d"
  shows "adds (print_array ms) pending t
    (map_option (\<lambda>ss. ''['' @ element_texts fmt ss @ '']'') (those us)) p"
proof -
  let ?close = "ensuring 2 (\<lambda>pos. andthen (store pos ('']'' @ [NUL])) (\<lambda>_.
      andthen (modify (\<lambda>p. p\<lparr>p_depth := p_depth p - 1\<rparr>)) (\<lambda>_. ret True)))"
  let ?us = "map_option (element_texts fmt) (those us)"
  let ?w = "case ?us of None \<Rightarrow> None | Some v \<Rightarrow> map_option (\<lambda>x. v @ x) (Some '']'')"
  have rest: "adds_to (on_true (print_elements ms) ?close) pending (t @ ''['') ?w d p1 p1"
    if p1: "written (t @ ''['') p1" "same p p1" "p_depth p1 = d + 1" for p1
  proof (rule on_true_option)
    show "adds_to (print_elements ms) written (t @ ''['') ?us (d + 1) p1 p1"
      using p p1 by (intro print_elements_ok [OF els]) (auto simp: same_def)
    fix v p2
    assume "written ((t @ ''['') @ v) p2" "p_depth p2 = d + 1"
    then show "adds_to ?close pending ((t @ ''['') @ v) (Some '']'') d p2 p2"
      using emit_close [of "(t @ ''['') @ v" p2 "'']''" 2] by simp
  qed
  have "adds_to (ensuring 1 (\<lambda>pos. andthen (store pos (''['' @ [])) (\<lambda>_.
      andthen (modify (\<lambda>p. p\<lparr>p_offset := p_offset p + length ''['', p_depth := Suc (p_depth p)\<rparr>)) (\<lambda>_.
      on_true (print_elements ms) ?close)))) pending t (map_option (\<lambda>v. ''['' @ v) ?w) d p p"
    by (rule emit_then [OF p(1)]) (use p rest in simp_all)
  moreover have "map_option (\<lambda>v. ''['' @ v) ?w =
      map_option (\<lambda>ss. ''['' @ element_texts fmt ss @ '']'') (those us)"
    by (simp split: option.splits)
  moreover have "print_array ms = ensuring 1 (\<lambda>pos. andthen (store pos (''['' @ [])) (\<lambda>_.
      andthen (modify (\<lambda>p. p\<lparr>p_offset := p_offset p + length ''['', p_depth := Suc (p_depth p)\<rparr>)) (\<lambda>_.
      on_true (print_elements ms) ?close)))"
    by (simp add: print_array_def on_true_def flip_if cong: if_cong)
  ultimately show ?thesis using p by simp
qed

section \<open>Objects\<close>

lemma print_indent_ok:
  assumes "written t p" and "format p = fmt" and "p_depth p = d"
  shows "adds print_indent written t (Some (indent fmt d)) p"
proof (cases fmt)
  case True
  have "adds (ensuring d (\<lambda>pos. andthen (store pos (tabs d @ [])) (\<lambda>_.
      andthen (p_advance (length (tabs d))) (\<lambda>_. ret True)))) written t (Some (tabs d)) p"
    by (rule emit_written [OF assms(1)]) (simp_all add: tabs_def c_string_def)
  then show ?thesis using assms True by (simp add: print_indent_def indent_def tabs_def)
next
  case False
  then show ?thesis using assms by (simp add: print_indent_def indent_def outcome_def roomy_def)
qed

lemma print_key_ok:
  assumes p: "written t p" "format p = fmt" and key: "pred_option c_string key"
  shows "adds (print_key key) written t (Some (quote key @ colon fmt)) p"
proof -
  let ?k = "\<lambda>fmt. ensuring (length (colon fmt)) (\<lambda>pos. andthen (store pos (colon fmt @ [])) (\<lambda>_.
      andthen (p_advance (length (colon fmt))) (\<lambda>_. ret True)))"
  have key_def: "print_key key = andthen (print_string_ptr key) (\<lambda>ok.
      if ok then andthen update_offset (\<lambda>_. andthen (gets format) ?k) else ret False)"
  proof -
    have len: "length (colon b) = (if b then 2 else 1)" for b by (simp add: colon_def)
    show ?thesis unfolding print_key_def on_true_def Let_def len
      unfolding colon_def append_Nil2 by (rule refl)
  qed
  have "adds_to (andthen (print_string_ptr key) (\<lambda>ok.
      if ok then andthen update_offset (\<lambda>_. andthen (gets format) ?k) else ret False))
    written t (map_option (\<lambda>v. quote key @ v) (Some (colon fmt))) (p_depth p) p p"
  proof (rule then_update_ok [OF print_string_ptr_ok [OF p(1) key]])
    fix p1
    assume "written (t @ quote key) p1" "same p p1" "p_depth p1 = p_depth p"
    then show "adds_to (andthen (gets format) ?k) written (t @ quote key) (Some (colon fmt)) (p_depth p) p1 p1"
      using p emit_written [of "t @ quote key" p1 "colon fmt" "length (colon fmt)" "[]"]
      by (intro wp_gets_format [where fmt = fmt]) (simp_all add: same_def)
  qed
  then show ?thesis by (simp only: key_def option.map)
qed

definition member_end :: "bool \<Rightarrow> bool \<Rightarrow> string" where
  "member_end fmt has_next = (if has_next then '','' else '''') @ newline fmt"

lemma print_member_end_ok:
  assumes "written t p" and "format p = fmt"
  shows "adds (print_member_end has_next) written t (Some (member_end fmt has_next)) p"
proof -
  have "print_member_end has_next = andthen (gets format) (\<lambda>fmt.
      ensuring (length (member_end fmt has_next) + 1) (\<lambda>pos.
      andthen (store pos (member_end fmt has_next @ [NUL])) (\<lambda>_.
      andthen (p_advance (length (member_end fmt has_next))) (\<lambda>_. ret True))))"
    by (simp only: print_member_end_def member_end_def newline_def Let_def)
  then show ?thesis using emit_written [OF assms(1), of "member_end fmt has_next" _ "[NUL]"] assms
    by (simp add: member_end_def)
qed

lemma member_texts_Cons:
  "member_texts fmt d (m # ms) =
     member_text fmt d m @ member_end fmt (ms \<noteq> []) @ member_texts fmt d ms"
  by (cases ms) (simp_all add: member_end_def)

lemma print_members_ok:
  assumes "list_all2 (\<lambda>km u. pred_option c_string (fst km) \<and> value_prints fmt d (snd km) u) kms us"
    and "written t p" and "format p = fmt" and "p_depth p = d"
  shows "adds_to (print_members kms) written t
    (map_option (\<lambda>ss. member_texts fmt d (zip (map fst kms) ss)) (those us)) d p p"
  using assms
proof (induction kms us arbitrary: t p rule: list_all2_induct)
  case Nil
  then show ?case by (simp add: outcome_def roomy_def)
next
  case (Cons km kms u us)
  obtain key m where km: "km = (key, m)" by (cases km)
  note key = Cons.hyps(1) [unfolded km, simplified, THEN conjunct1]
    and val = Cons.hyps(1) [unfolded km, simplified, THEN conjunct2]
  let ?rest = "map_option (\<lambda>ss. member_texts fmt d (zip (map fst kms) ss)) (those us)"
  let ?stop = "member_end fmt (kms \<noteq> [])"
  let ?w = "case u of None \<Rightarrow> None | Some v \<Rightarrow> map_option (\<lambda>x. v @ x) (map_option (\<lambda>x. ?stop @ x) ?rest)"
  have steps: "adds_to (print_members (km # kms)) written t
      (map_option (\<lambda>x. indent fmt d @ x) (map_option (\<lambda>x. (quote key @ colon fmt) @ x) ?w)) d p p"
    unfolding km print_members.simps
  proof (rule on_true_ok [OF print_indent_ok [OF Cons.prems]], rule on_true_ok)
    fix p1
    assume p1: "written (t @ indent fmt d) p1" "same p p1" "p_depth p1 = p_depth p"
    then show "adds (print_key key) written (t @ indent fmt d) (Some (quote key @ colon fmt)) p1"
      using Cons.prems by (intro print_key_ok key) (auto simp: same_def)
    fix p2
    assume p2: "written ((t @ indent fmt d) @ quote key @ colon fmt) p2" "same p1 p2"
      "p_depth p2 = p_depth p1"
    let ?t = "(t @ indent fmt d) @ quote key @ colon fmt"
    have "adds_to (andthen m (\<lambda>ok. if ok then andthen update_offset (\<lambda>_.
        on_true (print_member_end (kms \<noteq> [])) (print_members kms)) else ret False)) written ?t ?w d p2 p2"
    proof (rule value_then_ok [OF val p2(1)])
      show "format p2 = fmt" "p_depth p2 = d" using p1 p2 Cons.prems by (simp_all add: same_def)
      fix v p3
      assume p3: "written (?t @ v) p3" "same p2 p3" "p_depth p3 = p_depth p2"
      have eq: "format p3 = fmt" "p_depth p3 = d" using p1 p2 p3 Cons.prems by (simp_all add: same_def)
      show "adds_to (on_true (print_member_end (kms \<noteq> [])) (print_members kms)) written (?t @ v)
          (map_option (\<lambda>x. ?stop @ x) ?rest) d p3 p3"
        by (rule on_true_ok [OF print_member_end_ok [OF p3(1) eq(1)]], rule Cons.IH)
          (use eq in \<open>simp_all add: same_def\<close>)
    qed
    then show "adds_to (on_true m (andthen update_offset (\<lambda>_.
        on_true (print_member_end (kms \<noteq> [])) (print_members kms)))) written ?t ?w d p2 p2"
      by (simp only: on_true_def)
  qed
  have eq: "map_option (\<lambda>x. indent fmt d @ x) (map_option (\<lambda>x. (quote key @ colon fmt) @ x) ?w) =
      map_option (\<lambda>ss. member_texts fmt d (zip (map fst (km # kms)) ss)) (those (u # us))"
  proof (cases u)
    case None
    then show ?thesis by simp
  next
    case (Some v)
    have "those us = Some ss \<Longrightarrow> kms \<noteq> [] \<longleftrightarrow> zip (map fst kms) ss \<noteq> []" for ss
      using Cons.hyps(2) by (cases us) (auto split: option.splits dest: list_all2_lengthD)
    then show ?thesis using Some
      by (cases "those us") (simp_all add: km member_texts_Cons member_text_def)
  qed
  show ?case using steps unfolding eq .
qed

lemma print_object_ok:
  assumes ms: "list_all2 (\<lambda>km u. pred_option c_string (fst km) \<and> value_prints fmt (d + 1) (snd km) u) kms us"
    and p: "written t p" "format p = fmt" "p_depth p = d"
  shows "adds (print_object kms) pending t
    (map_option (\<lambda>ss. ''{'' @ newline fmt @
      member_texts fmt (d + 1) (zip (map fst kms) ss) @ indent fmt d @ ''}'') (those us)) p"
proof -
  let ?open = "''{'' @ newline fmt" and ?last = "indent fmt d @ ''}''"
  let ?close = "\<lambda>d'. ensuring (if fmt then d' + 1 else 2) (\<lambda>pos.
      andthen (store pos ((if fmt then tabs (d' - 1) else []) @ ''}'' @ [NUL])) (\<lambda>_.
      andthen (modify (\<lambda>p. p\<lparr>p_depth := p_depth p - 1\<rparr>)) (\<lambda>_. ret True)))"
  let ?us = "map_option (\<lambda>ss. member_texts fmt (d + 1) (zip (map fst kms) ss)) (those us)"
  let ?w = "case ?us of None \<Rightarrow> None | Some v \<Rightarrow> map_option (\<lambda>x. v @ x) (Some ?last)"
  have rest: "adds_to (on_true (print_members kms) (andthen (gets p_depth) ?close)) pending
      (t @ ?open) ?w d p1 p1"
    if p1: "written (t @ ?open) p1" "same p p1" "p_depth p1 = Suc d" for p1
  proof (rule on_true_option)
    show "adds_to (print_members kms) written (t @ ?open) ?us (d + 1) p1 p1"
      using p p1 by (intro print_members_ok [OF ms]) (auto simp: same_def)
    fix v p2
    assume p2: "written ((t @ ?open) @ v) p2" "p_depth p2 = d + 1"
    have "adds_to (ensuring (if fmt then d + 2 else 2) (\<lambda>pos.
        andthen (store pos (?last @ [NUL])) (\<lambda>_.
        andthen (modify (\<lambda>p. p\<lparr>p_depth := p_depth p - 1\<rparr>)) (\<lambda>_. ret True))))
        pending ((t @ ?open) @ v) (Some ?last) d p2 p2"
      using emit_close [OF p2(1), of ?last "if fmt then d + 2 else 2"] p2(2)
      by (simp add: indent_def tabs_def c_string_def)
    then show "adds_to (andthen (gets p_depth) ?close) pending ((t @ ?open) @ v) (Some ?last) d p2 p2"
      using p2(2) by (cases fmt) (simp_all add: indent_def)
  qed
  have "adds_to (ensuring (length ?open + 1) (\<lambda>pos. andthen (store pos (?open @ [])) (\<lambda>_.
      andthen (modify (\<lambda>p. p\<lparr>p_offset := p_offset p + length ?open, p_depth := Suc (p_depth p)\<rparr>)) (\<lambda>_.
      on_true (print_members kms) (andthen (gets p_depth) ?close))))) pending t
      (map_option (\<lambda>v. ?open @ v) ?w) d p p"
    by (rule emit_then [OF p(1)]) (use p rest in \<open>simp_all add: newline_def\<close>)
  moreover have "map_option (\<lambda>v. ?open @ v) ?w =
      map_option (\<lambda>ss. ''{'' @ newline fmt @
        member_texts fmt (d + 1) (zip (map fst kms) ss) @ indent fmt d @ ''}'') (those us)"
    by (cases "those us") simp_all
  moreover have "wp (print_object kms) Q E p \<longleftrightarrow>
      wp (ensuring (length ?open + 1) (\<lambda>pos. andthen (store pos (?open @ [])) (\<lambda>_.
      andthen (modify (\<lambda>p. p\<lparr>p_offset := p_offset p + length ?open, p_depth := Suc (p_depth p)\<rparr>)) (\<lambda>_.
      on_true (print_members kms) (andthen (gets p_depth) ?close))))) Q E p" for Q E
  proof -
    have modify: "(\<lambda>p. p\<lparr>p_depth := p_depth p + 1, p_offset := p_offset p + n\<rparr>) =
        (\<lambda>p. p\<lparr>p_offset := p_offset p + n, p_depth := Suc (p_depth p)\<rparr>)" for n
      by (rule ext) simp
    show ?thesis unfolding print_object_def wp_andthen [of "gets format"] wp_gets p(2) Let_def modify
      by (cases fmt) (simp_all add: newline_def numeral_3_eq_3)
  qed
  ultimately show ?thesis using p by simp
qed

section \<open>The refinement\<close>

text \<open>What the C types guarantee of an item (strings are C strings), and that its numbers fit the
  26 bytes of \<open>print_number\<close>.\<close>

fun printable :: "cJSON \<Rightarrow> bool" where
  "printable (Item k r c vs vi vd n ch) \<longleftrightarrow>
     (k = cJSON_Number \<longrightarrow> length (number_text vd vi) \<le> 25 \<and> c_string (number_text vd vi)) \<and>
     pred_option c_string vs \<and> pred_option c_string n \<and> (\<forall>it \<in> set ch. printable it)"

lemma printable_sel:
  assumes "printable it"
  shows "kind it = cJSON_Number \<Longrightarrow> length (number_text (valuedouble it) (valueint it)) \<le> 25 \<and>
      c_string (number_text (valuedouble it) (valueint it))"
    "pred_option c_string (valuestring it)" "pred_option c_string (name it)"
    "\<And>c. c \<in> set (child it) \<Longrightarrow> printable c"
  using assms by (cases it; auto)+

lemma print_value_prints:
  "printable it \<Longrightarrow> value_prints fmt d (print_value it) (render fmt d it)"
proof (induction fmt d it rule: render.induct)
  case (1 fmt d it)
  note sel = printable_sel [OF "1.prems"]
  have children: "value_prints fmt (d + 1) (print_value c) (render fmt (d + 1) c)"
    if "c \<in> set (child it)" "kind it = cJSON_Array \<or> kind it = cJSON_Object" for c
    using that sel(4) "1.IH" by blast
  show ?case unfolding value_prints_def
  proof (intro allI impI)
    fix t p
    assume p: "written t p" "format p = fmt" "p_depth p = d"
    show "adds (print_value it) pending t (render fmt d it) p"
    proof (cases "kind it")
      case cJSON_Number
      then show ?thesis using print_number_ok [OF p(1)] sel(1)
        by (subst print_value.simps, subst render.simps) simp
    next
      case cJSON_String
      then show ?thesis using print_string_ptr_ok [OF p(1) sel(2)]
        by (subst print_value.simps, subst render.simps) (simp add: print_string_def)
    next
      case cJSON_Raw
      then show ?thesis using print_literal_ok [OF p(1)] sel(2)
        by (subst print_value.simps, subst render.simps)
          (auto simp: print_raw_def outcome_None split: option.splits)
    next
      case cJSON_Array
      have "list_all2 (value_prints fmt (d + 1)) (map print_value (child it))
          (map (render fmt (d + 1)) (child it))"
        using children cJSON_Array by (auto simp: list_all2_conv_all_nth)
      from print_array_ok [OF this p] show ?thesis
        by (subst print_value.simps, subst render.simps) (simp add: cJSON_Array)
    next
      case cJSON_Object
      have "list_all2 (\<lambda>km u. pred_option c_string (fst km) \<and> value_prints fmt (d + 1) (snd km) u)
          (map (\<lambda>c. (name c, print_value c)) (child it)) (map (render fmt (d + 1)) (child it))"
        using children cJSON_Object printable_sel(3) [OF sel(4)]
        by (auto simp: list_all2_conv_all_nth)
      from print_object_ok [OF this p] show ?thesis
        by (subst print_value.simps, subst render.simps) (simp add: cJSON_Object comp_def)
    qed (subst print_value.simps, subst render.simps,
        simp add: print_literal_ok [OF p(1)] outcome_None)+
  qed
qed

text \<open>\<open>cJSON_Print\<close> as a whole: the text, or NULL.\<close>

lemma printed_text_written:
  "written t p \<Longrightarrow> printed_text p = Inr t"
proof -
  assume "written t p"
  then obtain m where m: "buffer p = Some m" "length t < length m" "p_offset p = length t"
      "take (length t) m = map Some t" by (auto simp: written_def)
  then show ?thesis by (auto simp: printed_text_def comp_def)
qed

definition prints_text :: "string option \<Rightarrow> bool list \<Rightarrow> string option \<Rightarrow> bool list \<Rightarrow> bool" where
  "prints_text u h r h' \<longleftrightarrow>
     (case u of
        None \<Rightarrow> r = None
      | Some s \<Rightarrow> (r = None \<or> r = Some s) \<and>
                  (h = [] \<and> int (length s) + 2 \<le> INT_MAX \<longrightarrow> r = Some s \<and> h' = []))"

lemma fresh_buffer_written: "written [] (fresh_buffer 256 fmt h)"
  by (simp add: written_def fresh_buffer_def)

lemma print_ok:
  assumes it: "printable it"
  shows "wp (print (Some it) fmt) (prints_text (render fmt 0 it) h) (\<lambda>_. False) h"
proof -
  have rest: "wp (\<lambda>h.
         case print_value it (fresh_buffer 256 fmt h) of
           Inl e \<Rightarrow> Inl e
         | Inr (printed, p) \<Rightarrow>
             if \<not> printed then Inr (None, p_hooks p)
             else
               (case update_offset p of
                  Inl e \<Rightarrow> Inl e
                | Inr (_, p) \<Rightarrow>
                    andthen alloc (\<lambda>ok.
                    if ok then andthen (lift (printed_text p)) (\<lambda>s. ret (Some s)) else ret None)
                      (p_hooks p))) (prints_text (render fmt 0 it) h) (\<lambda>_. False) h1"
    if h1: "h = [] \<Longrightarrow> h1 = []" for h1
  proof -
    let ?p = "fresh_buffer 256 fmt h1"
    have "adds (print_value it) pending [] (render fmt 0 it) ?p"
      using value_printsD [OF print_value_prints [OF it] fresh_buffer_written]
      by (simp add: fresh_buffer_def)
    then obtain r p1 where r: "print_value it ?p = Inr (r, p1)"
        and out: "outcome pending [] (render fmt 0 it) 0 ?p r p1"
      by (rule wp_totalE) (simp add: fresh_buffer_def)
    have roomy: "roomy n ?p \<longleftrightarrow> h1 = [] \<and> int n + 2 \<le> INT_MAX" for n
      by (simp add: roomy_def fresh_buffer_def)
    show ?thesis
    proof (cases r)
      case False
      then show ?thesis using r out h1
        by (auto simp: wp_def prints_text_def outcome_def roomy split: option.splits)
    next
      case True
      then obtain s where s: "render fmt 0 it = Some s" "pending s p1"
          "h1 = [] \<and> int (length s) + 2 \<le> INT_MAX \<Longrightarrow> p_hooks p1 = []"
        using out by (auto simp: outcome_def roomy split: option.splits)
      let ?p2 = "p1\<lparr>p_offset := length s\<rparr>"
      have "update_offset p1 = Inr ((), ?p2) \<and> written s ?p2"
        using update_offset_ok [OF s(2)] by (auto simp: wp_total)
      then have "update_offset p1 = Inr ((), ?p2)" "printed_text ?p2 = Inr s"
        by (auto intro: printed_text_written)
      then show ?thesis using r True s h1
        by (auto simp: wp_def run alloc_def prints_text_def split: list.splits)
    qed
  qed
  have fail: "prints_text u (b # bs) None bs" for u b bs
    by (simp add: prints_text_def split: option.splits)
  show ?thesis
    unfolding print_def option.case
    by (rule wp_andthenI, unfold wp_alloc, cases h, use rest [of "[]"] in simp,
        case_tac a, use rest fail in simp_all)
qed

text \<open>
  C10: the printer refines the rendering. For every item and every behaviour of the allocator,
  \<open>cJSON_Print\<close> returns without touching memory outside its buffer and without reading an
  unwritten byte; what it returns is NULL or exactly the rendered text; and it is the text
  when no allocation fails and the text is shorter than \<open>INT_MAX - 1\<close>.
\<close>

theorem cJSON_Print_refines:
  assumes "printable it"
  shows "\<exists>r h'. cJSON_Print (Some it) h = Inr (r, h') \<and>
    (case render True 0 it of
       None \<Rightarrow> r = None
     | Some s \<Rightarrow> (r = None \<or> r = Some s) \<and>
                 (h = [] \<and> int (length s) + 2 \<le> INT_MAX \<longrightarrow> r = Some s \<and> h' = []))"
  using print_ok [OF assms, of True h] by (simp add: cJSON_Print_def wp_total prints_text_def)

theorem cJSON_Print_refines_witness:
  "\<exists>r h'. cJSON_Print (Some (json_object [member ''message'' (json_string ''status'')])) [True, False] =
      Inr (r, h') \<and>
    (case render True 0 (json_object [member ''message'' (json_string ''status'')]) of
       None \<Rightarrow> r = None
     | Some s \<Rightarrow> (r = None \<or> r = Some s) \<and>
                 ([True, False] = ([] :: bool list) \<and> int (length s) + 2 \<le> INT_MAX \<longrightarrow>
                  r = Some s \<and> h' = []))"
  by (rule cJSON_Print_refines) (simp add: json_object_def json_string_def member_def)

section \<open>The items the program builds\<close>

lemma length_show_int:
  assumes "is_int i"
  shows "length (show_int i) \<le> 11"
proof -
  have "length (show_nat n) \<le> 10" if "n < 10 ^ 10" for n
    using length_show_nat [OF that] by simp
  from this [of "nat i"] this [of "nat (- i)"] show ?thesis
    using assms by (auto simp: show_int_def int_bounds nat_less_iff)
qed

lemma number_text_int: "is_int i \<Longrightarrow> number_text (Fin (of_int i)) i = show_int i"
  by (simp add: number_text_def double_of_int_is_int)

lemma printable_json_int [simp]: "is_int i \<Longrightarrow> printable (json_int i)"
  using length_show_int [of i] by (simp add: json_int_def number_text_int)

lemma printable_json_string [simp]: "c_string s \<Longrightarrow> printable (json_string s)"
  by (simp add: json_string_def)

lemma printable_json_object [simp]:
  "printable (json_object ch) \<longleftrightarrow> (\<forall>it \<in> set ch. printable it)"
  by (simp add: json_object_def)

lemma printable_member [simp]: "printable it \<Longrightarrow> c_string n \<Longrightarrow> printable (member n it)"
  by (cases it) (simp add: member_def)

lemma render_json:
  "is_int i \<Longrightarrow> render fmt d (json_int i) = Some (show_int i)"
  "render fmt d (json_string s) = Some (quote (Some s))"
  by (subst render.simps, simp add: number_text_int)+

lemma render_member [simp]: "render fmt d (member n it) = render fmt d it"
  by (simp only: render.simps [of fmt d "member n it"] render.simps [of fmt d it] member_sel)

text \<open>With an allocator that does not fail, printing is rendering.\<close>

lemma cJSON_Print_Nil:
  assumes "printable it" and "render True 0 it = Some s" and "int (length s) + 2 \<le> INT_MAX"
  shows "cJSON_Print (Some it) [] = Inr (Some s, [])"
  using print_ok [OF assms(1), of True "[]"] assms(2,3)
  by (auto simp: cJSON_Print_def wp_total prints_text_def)

end
