(* ===== verification/World.thy ===== *)
theory World
  imports Emergency UdpClients CJsonParseSafe CJsonRender
begin

text \<open>
  The state of the server process (the globals of \<open>server.c\<close> and the locals of
  \<open>start_server\<close> that live through the loop), what the operating system answers to it, and
  the operations every handler uses: the log, the JSON messages to a client, the addresses
  in text form, and the registries with their log entries.

  The environment \<open>os\<close> holds the answers of the system calls during one round of the event
  loop. Effects outside the process are the list \<open>outputs\<close> of the system calls that make them,
  whatever these return; what is only printed on the terminal is left out.
\<close>

section \<open>The operating system\<close>

record os =
  home :: "string option"                     \<comment> \<open>\<open>getenv("HOME")\<close>\<close>
  stat_ok :: "string \<Rightarrow> bool"
  mkdir_ok :: "string \<Rightarrow> bool"
  fopen_ok :: "string \<Rightarrow> bool"
  now :: string                               \<comment> \<open>local time, \<open>%Y-%m-%d %H:%M:%S\<close>\<close>
  shm_calls :: shm_os
  getpeername :: "int \<Rightarrow> sockaddr option"
  accepted :: "(int \<times> sockaddr) option"      \<comment> \<open>\<open>accept\<close> on the TCP socket\<close>
  unix_accepted :: "int option"              \<comment> \<open>\<open>accept\<close> on the Unix socket\<close>
  incoming :: "int \<Rightarrow> string option"         \<comment> \<open>bytes \<open>recv\<close> finds; \<open>None\<close> is an error\<close>
  datagram :: "(string \<times> sockaddr \<times> nat) option"
  sendto_ok :: bool
  broken_pipe :: "int \<Rightarrow> bool"              \<comment> \<open>the peer of this connection has reset it\<close>
  fifo_opens :: bool
  fifo_data :: "string option"
  nesting_limit :: nat                       \<comment> \<open>\<open>CJSON_NESTING_LIMIT\<close>\<close>
  ready :: "(int \<Rightarrow> bool) option"            \<comment> \<open>\<open>select\<close>; \<open>None\<close> is an error\<close>

datatype effect =
    Send int string
  | Sendto int sockaddr nat string
  | Close int
  | Kill int

section \<open>The server\<close>

record server =
  running :: bool
  alerts_pid :: int
  power_outage_pid :: int
  tcp_clients :: TCPClientList
  udp_clients :: UDPClientList
  entry_alerts_count :: EntryAlertsCount
  emergency_info :: EmergencyInfo
  segments :: shm
  master_fds :: "int set"
  max_fd :: int
  heap :: "bool list"
  logs :: "(string \<times> string) list"           \<comment> \<open>log file and line, in order\<close>
  outputs :: "effect list"

type_synonym 'a srv = "(server, 'a) prog"

definition with_heap :: "'a heapm \<Rightarrow> 'a srv" where
  "with_heap = zoom heap (\<lambda>h s. s\<lparr>heap := h\<rparr>)"

definition emit :: "effect \<Rightarrow> unit srv" where
  "emit x = modify (\<lambda>s. s\<lparr>outputs := outputs s @ [x]\<rparr>)"

section \<open>The log\<close>

definition LOG_DIR :: string where "LOG_DIR = ''/.refuge/''"
definition LOG_FILENAME :: string where "LOG_FILENAME = ''refuge.log''"
definition ADMIN_USER :: string where "ADMIN_USER = ''ubuntu''"
definition BUFFER_SIZE :: nat where "BUFFER_SIZE = 1024"
definition BUFFER_256 :: nat where "BUFFER_256 = 256"
definition BUFFER_521 :: nat where "BUFFER_521 = 512"

definition get_home_dir :: "os \<Rightarrow> string srv" where
  "get_home_dir os = (case home os of None \<Rightarrow> halt (Exit 1) | Some h \<Rightarrow> ret h)"

definition log_event :: "os \<Rightarrow> string \<Rightarrow> unit srv" where
  "log_event os message =
     andthen (get_home_dir os) (\<lambda>homeDir.
     let logDirPath = snprintf BUFFER_256 (homeDir @ LOG_DIR) in
     if \<not> stat_ok os logDirPath \<and> \<not> mkdir_ok os logDirPath then ret ()
     else
       let logFilePath = snprintf BUFFER_521 (logDirPath @ LOG_FILENAME) in
       if \<not> fopen_ok os logFilePath then ret ()
       else
         let timestamp = ''['' @ now os @ '']'' in
         modify (\<lambda>s. s\<lparr>logs := logs s @ [(logFilePath, timestamp @ '' '' @ message)]\<rparr>))"

definition log_message :: "os \<Rightarrow> string \<Rightarrow> string \<Rightarrow> unit srv" where
  "log_message os message what = log_event os (snprintf BUFFER_256 (message @ what))"

definition log_event_json :: "os \<Rightarrow> cJSON option \<Rightarrow> unit srv" where
  "log_event_json os json =
     andthen (with_heap (cJSON_Print json)) (\<lambda>jsonString.
     andthen (deref jsonString) (\<lambda>s. log_event os s))"

section \<open>Buffers and addresses\<close>

text \<open>A buffer of \<open>n\<close> bytes after \<open>recv\<close> stored \<open>bytes\<close> in it and the code wrote the
  terminator behind them.\<close>

definition received_string :: "nat \<Rightarrow> string \<Rightarrow> stop + string" where
  "received_string n bytes =
     (if length bytes < n then Inr (upto_nul bytes) else Inl (Fault Out_of_bounds))"

text \<open>A text buffer that \<open>inet_ntop\<close> was to fill.\<close>

definition filled :: "string option \<Rightarrow> string srv" where
  "filled r = (case r of None \<Rightarrow> fault Uninitialised | Some s \<Rightarrow> ret s)"

definition get_tcp_client_ip :: "os \<Rightarrow> int \<Rightarrow> string srv" where
  "get_tcp_client_ip os client_fd =
     (case getpeername os client_fd of
        None \<Rightarrow> ret ''Unknown''
      | Some (Sockaddr_in _ a) \<Rightarrow> filled (inet_ntop4 a INET6_ADDRSTRLEN)
      | Some (Sockaddr_in6 _ _ a) \<Rightarrow> filled (inet_ntop6 a INET6_ADDRSTRLEN)
      | Some (Sockaddr_other _ _ _ a) \<Rightarrow> filled (inet_ntop6 a INET6_ADDRSTRLEN))"

text \<open>The text is \<open>None\<close> when the buffer is left as it was.\<close>

definition get_udp_client_info :: "sockaddr \<Rightarrow> nat \<Rightarrow> string option \<times> int" where
  "get_udp_client_info addr ip_buffer_size =
     (case addr of
        Sockaddr_in p a \<Rightarrow> (inet_ntop4 a ip_buffer_size, int (unat p))
      | Sockaddr_in6 p _ a \<Rightarrow> (inet_ntop6 a ip_buffer_size, int (unat p))
      | Sockaddr_other _ _ _ _ \<Rightarrow> (None, - 1))"

section \<open>Messages to clients\<close>

text \<open>\<open>send\<close> on a connection the peer has reset raises SIGPIPE, which the server neither
  handles nor ignores. The effect is the call: what \<open>send\<close> returns is only printed.\<close>

definition send_call :: "os \<Rightarrow> int \<Rightarrow> string \<Rightarrow> unit srv" where
  "send_call os fd m = (if broken_pipe os fd then halt Killed else emit (Send fd m))"

definition send_json_to_tcp_client :: "os \<Rightarrow> int \<Rightarrow> cJSON option \<Rightarrow> unit srv" where
  "send_json_to_tcp_client os fd json =
     andthen (with_heap (cJSON_Print json)) (\<lambda>json_string.
     andthen (deref json_string) (\<lambda>s. send_call os fd s))"

text \<open>Only after a successful \<open>sendto\<close> the code reads the client's address to print it.\<close>

definition send_json_to_udp_client :: "os \<Rightarrow> int \<Rightarrow> sockaddr \<Rightarrow> nat \<Rightarrow> cJSON option \<Rightarrow> unit srv" where
  "send_json_to_udp_client os fd addr addrlen json_response =
     andthen (with_heap (cJSON_Print json_response)) (\<lambda>json_string.
     andthen (deref json_string) (\<lambda>s.
     andthen (emit (Sendto fd addr addrlen s)) (\<lambda>_.
     if sendto_ok os then
       andthen (filled (fst (get_udp_client_info addr INET6_ADDRSTRLEN))) (\<lambda>_. ret ())
     else ret ())))"

text \<open>The object with the one member \<open>message\<close>.\<close>

definition message_object :: "string \<Rightarrow> cJSON option heapm" where
  "message_object text =
     andthen cJSON_CreateObject (\<lambda>ob.
     andthen (cJSON_AddStringToObject ob ''message'' (Some text)) (\<lambda>(_, ob). ret ob))"

section \<open>The registries and broadcasts\<close>

definition on_tcp :: "(TCPClientList, 'a) prog \<Rightarrow> 'a srv" where
  "on_tcp = zoom tcp_clients (\<lambda>l s. s\<lparr>tcp_clients := l\<rparr>)"

definition on_udp :: "(UDPClientList, 'a) prog \<Rightarrow> 'a srv" where
  "on_udp = zoom udp_clients (\<lambda>l s. s\<lparr>udp_clients := l\<rparr>)"

text \<open>The number of clients goes through a text buffer of 10 bytes.\<close>

definition log_total :: "os \<Rightarrow> string \<Rightarrow> nat \<Rightarrow> unit srv" where
  "log_total os message n = log_message os message (snprintf 10 (show_int (int n)))"

definition add_tcp_client :: "os \<Rightarrow> int \<Rightarrow> unit srv" where
  "add_tcp_client os client_fd =
     andthen (on_tcp (tcp_add client_fd)) (\<lambda>added.
     if added then
       andthen (gets (\<lambda>s. num_clients (tcp_clients s)))
         (log_total os ''Added TCP client. Total connected: '')
     else ret ())"

definition remove_tcp_client :: "os \<Rightarrow> int \<Rightarrow> unit srv" where
  "remove_tcp_client os client_fd =
     andthen (on_tcp (tcp_remove client_fd)) (\<lambda>removed.
     if removed then
       andthen (gets (\<lambda>s. num_clients (tcp_clients s)))
         (log_total os ''TCP client disconnected. Total connected: '')
     else ret ())"

definition add_udp_client :: "os \<Rightarrow> UDPClientData \<Rightarrow> unit srv" where
  "add_udp_client os client =
     andthen (on_udp (udp_add client)) (\<lambda>added.
     if added then
       andthen (gets (\<lambda>s. num_udp_clients (udp_clients s)))
         (log_total os ''Added UDP client. Total cached: '')
     else ret ())"

text \<open>The message may be a NULL pointer, which is only read when there is a client.\<close>

definition send_to_all_tcp_clients :: "os \<Rightarrow> string option \<Rightarrow> unit srv" where
  "send_to_all_tcp_clients os message =
     andthen (gets (\<lambda>s. num_clients (tcp_clients s))) (\<lambda>n.
     andthen (on_tcp (on_fds (collect id n 0))) (\<lambda>fds.
     block (map (\<lambda>fd. andthen (deref message) (\<lambda>m. send_call os fd m)) fds)))"

definition send_to_all_udp_clients :: "string \<Rightarrow> unit srv" where
  "send_to_all_udp_clients message =
     andthen (gets (\<lambda>s. num_udp_clients (udp_clients s))) (\<lambda>n.
     andthen (on_udp (on_clients (collect id n 0))) (\<lambda>cs.
     block (map (\<lambda>c. emit (Sendto (sockfd c) (client_addr c) (addr_len c) message)) cs)))"

text \<open>The supplies through the pointers to the segments.\<close>

definition store_supplies :: "supply_pointers \<Rightarrow> server \<Rightarrow> server" where
  "store_supplies ps s = s\<lparr>segments :=
     \<lparr>food_segment = (case fst ps of None \<Rightarrow> food_segment (segments s) | Some f \<Rightarrow> Some f),
      medicine_segment = (case snd ps of None \<Rightarrow> medicine_segment (segments s) | Some d \<Rightarrow> Some d)\<rparr>\<rparr>"

definition supply_pointers :: "os \<Rightarrow> server \<Rightarrow> supply_pointers" where
  "supply_pointers os s = (get_food_supply (shm_calls os) (segments s),
                           get_medicine_supply (shm_calls os) (segments s))"

definition update_supplies :: "os \<Rightarrow> cJSON option \<Rightarrow> unit srv" where
  "update_supplies os json = zoom (supply_pointers os) store_supplies (update_supplies_from_json json)"

end
