(* ===== verification/Sensors.thy ===== *)
theory Sensors
  imports World
begin

text \<open>
  The child process of the infection alerts (\<open>lib/alertInfection\<close> and the parts of \<open>server.c\<close>
  that start and run it): the sensors, their random temperatures and the alerts it writes into
  the FIFO. A \<open>float\<close> is the rational it stands for; every operation rounds to the nearest
  binary32 value, ties to even. No value here is near the ends of the type's range.
\<close>

section \<open>Numbers\<close>

definition RAND_MAX :: int where
  "RAND_MAX = 2147483647"

definition to_float :: "rat \<Rightarrow> rat" where
  "to_float q =
     (if q = 0 then 0
      else let u = pow2 (max (binexp \<bar>q\<bar> - 23) (- 149))
           in sgn q * (of_int (round_half_even (\<bar>q\<bar> / u)) * u))"

text \<open>\<open>printf\<close> with \<open>%.1f\<close>: the exact value rounded to one decimal, ties to even.\<close>

definition show_tenths :: "rat \<Rightarrow> string" where
  "show_tenths q =
     (let n = nat (round_half_even (\<bar>q\<bar> * 10))
      in (if q < 0 then ''-'' else []) @ show_nat (n div 10) @ ''.'' @ show_nat (n mod 10))"

section \<open>Sensors\<close>

text \<open>A temperature that no one has stored yet is \<open>None\<close>.\<close>

record Sensor =
  sensor_name :: string
  temperature :: "rat option"

definition THRESHOLD_TEMP :: rat where
  "THRESHOLD_TEMP = 38"

definition NUM_SENSORS :: nat where
  "NUM_SENSORS = 4"

text \<open>What the process sees: its sensors, the coming results of \<open>rand\<close>, and the bytes in the
  FIFO. Whether the FIFO opens, and how many bytes of a write it takes, are the system's.\<close>

record alerts =
  sensors :: "Sensor list"
  rands :: "nat \<Rightarrow> int"
  fifo :: string

record fifo_os =
  fifo_writable :: bool
  write_takes :: "nat \<Rightarrow> nat option"

definition next_rand :: "(alerts, int) prog" where
  "next_rand =
     andthen (gets (\<lambda>a. rands a 0)) (\<lambda>r.
     andthen (modify (\<lambda>a. a\<lparr>rands := (\<lambda>i. rands a (Suc i))\<rparr>)) (\<lambda>_. ret r))"

definition get_temperature :: "(alerts, rat) prog" where
  "get_temperature =
     andthen next_rand (\<lambda>r.
     let random_value = to_float (to_float (of_int r) / to_float (of_int RAND_MAX));
         high_temperature_probability = to_float (1 / 10 ^ 11)
     in andthen next_rand (\<lambda>r'.
        if random_value < high_temperature_probability
        then ret (to_float (to_float (of_int (r' mod 51 + 380)) / 10))
        else ret (to_float (to_float (of_int (r' mod 40 + 350)) / 10))))"

definition sensor_at :: "nat \<Rightarrow> (alerts, Sensor) prog" where
  "sensor_at i =
     andthen (gets sensors) (\<lambda>ss. if i < length ss then ret (ss ! i) else fault Out_of_bounds)"

text \<open>The loop of \<open>update_sensor_values\<close> over \<open>k\<close> sensors from \<open>i\<close> on.\<close>

primrec update_sensor_values :: "nat \<Rightarrow> nat \<Rightarrow> (alerts, unit) prog" where
  "update_sensor_values 0 i = ret ()"
| "update_sensor_values (Suc k) i =
     andthen get_temperature (\<lambda>t.
     andthen (sensor_at i) (\<lambda>s.
     andthen (modify (\<lambda>a. a\<lparr>sensors := (sensors a)[i := s\<lparr>temperature := Some t\<rparr>]\<rparr>)) (\<lambda>_.
     update_sensor_values k (i + 1))))"

definition alert_text :: "string \<Rightarrow> rat \<Rightarrow> string" where
  "alert_text entry degrees =
     entry @ '', ALERT, '' @ show_tenths degrees @ [CHR 0xC2, CHR 0xB0] @ ''C ''"

definition send_alert :: "fifo_os \<Rightarrow> rat \<Rightarrow> string \<Rightarrow> (alerts, unit) prog" where
  "send_alert os degrees entry =
     (if \<not> fifo_writable os then ret ()
      else
        let alert_message = alert_text entry degrees in
        if BUFFER_SIZE \<le> length alert_message then fault Out_of_bounds
        else
          (case write_takes os (length alert_message) of
             None \<Rightarrow> ret ()
           | Some n \<Rightarrow> modify (\<lambda>a. a\<lparr>fifo := fifo a @ take n alert_message\<rparr>)))"

primrec check_temperature_threshold :: "fifo_os \<Rightarrow> nat \<Rightarrow> nat \<Rightarrow> (alerts, unit) prog" where
  "check_temperature_threshold os 0 i = ret ()"
| "check_temperature_threshold os (Suc k) i =
     andthen (sensor_at i) (\<lambda>s.
     andthen (case temperature s of None \<Rightarrow> fault Uninitialised | Some t \<Rightarrow> ret t) (\<lambda>t.
     andthen (if THRESHOLD_TEMP < t then send_alert os t (sensor_name s) else ret ()) (\<lambda>_.
     check_temperature_threshold os k (i + 1))))"

text \<open>The names have room in the 20 bytes of their arrays.\<close>

definition initiateAlertModule :: "bool \<Rightarrow> stop + Sensor list" where
  "initiateAlertModule malloc_ok =
     (if \<not> malloc_ok then Inl (Exit 1)
      else Inr (map (\<lambda>n. \<lparr>sensor_name = n, temperature = None\<rparr>)
        [''NORTH ENTRY'', ''SOUTH ENTRY'', ''WEST ENTRY'', ''EAST ENTRY'']))"

text \<open>One turn of the loop of the child process.\<close>

definition alerts_cycle :: "fifo_os \<Rightarrow> (alerts, unit) prog" where
  "alerts_cycle os =
     block [update_sensor_values NUM_SENSORS 0, check_temperature_threshold os NUM_SENSORS 0]"

section \<open>The temperatures\<close>

text \<open>A tenth of a degree, as the code computes it.\<close>

definition tenths :: "int \<Rightarrow> rat" where
  "tenths n = to_float (to_float (of_int n) / 10)"

lemma round_half_even_close: "\<bar>of_int (round_half_even x) - x\<bar> \<le> 1 / 2"
  using floor_correct [of x] by (auto simp: round_half_even_def Let_def abs_le_iff)

lemma round_half_even_unique: "\<bar>x - of_int n\<bar> < 1 / 2 \<Longrightarrow> round_half_even x = n"
proof -
  assume "\<bar>x - of_int n\<bar> < 1 / 2"
  with round_half_even_close [of x] have "\<bar>of_int (round_half_even x) - of_int n :: rat\<bar> < 1" by linarith
  then have "\<bar>of_int (round_half_even x - n) :: rat\<bar> < of_int 1" by simp
  then have "\<bar>round_half_even x - n\<bar> < 1" by (simp only: of_int_abs [symmetric] of_int_less_iff)
  then show ?thesis by simp
qed

lemma ilog2_bounds: "0 < n \<Longrightarrow> 2 ^ ilog2 n \<le> n \<and> n < 2 ^ Suc (ilog2 n)"
proof (induction n rule: ilog2.induct)
  case (1 n)
  show ?case
  proof (cases "n < 2")
    case True
    then show ?thesis using 1 by (simp add: ilog2.simps)
  next
    case False
    then have "2 ^ ilog2 (n div 2) \<le> n div 2 \<and> n div 2 < 2 ^ Suc (ilog2 (n div 2))"
      using 1 by auto
    moreover have "ilog2 n = Suc (ilog2 (n div 2))" using False by (subst ilog2.simps) simp
    ultimately show ?thesis by auto
  qed
qed

lemma binexp_between:
  assumes "2 ^ e \<le> q" and "q < 2 ^ Suc e"
  shows "binexp q = int e"
proof -
  obtain a b where ab: "quotient_of q = (a, b)" by (cases "quotient_of q")
  then have b: "0 < b" and q: "q = of_int a / of_int b"
    using quotient_of_denom_pos quotient_of_div by blast+
  have "0 < q" using assms(1) by (rule less_le_trans [rotated]) simp
  then have a: "0 < a" using b q by (simp add: zero_less_divide_iff)
  let ?la = "ilog2 (nat a)" and ?lb = "ilog2 (nat b)"
  have na: "2 ^ ?la \<le> a" "a < 2 ^ Suc ?la"
    using ilog2_bounds [of "nat a"] a by (simp_all add: le_nat_iff nat_less_iff)
  have nb: "2 ^ ?lb \<le> b" "b < 2 ^ Suc ?lb"
    using ilog2_bounds [of "nat b"] b by (simp_all add: le_nat_iff nat_less_iff)
  have "of_int (2 ^ e * b) \<le> (of_int a :: rat)" "(of_int a :: rat) < of_int (2 ^ Suc e * b)"
    using assms q b by (simp_all add: field_simps)
  then have ab': "2 ^ e * b \<le> a" "a < 2 ^ Suc e * b"
    by (simp_all only: of_int_le_iff of_int_less_iff)
  have "(2 :: int) ^ (e + ?lb) \<le> 2 ^ e * b" using nb by (simp add: power_add)
  then have "(2 :: int) ^ (e + ?lb) < 2 ^ Suc ?la" using ab' na by linarith
  then have lo: "e + ?lb \<le> ?la" by (simp add: power_strict_increasing_iff del: power_Suc)
  have "2 ^ Suc e * b < (2 :: int) ^ (Suc e + Suc ?lb)" using nb by (simp add: power_add)
  then have "(2 :: int) ^ ?la < 2 ^ (Suc e + Suc ?lb)" using ab' na by linarith
  then have hi: "?la < e + ?lb + 2" by (simp add: power_strict_increasing_iff del: power_Suc)
  have p: "pow2 (int ?la - int ?lb) \<le> q \<longleftrightarrow> ?la = e + ?lb"
  proof (cases "?la = e + ?lb")
    case True
    then show ?thesis using assms by (simp add: pow2_def)
  next
    case False
    then have "?la = Suc e + ?lb" using lo hi by simp
    then have "pow2 (int ?la - int ?lb) = 2 ^ Suc e" by (simp add: pow2_def nat_add_distrib)
    then show ?thesis using assms \<open>?la = Suc e + ?lb\<close> by simp
  qed
  then show ?thesis using lo hi
    by (cases "?la = e + ?lb") (auto simp: binexp_def ab Let_def)
qed

text \<open>Between 32 and 64, a \<open>float\<close> is within \<open>2 ^ -19\<close> of the exact value.\<close>

lemma to_float_close:
  assumes "32 \<le> q" and "q < 64"
  shows "\<bar>to_float q - q\<bar> \<le> 1 / 2 ^ 19"
proof -
  let ?u = "1 / 2 ^ 18 :: rat"
  have "binexp q = int 5" by (rule binexp_between) (use assms in simp_all)
  then have u: "pow2 (max (binexp \<bar>q\<bar> - 23) (- 149)) = ?u"
    using assms by (simp add: pow2_def)
  have "\<bar>q\<bar> = q" "sgn q = 1" "q \<noteq> 0" using assms by (simp_all add: sgn_if)
  then have f: "to_float q = of_int (round_half_even (q / ?u)) * ?u"
    using u by (simp only: to_float_def Let_def if_False mult_1)
  have "to_float q - q = (of_int (round_half_even (q / ?u)) - q / ?u) * ?u"
    unfolding f by (simp add: left_diff_distrib)
  then have "\<bar>to_float q - q\<bar> = \<bar>of_int (round_half_even (q / ?u)) - q / ?u\<bar> * ?u"
    by (simp only: abs_mult) simp
  also have "\<dots> \<le> 1 / 2 * ?u"
    by (rule mult_right_mono [OF round_half_even_close]) simp
  finally show ?thesis by simp
qed

lemma to_float_int:
  assumes "256 \<le> n" and "n < 512"
  shows "to_float (of_int n) = of_int n"
proof -
  have "binexp (of_int n) = int 8" by (rule binexp_between) (use assms in simp_all)
  then have u: "pow2 (max (binexp \<bar>of_int n\<bar> - 23) (- 149)) = 1 / 2 ^ 15"
    using assms by (simp add: pow2_def)
  have "\<bar>of_int n\<bar> / (1 / 2 ^ 15) = (of_int (n * 2 ^ 15) :: rat)" using assms by simp
  then have r: "round_half_even (\<bar>of_int n\<bar> / (1 / 2 ^ 15)) = n * 2 ^ 15"
    by (simp only: round_half_even_of_int)
  have "of_int n \<noteq> (0 :: rat)" "sgn (of_int n) = (1 :: rat)" using assms by (simp_all add: sgn_if)
  then show ?thesis by (simp only: to_float_def Let_def if_False u r) simp
qed

lemma tenths_close:
  assumes "350 \<le> n" and "n \<le> 430"
  shows "\<bar>tenths n - of_int n / 10\<bar> \<le> 1 / 524288"
proof -
  have "32 \<le> (of_int n / 10 :: rat)" "(of_int n / 10 :: rat) < 64"
    using assms by (simp_all add: field_simps flip: of_int_le_iff)
  then show ?thesis using to_float_close to_float_int [of n] assms by (simp add: tenths_def)
qed

lemma tenths_38: "tenths 380 = 38"
  by (simp add: tenths_def to_float_int) code_simp

lemma tenths_alarm:
  assumes "350 \<le> n" and "n \<le> 430"
  shows "38 < tenths n \<longleftrightarrow> 380 < n"
proof (cases "n = 380")
  case True
  then show ?thesis by (simp add: tenths_38)
next
  case False
  have "(of_int n / 10 :: rat) \<le> 379 / 10" if "n < 380"
  proof -
    have "n \<le> 379" using that by simp
    then have "(of_int n :: rat) \<le> of_int 379" by (simp only: of_int_le_iff)
    then show ?thesis by simp
  qed
  moreover have "381 / 10 \<le> (of_int n / 10 :: rat)" if "380 < n"
  proof -
    have "381 \<le> n" using that by simp
    then have "(of_int 381 :: rat) \<le> of_int n" by (simp only: of_int_le_iff)
    then show ?thesis by simp
  qed
  moreover have "tenths n \<le> of_int n / 10 + 1 / 524288" "of_int n / 10 - 1 / 524288 \<le> tenths n"
    using tenths_close [OF assms] by (simp_all only: abs_le_iff) linarith+
  ultimately have "n < 380 \<Longrightarrow> tenths n < 38" "380 < n \<Longrightarrow> 38 < tenths n" by linarith+
  then show ?thesis using False by (cases "n < 380") force+
qed

lemma show_tenths_text:
  assumes "350 \<le> n" and "n \<le> 430"
  shows "show_tenths (tenths n) = show_nat (nat n div 10) @ ''.'' @ show_nat (nat n mod 10)"
proof -
  note close = tenths_close [OF assms]
  have n: "35 \<le> (of_int n / 10 :: rat)" using assms by (simp add: field_simps flip: of_int_le_iff)
  have "of_int n / 10 - 1 / 524288 \<le> tenths n" using close by (simp only: abs_le_iff) linarith
  then have pos: "0 < tenths n" using n by linarith
  have "\<bar>tenths n * 10 - of_int n\<bar> = \<bar>tenths n - of_int n / 10\<bar> * 10"
    by (simp add: abs_if field_simps)
  also have "\<dots> < 1 / 2" using close by simp
  finally have "round_half_even (\<bar>tenths n\<bar> * 10) = n" using pos by (intro round_half_even_unique) simp
  then show ?thesis using pos by (simp add: show_tenths_def Let_def)
qed

text \<open>A \<open>float\<close> is at least half of the exact value, down to \<open>2 ^ -100\<close>.\<close>

lemma pow2_pred: "pow2 (e - 1) = pow2 e / 2"
proof (cases "0 \<le> e - 1")
  case True
  then have "nat e = Suc (nat (e - 1))" by simp
  then show ?thesis using True by (simp add: pow2_def del: Suc_nat_eq_nat_zadd1)
next
  case False
  then show ?thesis
  proof (cases "e = 0")
    case False
    then have "nat (- (e - 1)) = Suc (nat (- e))" using \<open>\<not> 0 \<le> e - 1\<close> by simp
    then show ?thesis using False \<open>\<not> 0 \<le> e - 1\<close> by (simp add: pow2_def)
  qed (simp add: pow2_def)
qed

lemma pow2_pos: "0 < pow2 e"
  by (simp add: pow2_def)

lemma pow2_minus: "pow2 (int m - int n) = 2 ^ m / 2 ^ n"
proof (cases "n \<le> m")
  case True
  then have "nat (int m - int n) = m - n" by simp
  then show ?thesis using True by (simp add: pow2_def power_diff)
next
  case False
  then have "nat (- (int m - int n)) = n - m" by simp
  then show ?thesis using False by (simp add: pow2_def power_diff)
qed

lemma binexp_le: "0 < q \<Longrightarrow> pow2 (binexp q) \<le> q"
proof -
  assume "0 < q"
  obtain a b where ab: "quotient_of q = (a, b)" by (cases "quotient_of q")
  then have b: "0 < b" and q: "q = of_int a / of_int b"
    using quotient_of_denom_pos quotient_of_div by blast+
  have a: "0 < a" using b q \<open>0 < q\<close> by (simp add: zero_less_divide_iff)
  let ?la = "ilog2 (nat a)" and ?lb = "ilog2 (nat b)"
  have na: "2 ^ ?la \<le> a" and nb: "b \<le> 2 ^ Suc ?lb"
    using ilog2_bounds [of "nat a"] ilog2_bounds [of "nat b"] a b
    by (simp_all add: le_nat_iff nat_less_iff)
  have "(of_int (2 ^ ?la) :: rat) \<le> of_int a" "(of_int b :: rat) \<le> of_int (2 ^ Suc ?lb)"
    using na nb by (simp_all only: of_int_le_iff)
  then have "2 ^ ?la / 2 ^ Suc ?lb \<le> q"
    unfolding q using a b by (intro frac_le) simp_all
  then have "pow2 (int ?la - int (Suc ?lb)) \<le> q" by (simp only: pow2_minus)
  then have "pow2 (int ?la - int ?lb - 1) \<le> q" by (simp add: algebra_simps)
  then show ?thesis by (simp add: binexp_def ab Let_def)
qed

lemma to_float_half:
  assumes "1 / 2 ^ 100 \<le> q"
  shows "q / 2 \<le> to_float q" "to_float q \<le> 3 / 2 * q"
proof -
  let ?u = "pow2 (max (binexp q - 23) (- 149))"
  have "0 < q" using assms by (rule less_le_trans [rotated]) simp
  have "?u \<le> q"
  proof (cases "binexp q - 23 \<le> - 149")
    case True
    then have "?u = 1 / 2 ^ 149" by (simp add: pow2_def)
    also have "\<dots> \<le> 1 / (2 :: rat) ^ 100" by (simp add: frac_le)
    finally show ?thesis using assms by simp
  next
    case False
    have "pow2 (e - int n) \<le> pow2 e" for e n
    proof (induction n)
      case (Suc n)
      have "pow2 (e - int (Suc n)) = pow2 (e - int n) / 2" using pow2_pred [of "e - int n"] by (simp add: algebra_simps)
      then show ?case using Suc pow2_pos [of "e - int n"] by linarith
    qed simp
    from this [of "binexp q" 23] show ?thesis using binexp_le [OF \<open>0 < q\<close>] False by simp
  qed
  have "\<bar>q\<bar> = q" "sgn q = 1" "q \<noteq> 0" using \<open>0 < q\<close> by simp_all
  then have f: "to_float q = of_int (round_half_even (q / ?u)) * ?u"
    by (simp only: to_float_def Let_def if_False mult_1)
  have near: "q / ?u - 1 / 2 \<le> of_int (round_half_even (q / ?u))"
    "of_int (round_half_even (q / ?u)) \<le> q / ?u + 1 / 2"
    using round_half_even_close [of "q / ?u"] by (simp_all only: abs_le_iff) linarith+
  have "(q / ?u - 1 / 2) * ?u \<le> to_float q" "to_float q \<le> (q / ?u + 1 / 2) * ?u"
    unfolding f using near pow2_pos by (intro mult_right_mono; simp add: less_imp_le)+
  moreover have "(q / ?u - 1 / 2) * ?u = q - ?u / 2" "(q / ?u + 1 / 2) * ?u = q + ?u / 2"
    using pow2_pos [of "max (binexp q - 23) (- 149)"] by (simp_all add: left_diff_distrib distrib_right)
  ultimately show "q / 2 \<le> to_float q" "to_float q \<le> 3 / 2 * q" using \<open>?u \<le> q\<close> by linarith+
qed

text \<open>The chance of a high temperature: only the result 0 of \<open>rand\<close> is below the limit.\<close>

lemma rand_max_float: "to_float (of_int RAND_MAX) = 2147483648"
proof -
  have "binexp (2147483647 :: rat) = int 30" by (rule binexp_between) simp_all
  then have u: "pow2 (max (binexp 2147483647 - 23) (- 149)) = 128" by (simp add: pow2_def)
  have "round_half_even (2147483647 / 128) = 16777216" by (rule round_half_even_unique) simp
  then show ?thesis unfolding RAND_MAX_def by (simp add: to_float_def Let_def u sgn_if)
qed

lemma probability_float: "0 < to_float (1 / 10 ^ 11)" "to_float (1 / 10 ^ 11) < 1 / 8589934592"
proof -
  have "1 / 2 ^ 100 \<le> (1 / 10 ^ 11 :: rat)" by simp
  from to_float_half [OF this]
  have "1 / 200000000000 \<le> to_float (1 / 10 ^ 11)" "to_float (1 / 10 ^ 11) \<le> 3 / 200000000000"
    by simp_all
  then show "0 < to_float (1 / 10 ^ 11)" "to_float (1 / 10 ^ 11) < 1 / 8589934592"
    by (auto elim: less_le_trans [rotated] order.strict_trans1)
qed

lemma high_temperature_iff:
  assumes "0 \<le> r"
  shows "to_float (to_float (of_int r) / to_float (of_int RAND_MAX)) < to_float (1 / 10 ^ 11) \<longleftrightarrow> r = 0"
proof (cases "r = 0")
  case True
  then show ?thesis using probability_float by (simp add: to_float_def [of 0])
next
  case False
  then have "1 \<le> (of_int r :: rat)" using assms by simp
  then have "1 / 2 ^ 100 \<le> (of_int r :: rat)" by (rule order_trans [rotated]) simp
  from to_float_half(1) [OF this] have "1 / 2 \<le> to_float (of_int r)" using \<open>1 \<le> _\<close> by linarith
  then have x: "1 / 4294967296 \<le> to_float (of_int r) / to_float (of_int RAND_MAX)"
    by (simp add: rand_max_float)
  have "1 / 2 ^ 100 \<le> (1 / 4294967296 :: rat)" by simp
  then have "to_float (of_int r) / to_float (of_int RAND_MAX) / 2 \<le>
      to_float (to_float (of_int r) / to_float (of_int RAND_MAX))"
    using x by (intro to_float_half(1)) linarith
  moreover have "1 / 8589934592 \<le> to_float (of_int r) / to_float (of_int RAND_MAX) / 2"
    using divide_right_mono [OF x, of 2] by simp
  ultimately have "to_float (1 / 10 ^ 11) < to_float (to_float (of_int r) / to_float (of_int RAND_MAX))"
    by (rule less_le_trans [OF probability_float(2) order_trans, rotated])
  then show ?thesis using False by simp
qed

section \<open>One turn of the loop\<close>

text \<open>The reading of a sensor in tenths of a degree, from two results of \<open>rand\<close>.\<close>

definition reading :: "int \<Rightarrow> int \<Rightarrow> int" where
  "reading r r' = (if r = 0 then r' mod 51 + 380 else r' mod 40 + 350)"

definition rands_ok :: "(nat \<Rightarrow> int) \<Rightarrow> bool" where
  "rands_ok f \<longleftrightarrow> (\<forall>i. 0 \<le> f i \<and> f i \<le> RAND_MAX)"

lemma reading_bounds: "350 \<le> reading r r'" "reading r r' \<le> 430"
proof -
  have m: "0 \<le> r' mod 51" "r' mod 51 < 51" "0 \<le> r' mod 40" "r' mod 40 < 40" by simp_all
  show "350 \<le> reading r r'" "reading r r' \<le> 430"
    unfolding reading_def using m by (split if_split, intro conjI impI; linarith)+
qed

lemma get_temperature_run:
  assumes "rands_ok (rands a)"
  shows "get_temperature a =
    Inr (tenths (reading (rands a 0) (rands a 1)), a\<lparr>rands := (\<lambda>i. rands a (Suc (Suc i)))\<rparr>)"
  using assms high_temperature_iff [of "rands a 0"]
  by (simp add: get_temperature_def next_rand_def run Let_def tenths_def reading_def rands_ok_def)

definition measured :: "(nat \<Rightarrow> int) \<Rightarrow> nat \<Rightarrow> int" where
  "measured f i = reading (f (2 * i)) (f (Suc (2 * i)))"

definition warmed :: "(nat \<Rightarrow> int) \<Rightarrow> Sensor \<Rightarrow> nat \<Rightarrow> Sensor" where
  "warmed f s i = s\<lparr>temperature := Some (tenths (measured f i))\<rparr>"

lemma warmed_shift:
  "map2 (warmed (\<lambda>i. f (Suc (Suc i)))) xs [0..<k] = map2 (warmed f) xs [Suc 0..<Suc k]"
  by (auto simp: map_Suc_upt [symmetric] zip_map2 warmed_def measured_def simp del: upt_Suc map_Suc_upt)

lemma update_sensor_values_run:
  assumes "rands_ok (rands a)" and "i + k \<le> length (sensors a)"
  shows "update_sensor_values k i a =
    Inr ((), a\<lparr>rands := (\<lambda>j. rands a (j + 2 * k)),
      sensors := take i (sensors a) @ map2 (warmed (rands a)) (take k (drop i (sensors a))) [0..<k] @
        drop (i + k) (sensors a)\<rparr>)"
  using assms
proof (induction k arbitrary: i a)
  case 0
  then show ?case by (simp add: run)
next
  case (Suc k)
  let ?s = "warmed (rands a) (sensors a ! i) 0"
  let ?a = "a\<lparr>rands := (\<lambda>i. rands a (Suc (Suc i))), sensors := (sensors a)[i := ?s]\<rparr>"
  have "rands_ok (rands ?a)" "Suc i + k \<le> length (sensors ?a)"
    using Suc.prems by (simp_all add: rands_ok_def)
  note IH = Suc.IH [OF this]
  have step: "update_sensor_values (Suc k) i a = update_sensor_values k (Suc i) ?a"
    using Suc.prems
    by (simp add: run get_temperature_run sensor_at_def warmed_def measured_def)
  have "take (Suc i) (sensors ?a) = take i (sensors a) @ [?s]"
    using Suc.prems by (simp add: take_Suc_conv_app_nth)
  moreover have "take (Suc k) (drop i (sensors a)) = sensors a ! i # take k (drop (Suc i) (sensors a))"
    using Suc.prems by (simp add: Cons_nth_drop_Suc [symmetric])
  moreover have "[0..<Suc k] = 0 # [Suc 0..<Suc k]" by (simp add: upt_rec)
  ultimately show ?case using IH Suc.prems unfolding step
    by (simp add: warmed_shift del: upt_Suc)
qed

text \<open>A write that the FIFO takes whole, and a sensor after a measurement.\<close>

definition fifo_ok :: "fifo_os \<Rightarrow> bool" where
  "fifo_ok os \<longleftrightarrow> fifo_writable os \<and> (\<forall>n. write_takes os n = Some n)"

definition sensor_ok :: "Sensor \<Rightarrow> bool" where
  "sensor_ok s \<longleftrightarrow> length (sensor_name s) < 20 \<and>
     (\<exists>n. 350 \<le> n \<and> n \<le> 430 \<and> temperature s = Some (tenths n))"

definition alert_of :: "Sensor \<Rightarrow> string" where
  "alert_of s = (case temperature s of None \<Rightarrow> [] | Some t \<Rightarrow>
     if THRESHOLD_TEMP < t then alert_text (sensor_name s) t else [])"

lemma show_two_digits:
  assumes "10 \<le> n" and "n < 100"
  shows "show_nat n = [char_of (48 + n div 10), char_of (48 + n mod 10)]"
proof -
  have "n div 10 < 10" using assms by simp
  then show ?thesis using assms by (simp add: show_nat.simps [of n] show_nat.simps [of "n div 10"])
qed

lemma show_one_digit: "n < 10 \<Longrightarrow> show_nat n = [char_of (48 + n)]"
  by (subst show_nat.simps) simp

lemma is_digit_char_of: "(n :: nat) < 10 \<Longrightarrow> is_digit (char_of (48 + n))"
  by (simp add: is_digit_def)

lemma alert_text_form:
  assumes "350 \<le> n" and "n \<le> 430"
  obtains a b c where "alert_text e (tenths n) =
      e @ '', ALERT, '' @ [a, b, CHR ''.'', c, CHR 0xC2, CHR 0xB0] @ ''C ''"
    "is_digit a" "is_digit b" "is_digit c"
proof -
  let ?m = "nat n div 10"
  have m: "10 \<le> ?m" "?m < 100" using assms by auto
  show thesis
  proof (rule that)
    show "alert_text e (tenths n) = e @ '', ALERT, '' @ [char_of (48 + ?m div 10), char_of (48 + ?m mod 10),
        CHR ''.'', char_of (48 + nat n mod 10), CHR 0xC2, CHR 0xB0] @ ''C ''"
      using show_two_digits [OF m] show_one_digit [of "nat n mod 10"]
      by (simp add: alert_text_def show_tenths_text [OF assms])
  qed (use m in \<open>auto intro!: is_digit_char_of\<close>)
qed

lemma length_alert_text: "350 \<le> n \<Longrightarrow> n \<le> 430 \<Longrightarrow> length (alert_text e (tenths n)) = length e + 17"
  by (rule alert_text_form [of n e]) simp_all

lemma check_temperature_threshold_run:
  assumes "fifo_ok os" and "i + k \<le> length (sensors a)" and "\<forall>s \<in> set (sensors a). sensor_ok s"
  shows "check_temperature_threshold os k i a =
    Inr ((), a\<lparr>fifo := fifo a @ concat (map alert_of (take k (drop i (sensors a))))\<rparr>)"
  using assms
proof (induction k arbitrary: i a)
  case 0
  then show ?case by (simp add: run)
next
  case (Suc k)
  let ?s = "sensors a ! i"
  have s: "sensor_ok ?s" "i < length (sensors a)" using Suc.prems by auto
  then obtain n where n: "350 \<le> n" "n \<le> 430" "temperature ?s = Some (tenths n)"
    and room: "length (sensor_name ?s) < 20" by (auto simp: sensor_ok_def)
  have send: "send_alert os (tenths n) (sensor_name ?s) a =
      Inr ((), a\<lparr>fifo := fifo a @ alert_text (sensor_name ?s) (tenths n)\<rparr>)"
    using Suc.prems(1) room length_alert_text [OF n(1,2), of "sensor_name ?s"]
    by (simp add: send_alert_def Let_def fifo_ok_def run BUFFER_SIZE_def)
  have "check_temperature_threshold os (Suc k) i a =
      check_temperature_threshold os k (Suc i) (a\<lparr>fifo := fifo a @ alert_of ?s\<rparr>)"
    using s n send by (simp add: run sensor_at_def alert_of_def)
  moreover have "take (Suc k) (drop i (sensors a)) = ?s # take k (drop (Suc i) (sensors a))"
    using Suc.prems by (simp add: Cons_nth_drop_Suc [symmetric])
  ultimately show ?case using Suc.IH [of "Suc i" "a\<lparr>fifo := fifo a @ alert_of ?s\<rparr>"] Suc.prems by simp
qed

section \<open>Theorems\<close>

text \<open>
  A measurement is a temperature of 35.0 to 38.9 degrees, or of 38.0 to 43.0 when \<open>rand\<close>
  returned 0. It is above the threshold, so that it raises an alert, not only in the second
  case: of the 40 values of the first, the nine from 38.1 on do.
\<close>

theorem get_temperature_alarm:
  assumes "rands_ok (rands a)"
  shows "\<exists>t. get_temperature a = Inr (t, a\<lparr>rands := (\<lambda>i. rands a (Suc (Suc i)))\<rparr>) \<and>
    t = tenths (if rands a 0 = 0 then rands a 1 mod 51 + 380 else rands a 1 mod 40 + 350) \<and>
    (THRESHOLD_TEMP < t \<longleftrightarrow>
      (if rands a 0 = 0 then 0 < rands a 1 mod 51 else 30 < rands a 1 mod 40))"
  using tenths_alarm [OF reading_bounds, of "rands a 0" "rands a 1"]
  by (auto simp: get_temperature_run [OF assms] reading_def THRESHOLD_TEMP_def)

theorem get_temperature_alarm_witness:
  "\<exists>t a'. get_temperature \<lparr>sensors = [], rands = (\<lambda>_. 39), fifo = []\<rparr> = Inr (t, a') \<and> THRESHOLD_TEMP < t"
  using get_temperature_alarm [of "\<lparr>sensors = [], rands = (\<lambda>_. 39), fifo = []\<rparr>"]
  by (auto simp: rands_ok_def RAND_MAX_def)

text \<open>
  One turn of the child process measures every sensor once, in order, and appends to the
  FIFO the alerts of exactly the sensors above the threshold, in the order of the sensors.
\<close>

theorem alerts_cycle_writes:
  assumes "fifo_ok os" and "rands_ok (rands a)" and "initiateAlertModule True = Inr ss"
    and "map sensor_name (sensors a) = map sensor_name ss"
  shows "\<exists>f ss'. alerts_cycle os a = Inr ((), a\<lparr>rands := f, sensors := ss',
      fifo := fifo a @ concat (map (\<lambda>(e, i). if 380 < measured (rands a) i
        then alert_text e (tenths (measured (rands a) i)) else [])
        [(''NORTH ENTRY'', 0), (''SOUTH ENTRY'', 1), (''WEST ENTRY'', 2), (''EAST ENTRY'', 3)])\<rparr>) \<and>
    map sensor_name ss' = map sensor_name ss"
proof -
  have names: "map sensor_name (sensors a) = [''NORTH ENTRY'', ''SOUTH ENTRY'', ''WEST ENTRY'', ''EAST ENTRY'']"
    using assms(3,4) by (auto simp: initiateAlertModule_def)
  then obtain w x y z where ss: "sensors a = [w, x, y, z]" "sensor_name w = ''NORTH ENTRY''"
    "sensor_name x = ''SOUTH ENTRY''" "sensor_name y = ''WEST ENTRY''" "sensor_name z = ''EAST ENTRY''"
    by (auto simp: map_eq_Cons_conv)
  let ?ss = "map2 (warmed (rands a)) (sensors a) [0..<4]"
  have ss': "?ss = [warmed (rands a) w 0, warmed (rands a) x 1, warmed (rands a) y 2, warmed (rands a) z 3]"
    by (simp add: ss upt_rec numeral_2_eq_2 numeral_3_eq_3)
  let ?a = "a\<lparr>rands := (\<lambda>j. rands a (j + 8)), sensors := ?ss\<rparr>"
  have update: "update_sensor_values NUM_SENSORS 0 a = Inr ((), ?a)"
    using update_sensor_values_run [OF assms(2), of 0 4] by (simp add: NUM_SENSORS_def ss)
  have ok: "sensor_ok (warmed (rands a) s i)" if "length (sensor_name s) < 20" for s i
    using that reading_bounds
    by (auto simp: sensor_ok_def warmed_def measured_def
        intro!: exI [where x = "reading (rands a (2 * i)) (rands a (Suc (2 * i)))"])
  have "\<forall>s \<in> set ?ss. sensor_ok s" unfolding ss' using ok ss by simp
  then have "\<forall>s \<in> set (sensors ?a). sensor_ok s" by simp
  then have check: "check_temperature_threshold os NUM_SENSORS 0 ?a =
      Inr ((), ?a\<lparr>fifo := fifo a @ concat (map alert_of ?ss)\<rparr>)"
    using check_temperature_threshold_run [OF assms(1), of 0 4 ?a] by (simp add: NUM_SENSORS_def ss')
  have run: "alerts_cycle os a = Inr ((), ?a\<lparr>fifo := fifo a @ concat (map alert_of ?ss)\<rparr>)"
    by (simp add: alerts_cycle_def block_apply update check del: map_map)
  have "alert_of (warmed (rands a) s i) = (if 380 < measured (rands a) i
        then alert_text (sensor_name s) (tenths (measured (rands a) i)) else [])" for s i
    using tenths_alarm [OF reading_bounds]
    by (simp add: alert_of_def warmed_def measured_def THRESHOLD_TEMP_def)
  then have in_fifo: "concat (map alert_of ?ss) = concat (map (\<lambda>(e, i). if 380 < measured (rands a) i
        then alert_text e (tenths (measured (rands a) i)) else [])
        [(''NORTH ENTRY'', 0), (''SOUTH ENTRY'', 1), (''WEST ENTRY'', 2), (''EAST ENTRY'', 3)])"
    unfolding ss' using ss by simp
  have "map sensor_name ?ss = map sensor_name ss"
    unfolding ss' using assms(3) ss by (auto simp: warmed_def initiateAlertModule_def)
  with run show ?thesis unfolding in_fifo by blast
qed

theorem alerts_cycle_writes_witness:
  "\<exists>ss a'. initiateAlertModule True = Inr ss \<and>
    alerts_cycle \<lparr>fifo_writable = True, write_takes = Some\<rparr> \<lparr>sensors = ss, rands = (\<lambda>_. 7), fifo = []\<rparr> =
      Inr ((), a') \<and> fifo a' = []"
proof -
  obtain ss where ss: "initiateAlertModule True = Inr ss" by (simp add: initiateAlertModule_def)
  have "fifo_ok \<lparr>fifo_writable = True, write_takes = Some\<rparr>" by (simp add: fifo_ok_def)
  from alerts_cycle_writes [OF this _ ss, of "\<lparr>sensors = ss, rands = (\<lambda>_. 7), fifo = []\<rparr>"]
  show ?thesis using ss by (auto simp: rands_ok_def RAND_MAX_def measured_def reading_def)
qed

end
