(* ===== verification/Handlers.thy ===== *)
theory Handlers
  imports World
begin

text \<open>
  The handlers of \<open>server.c\<close>, one for each kind of activity the event loop sees: a message
  or a new connection on TCP, a datagram, a notification on the Unix socket, an alert in
  the FIFO. Each is the whole C function, with its early returns.
\<close>

section \<open>TCP clients\<close>

definition receive_tcp_json :: "os \<Rightarrow> int \<Rightarrow> cJSON option srv" where
  "receive_tcp_json os fd =
     (case incoming os fd of
        None \<Rightarrow> ret None
      | Some available \<Rightarrow>
          let bytes = take BUFFER_SIZE available in
          if bytes = [] then ret None
          else
            andthen (lift (received_string BUFFER_SIZE bytes)) (\<lambda>text.
            with_heap (cJSON_Parse (nesting_limit os) text)))"

text \<open>The answer to an authentication request, and the result of the whole check.\<close>

definition answer_authentication :: "os \<Rightarrow> int \<Rightarrow> string \<Rightarrow> string \<Rightarrow> bool \<Rightarrow> bool srv" where
  "answer_authentication os client_fd text reply result =
     andthen (get_tcp_client_ip os client_fd) (\<lambda>client_ip.
     andthen (log_message os text client_ip) (\<lambda>_.
     andthen (with_heap (message_object reply)) (\<lambda>answer.
     andthen (send_json_to_tcp_client os client_fd answer) (\<lambda>_.
     ret result))))"

definition authenticate :: "os \<Rightarrow> int \<Rightarrow> cJSON \<Rightarrow> bool srv" where
  "authenticate os client_fd received_json =
     (case cJSON_GetObjectItem (Some received_json) ''hostname'' of
        None \<Rightarrow> ret True
      | Some hostname \<Rightarrow>
          andthen (deref (valuestring hostname)) (\<lambda>hostname_value.
          if hostname_value = ADMIN_USER then
            answer_authentication os client_fd ''Update request from authenticated TCP client ''
              ''auth_success'' True
          else
            answer_authentication os client_fd ''Update request from not authenticated TCP client ''
              ''auth_failure'' False))"

text \<open>Recording the event of a request in the emergency information.\<close>

definition record_event :: "os \<Rightarrow> string \<Rightarrow> unit srv" where
  "record_event os event =
     modify (\<lambda>s. s\<lparr>emergency_info := update_emergency_info (now os) event (emergency_info s)\<rparr>)"

definition tcp_status :: "os \<Rightarrow> int \<Rightarrow> unit srv" where
  "tcp_status os client_fd =
     andthen (gets (supply_pointers os)) (\<lambda>(food_supply, medicine_supply).
     andthen (get_tcp_client_ip os client_fd) (\<lambda>client_ip.
     let text = snprintf BUFFER_256 (''Status request from TCP client '' @ client_ip) in
     andthen (record_event os text) (\<lambda>_.
     andthen (log_event os text) (\<lambda>_.
     andthen (with_heap (convert_supplies_to_json food_supply medicine_supply)) (\<lambda>json.
     send_json_to_tcp_client os client_fd json)))))"

definition tcp_update :: "os \<Rightarrow> int \<Rightarrow> cJSON \<Rightarrow> unit srv" where
  "tcp_update os client_fd received_json =
     andthen (gets (supply_pointers os)) (\<lambda>(food_supply, medicine_supply).
     andthen (get_tcp_client_ip os client_fd) (\<lambda>client_ip.
     let text = snprintf BUFFER_256 (''Update request from TCP client '' @ client_ip) in
     andthen (record_event os text) (\<lambda>_.
     andthen (log_event os text) (\<lambda>_.
     if food_supply \<noteq> None \<and> medicine_supply \<noteq> None then
       update_supplies os (Some received_json)
     else ret ()))))"

definition summary :: "os \<Rightarrow> cJSON option srv" where
  "summary os =
     andthen (gets id) (\<lambda>s.
     with_heap (create_summary_json (shm_calls os) (entry_alerts_count s) (segments s)
       (emergency_info s)))"

definition tcp_summary :: "os \<Rightarrow> int \<Rightarrow> unit srv" where
  "tcp_summary os client_fd =
     andthen (get_tcp_client_ip os client_fd) (\<lambda>client_ip.
     andthen (log_message os ''Summary request from TCP client '' client_ip) (\<lambda>_.
     andthen (summary os) (\<lambda>json.
     send_json_to_tcp_client os client_fd json)))"

definition tcp_invalid :: "os \<Rightarrow> int \<Rightarrow> unit srv" where
  "tcp_invalid os client_fd =
     andthen (get_tcp_client_ip os client_fd)
       (log_message os ''Invalid request received from TCP client '')"

definition tcp_request :: "os \<Rightarrow> int \<Rightarrow> cJSON \<Rightarrow> string \<Rightarrow> unit srv" where
  "tcp_request os client_fd received_json message_value =
     (if message_value = ''status'' then tcp_status os client_fd
      else if message_value = ''update'' then tcp_update os client_fd received_json
      else if message_value = ''summary'' then tcp_summary os client_fd
      else tcp_invalid os client_fd)"

definition check_tcp_clients_messages :: "os \<Rightarrow> int \<Rightarrow> bool srv" where
  "check_tcp_clients_messages os client_fd =
     andthen (receive_tcp_json os client_fd) (\<lambda>received.
     case received of
       None \<Rightarrow> ret False
     | Some received_json \<Rightarrow>
         (case cJSON_GetObjectItem (Some received_json) ''message'' of
            None \<Rightarrow> ret True
          | Some message \<Rightarrow>
              andthen (deref (valuestring message)) (\<lambda>message_value.
              if message_value = ''authenticateme'' then
                authenticate os client_fd received_json
              else
                andthen (tcp_request os client_fd received_json message_value) (\<lambda>_.
                ret True))))"

text \<open>Descriptor sets have room for \<open>FD_SETSIZE\<close> descriptors.\<close>

definition FD_SETSIZE :: int where "FD_SETSIZE = 1024"

definition fd_set_add :: "int \<Rightarrow> unit srv" where
  "fd_set_add fd =
     (if 0 \<le> fd \<and> fd < FD_SETSIZE
      then modify (\<lambda>s. s\<lparr>master_fds := insert fd (master_fds s)\<rparr>) else fault Out_of_bounds)"

definition fd_set_remove :: "int \<Rightarrow> unit srv" where
  "fd_set_remove fd =
     (if 0 \<le> fd \<and> fd < FD_SETSIZE
      then modify (\<lambda>s. s\<lparr>master_fds := master_fds s - {fd}\<rparr>) else fault Out_of_bounds)"

definition peer_ip :: "sockaddr \<Rightarrow> string srv" where
  "peer_ip addr =
     (case addr of
        Sockaddr_in _ a \<Rightarrow> filled (inet_ntop4 a INET6_ADDRSTRLEN)
      | Sockaddr_in6 _ _ a \<Rightarrow> filled (inet_ntop6 a INET6_ADDRSTRLEN)
      | Sockaddr_other _ _ _ _ \<Rightarrow> ret ''Unknown'')"

definition drop_client :: "os \<Rightarrow> int \<Rightarrow> unit srv" where
  "drop_client os client_fd =
     block [emit (Close client_fd), fd_set_remove client_fd, remove_tcp_client os client_fd]"

definition handle_tcp_socket_activity :: "os \<Rightarrow> int \<Rightarrow> unit srv" where
  "handle_tcp_socket_activity os client_fd =
     (case getpeername os client_fd of
        None \<Rightarrow> drop_client os client_fd
      | Some addr \<Rightarrow>
          andthen (peer_ip addr) (\<lambda>client_ip.
          andthen (check_tcp_clients_messages os client_fd) (\<lambda>ok.
          if ok then ret ()
          else
            block [log_message os ''TCP client disconnected from IP: '' client_ip,
                   drop_client os client_fd])))"

section \<open>New TCP connections\<close>

definition connection_message :: "sockaddr \<Rightarrow> string srv" where
  "connection_message addr =
     (case addr of
        Sockaddr_in6 _ _ a \<Rightarrow>
          if IN6_IS_ADDR_V4MAPPED a then
            andthen (filled (inet_ntop4 (drop 12 a) INET_ADDRSTRLEN)) (\<lambda>client_ip.
            ret (snprintf BUFFER_256 (''New TCP IPv4 client connected from IP: '' @ client_ip)))
          else
            andthen (filled (inet_ntop6 a INET6_ADDRSTRLEN)) (\<lambda>client_ip.
            ret (snprintf BUFFER_256 (''New TCP IPv6 client connected from IP: '' @ client_ip)))
      | Sockaddr_in _ a \<Rightarrow>
          andthen (filled (inet_ntop4 a INET_ADDRSTRLEN)) (\<lambda>client_ip.
          ret (snprintf BUFFER_256 (''New IPv4 client connected from IP: '' @ client_ip)))
      | Sockaddr_other _ _ _ _ \<Rightarrow> fault Uninitialised)"

definition accept_tcp_connection :: "os \<Rightarrow> int option srv" where
  "accept_tcp_connection os =
     (case accepted os of
        None \<Rightarrow> ret None
      | Some (client_fd, addr) \<Rightarrow>
          andthen (connection_message addr) (\<lambda>text.
          andthen (log_event os text) (\<lambda>_.
          andthen (add_tcp_client os client_fd) (\<lambda>_.
          ret (Some client_fd)))))"

text \<open>The branch of the event loop for the listening socket.\<close>

definition handle_tcp_accept :: "os \<Rightarrow> unit srv" where
  "handle_tcp_accept os =
     andthen (accept_tcp_connection os) (\<lambda>new_tcp_client_fd.
     case new_tcp_client_fd of
       None \<Rightarrow> ret ()
     | Some fd \<Rightarrow>
         block [fd_set_add fd, modify (\<lambda>s. s\<lparr>max_fd := (if fd > max_fd s then fd else max_fd s)\<rparr>)])"

section \<open>UDP clients\<close>

definition receive_udp_json :: "os \<Rightarrow> (cJSON option \<times> sockaddr \<times> nat) option srv" where
  "receive_udp_json os =
     (case datagram os of
        None \<Rightarrow> ret None
      | Some (payload, addr, addrlen) \<Rightarrow>
          andthen (lift (received_string BUFFER_SIZE (take (BUFFER_SIZE - 1) payload))) (\<lambda>text.
          andthen (filled (fst (get_udp_client_info addr INET6_ADDRSTRLEN))) (\<lambda>client_ip.
          andthen (with_heap (cJSON_Parse (nesting_limit os) text)) (\<lambda>json.
          ret (Some (json, addr, addrlen))))))"

definition udp_update :: "os \<Rightarrow> cJSON \<Rightarrow> string \<Rightarrow> string \<Rightarrow> unit srv" where
  "udp_update os received_json auth client_ip =
     (if auth = ADMIN_USER then
        block [update_supplies os (Some received_json),
               log_message os ''Update request from authenticated UDP client '' client_ip]
      else log_message os ''Update request from not authenticated UDP client '' client_ip)"

definition udp_status :: "os \<Rightarrow> int \<Rightarrow> sockaddr \<Rightarrow> nat \<Rightarrow> string \<Rightarrow> unit srv" where
  "udp_status os fd addr addrlen client_ip =
     andthen (gets (supply_pointers os)) (\<lambda>(food_supply, medicine_supply).
     andthen (log_message os ''Status request from UDP client '' client_ip) (\<lambda>_.
     andthen (with_heap (convert_supplies_to_json food_supply medicine_supply)) (\<lambda>json.
     send_json_to_udp_client os fd addr addrlen json)))"

definition udp_summary :: "os \<Rightarrow> int \<Rightarrow> sockaddr \<Rightarrow> nat \<Rightarrow> string \<Rightarrow> unit srv" where
  "udp_summary os fd addr addrlen client_ip =
     andthen (log_message os ''Summary request from UDP client '' client_ip) (\<lambda>_.
     andthen (summary os) (\<lambda>json.
     send_json_to_udp_client os fd addr addrlen json))"

definition udp_request ::
    "os \<Rightarrow> int \<Rightarrow> sockaddr \<Rightarrow> nat \<Rightarrow> string \<Rightarrow> cJSON \<Rightarrow> string \<Rightarrow> string \<Rightarrow> unit srv" where
  "udp_request os fd addr addrlen client_ip received_json request auth =
     (if request = ''update'' then udp_update os received_json auth client_ip
      else if request = ''status'' then udp_status os fd addr addrlen client_ip
      else if request = ''summary'' then udp_summary os fd addr addrlen client_ip
      else ret ())"

definition check_udp_clients_messages :: "os \<Rightarrow> int \<Rightarrow> bool srv" where
  "check_udp_clients_messages os fd =
     andthen (receive_udp_json os) (\<lambda>received.
     case received of
       None \<Rightarrow> ret False
     | Some (None, _, _) \<Rightarrow> ret False
     | Some (Some received_json, addr, addrlen) \<Rightarrow>
         andthen (filled (fst (get_udp_client_info addr INET6_ADDRSTRLEN))) (\<lambda>client_ip.
         andthen (add_udp_client os
           \<lparr>sockfd = fd, client_addr = addr, addr_len = addrlen, family = None\<rparr>) (\<lambda>_.
         case cJSON_GetObjectItem (Some received_json) ''message'' of
           None \<Rightarrow> ret False
         | Some message \<Rightarrow>
             (case cJSON_GetObjectItem (Some received_json) ''hostname'' of
                None \<Rightarrow> ret False
              | Some hostname \<Rightarrow>
                  andthen (deref (valuestring message)) (\<lambda>request.
                  andthen
                    (if request = ''update'' then deref (valuestring hostname)
                     else ret (case valuestring hostname of None \<Rightarrow> '''' | Some a \<Rightarrow> a)) (\<lambda>auth.
                  andthen (udp_request os fd addr addrlen client_ip received_json request auth) (\<lambda>_.
                  ret True)))))))"

definition handle_udp_socket_activity :: "os \<Rightarrow> int \<Rightarrow> unit srv" where
  "handle_udp_socket_activity os fd = andthen (check_udp_clients_messages os fd) (\<lambda>_. ret ())"

end
