(* ===== verification/EventLoop.thy ===== *)
theory EventLoop
  imports Handlers
begin

text \<open>
  The rest of the server process: the notifications on the Unix socket, the alerts in the
  FIFO, the start, one round of the event loop (\<open>select\<close> and the sweep over the ready
  descriptors), the signal handler, and the process as a transition system whose steps are
  rounds and signals.
\<close>

section \<open>Unix notifications\<close>

text \<open>The connection of a program that connects; a failed \<open>accept\<close> is only printed.\<close>

definition accept_unix_connection :: "os \<Rightarrow> int option" where
  "accept_unix_connection os = unix_accepted os"

declare accept_unix_connection_def [simp]

text \<open>The text is logged; every TCP client is told to disconnect.\<close>

definition handle_unix_socket_activity :: "os \<Rightarrow> int \<Rightarrow> bool \<Rightarrow> unit srv" where
  "handle_unix_socket_activity os fd connection_oriented =
     (if connection_oriented then
        (case accept_unix_connection os of
           None \<Rightarrow> ret ()
         | Some client_fd \<Rightarrow>
             block
               [case incoming os client_fd of
                  None \<Rightarrow> ret ()
                | Some available \<Rightarrow>
                    let bytes = take BUFFER_SIZE available in
                    if bytes = [] then ret ()
                    else
                      andthen (lift (received_string BUFFER_SIZE bytes)) (\<lambda>text.
                      andthen (with_heap (message_object ''disconnect'')) (\<lambda>disconnect_json.
                      andthen (with_heap (cJSON_Print disconnect_json)) (\<lambda>disconnect.
                      block [send_to_all_tcp_clients os disconnect, log_event os text]))),
                emit (Close client_fd)])
      else
        (case incoming os fd of
           None \<Rightarrow> ret ()
         | Some available \<Rightarrow>
             let bytes = take BUFFER_SIZE available in
             if bytes = [] then ret ()
             else andthen (lift (received_string BUFFER_SIZE bytes)) (\<lambda>_. ret ())))"

section \<open>Alerts\<close>

text \<open>What is done with the text of an alert.\<close>

definition broadcast_alert :: "os \<Rightarrow> string \<Rightarrow> unit srv" where
  "broadcast_alert os alert_message =
     block
       [log_event os alert_message,
        record_event os alert_message,
        send_to_all_tcp_clients os (Some alert_message),
        send_to_all_udp_clients alert_message,
        log_event os ''Sent alert notification to all connected clients'',
        case detect_entry alert_message of
          None \<Rightarrow> ret ()
        | Some entry \<Rightarrow>
            zoom entry_alerts_count (\<lambda>c s. s\<lparr>entry_alerts_count := c\<rparr>) (count_entry entry)]"

text \<open>The buffer is filled with zeros before the read, and may be read into to its end.\<close>

definition check_alerts :: "os \<Rightarrow> unit srv" where
  "check_alerts os =
     (if \<not> fifo_opens os then ret ()
      else
        (case fifo_data os of
           None \<Rightarrow> ret ()
         | Some available \<Rightarrow>
             let bytes = take BUFFER_SIZE available in
             if bytes = [] then ret ()
             else
               andthen (lift (cstr (bytes @ replicate (BUFFER_SIZE - length bytes) NUL)))
                 (broadcast_alert os)))"

section \<open>Signals and child processes\<close>

definition sigint_handler :: "unit srv" where
  "sigint_handler =
     block
       [modify (\<lambda>s. s\<lparr>running := False\<rparr>),
        andthen (gets alerts_pid) (\<lambda>pid. if 0 < pid then emit (Kill pid) else ret ()),
        andthen (gets power_outage_pid) (\<lambda>pid. if 0 < pid then emit (Kill pid) else ret ())]"

text \<open>The parent's side of the two \<open>fork\<close>s. The second keeps the process id in a local
  variable of the same name as the global one.\<close>

definition create_infection_alerts_process :: "int \<Rightarrow> unit srv" where
  "create_infection_alerts_process forked =
     andthen (modify (\<lambda>s. s\<lparr>alerts_pid := forked\<rparr>)) (\<lambda>_.
     if forked < 0 then halt (Exit 1) else ret ())"

definition create_power_outage_alert_process :: "int \<Rightarrow> unit srv" where
  "create_power_outage_alert_process forked =
     (let power_outage_pid = forked in
      if power_outage_pid = - 1 then halt (Exit 1) else ret ())"

section \<open>The event loop\<close>

record sockets =
  tcp_socket_fd :: int
  udp_socket_fd :: int
  unix_socket_fd :: int
  fifo_fd :: int

text \<open>The globals of a C program start as zeros.\<close>

definition initial_server :: server where
  "initial_server =
     \<lparr>running = True, alerts_pid = 0, power_outage_pid = 0,
      tcp_clients = no_tcp_clients,
      udp_clients =
        \<lparr>clients = replicate MAX_CLIENTS
           \<lparr>sockfd = 0, client_addr = Sockaddr_other 0 0 (replicate 4 0) (replicate 16 0),
            addr_len = 0, family = Some IPv4\<rparr>,
         num_udp_clients = 0\<rparr>,
      entry_alerts_count = \<lparr>north = 0, south = 0, east = 0, west = 0\<rparr>,
      emergency_info = no_emergency_info,
      segments = \<lparr>food_segment = None, medicine_segment = None\<rparr>,
      master_fds = {}, max_fd = 0, heap = [], logs = [], outputs = []\<rparr>"

text \<open>\<open>start_server\<close> up to its loop: before the sockets are made, and once they are open.\<close>

definition server_begin :: "os \<Rightarrow> unit srv" where
  "server_begin os =
     block
       [log_event os ''Server started'',
        modify (\<lambda>s. s\<lparr>entry_alerts_count := initialize_entry_alerts_count (entry_alerts_count s)\<rparr>)]"

definition server_watch :: "os \<Rightarrow> sockets \<Rightarrow> unit srv" where
  "server_watch os k =
     block
       [if fifo_fd k < 0 then halt (Exit 1) else ret (),
        modify (\<lambda>s. s\<lparr>segments := init_shared_memory_supplies (shm_calls os) (segments s)\<rparr>),
        modify (\<lambda>s. s\<lparr>max_fd := max (max (max (tcp_socket_fd k) (udp_socket_fd k)) (fifo_fd k))
                                   (unix_socket_fd k),
                      master_fds := {}\<rparr>),
        fd_set_add (tcp_socket_fd k), fd_set_add (udp_socket_fd k),
        fd_set_add (unix_socket_fd k), fd_set_add (fifo_fd k),
        andthen (get_home_dir os) (\<lambda>_. ret ())]"

definition start_server_setup :: "os \<Rightarrow> sockets \<Rightarrow> unit srv" where
  "start_server_setup os k = block [server_begin os, server_watch os k]"

definition dispatch :: "os \<Rightarrow> sockets \<Rightarrow> int \<Rightarrow> unit srv" where
  "dispatch os k fd =
     (if fd = tcp_socket_fd k then handle_tcp_accept os
      else if fd = udp_socket_fd k then handle_udp_socket_activity os fd
      else if fd = unix_socket_fd k then handle_unix_socket_activity os fd True
      else if fd = fifo_fd k then check_alerts os
      else handle_tcp_socket_activity os fd)"

text \<open>Two helpers of \<open>server.c\<close> around \<open>accept\<close> and \<open>select\<close>; \<open>ready\<close> answers at once.\<close>

definition handle_new_tcp_connection :: "os \<Rightarrow> unit srv" where
  "handle_new_tcp_connection os = andthen (accept_tcp_connection os) (\<lambda>_. ret ())"

definition fifo_not_empty :: "os \<Rightarrow> int \<Rightarrow> bool srv" where
  "fifo_not_empty os fd =
     (if fd < 0 \<or> FD_SETSIZE \<le> fd then fault Out_of_bounds
      else case ready os of None \<Rightarrow> halt (Exit 1) | Some r \<Rightarrow> ret (r fd))"

text \<open>
  The sweep from \<open>fd\<close> to \<open>max_fd\<close>, which a new connection can raise on the way. A descriptor
  set has no bits at \<open>FD_SETSIZE\<close> and above, so the fuel \<open>FD_SETSIZE + 1 - fd\<close> is enough.
\<close>

primrec sweep :: "nat \<Rightarrow> os \<Rightarrow> sockets \<Rightarrow> int set \<Rightarrow> int \<Rightarrow> unit srv" where
  "sweep 0 os k read_fds fd = halt Out_of_fuel"
| "sweep (Suc fuel) os k read_fds fd =
     andthen (gets max_fd) (\<lambda>m.
     if m < fd then ret ()
     else if fd < 0 \<or> FD_SETSIZE \<le> fd then fault Out_of_bounds
     else
       andthen (if fd \<in> read_fds then dispatch os k fd else ret ()) (\<lambda>_.
       sweep fuel os k read_fds (fd + 1)))"

text \<open>One round: \<open>select\<close> answers which of the watched descriptors are ready.\<close>

definition server_round :: "os \<Rightarrow> sockets \<Rightarrow> unit srv" where
  "server_round os k =
     (case ready os of
        None \<Rightarrow> halt (Exit 1)
      | Some r \<Rightarrow>
          andthen (gets (\<lambda>s. {fd \<in> master_fds s. r fd})) (\<lambda>read_fds.
          sweep (nat (FD_SETSIZE + 1 - tcp_socket_fd k)) os k read_fds (tcp_socket_fd k)))"

text \<open>The loop is left, with a log entry, once a signal has cleared \<open>running\<close>.\<close>

definition server_loop_step :: "os \<Rightarrow> sockets \<Rightarrow> bool srv" where
  "server_loop_step os k =
     andthen (gets running) (\<lambda>r.
     if r then andthen (server_round os k) (\<lambda>_. ret True)
     else andthen (log_event os ''Server turned off'') (\<lambda>_. ret False))"

end
