(* ===== verification/WorldFacts.thy ===== *)
theory WorldFacts
  imports EventLoop
begin

text \<open>
  What the operations of \<open>World\<close> do in a world without trouble (\<open>benign\<close>) to a server whose
  state is well formed (\<open>server_ok\<close>): exact results where the theorems state them, and the
  preservation of \<open>server_ok\<close> for the rest.
\<close>

section \<open>The invariant and the benign world\<close>

definition server_ok :: "server \<Rightarrow> bool" where
  "server_ok s \<longleftrightarrow> tcp_inv (tcp_clients s) \<and> udp_inv (udp_clients s) \<and>
     sorted_wrt (\<lambda>x y. \<not> same_peer x y) (known (udp_clients s)) \<and>
     counts_ok (entry_alerts_count s) \<and> info_ok (emergency_info s) \<and>
     (\<exists>f d. segments s = \<lparr>food_segment = Some f, medicine_segment = Some d\<rparr> \<and> food_ok f \<and> medicine_ok d) \<and>
     master_fds s \<subseteq> {0..<FD_SETSIZE} \<and> max_fd s < FD_SETSIZE \<and> heap s = []"

fun internet :: "sockaddr \<Rightarrow> bool" where
  "internet (Sockaddr_other _ _ _ _) = False"
| "internet _ = True"

text \<open>The fields a handler reads as strings are strings.\<close>

definition text_fields :: "cJSON \<Rightarrow> bool" where
  "text_fields json \<longleftrightarrow> (\<forall>key \<in> {''message'', ''hostname''}. \<forall>it.
     cJSON_GetObjectItem (Some json) key = Some it \<longrightarrow> valuestring it \<noteq> None)"

definition text_message :: "nat \<Rightarrow> string \<Rightarrow> bool" where
  "text_message limit bytes \<longleftrightarrow>
     (case cJSON_Parse limit (upto_nul bytes) [] of Inr (Some json, _) \<Rightarrow> text_fields json | _ \<Rightarrow> True)"

definition benign :: "os \<Rightarrow> bool" where
  "benign os \<longleftrightarrow>
     home os \<noteq> None \<and> c_string (now os) \<and> length (now os) < 30 \<and>
     (\<forall>key. shmget_ok (shm_calls os) key \<and> shmat_ok (shm_calls os) key) \<and>
     (\<forall>fd bytes. incoming os fd = Some bytes \<longrightarrow>
        length bytes < BUFFER_SIZE \<and> text_message (nesting_limit os) bytes) \<and>
     (\<forall>payload addr len. datagram os = Some (payload, addr, len) \<longrightarrow>
        internet addr \<and> text_message (nesting_limit os) (take (BUFFER_SIZE - 1) payload)) \<and>
     (\<forall>fd addr. accepted os = Some (fd, addr) \<longrightarrow> internet addr \<and> 0 \<le> fd \<and> fd < FD_SETSIZE) \<and>
     (\<forall>bytes. fifo_data os = Some bytes \<longrightarrow> length bytes < 100) \<and>
     ready os \<noteq> None \<and> (\<forall>fd. \<not> broken_pipe os fd)"

text \<open>A world in which nothing happens, for the examples.\<close>

definition quiet_os :: os where
  "quiet_os =
     \<lparr>home = Some ''/home/ubuntu'', stat_ok = (\<lambda>_. True), mkdir_ok = (\<lambda>_. True), fopen_ok = (\<lambda>_. True),
      now = ''2024-05-01 10:00:00'',
      shm_calls = \<lparr>shmget_ok = (\<lambda>_. True), shmat_ok = (\<lambda>_. True)\<rparr>,
      getpeername = (\<lambda>_. Some (Sockaddr_in6 5000 [0, 0, 0, 0] (replicate 15 0 @ [1]))),
      accepted = None, unix_accepted = None, incoming = (\<lambda>_. None), datagram = None,
      sendto_ok = True, broken_pipe = (\<lambda>_. False), fifo_opens = True, fifo_data = None, nesting_limit = 1000,
      ready = Some (\<lambda>_. False)\<rparr>"

lemma quiet_benign [simp]: "benign quiet_os"
  by (simp add: benign_def quiet_os_def)

lemma quiet_fields [simp]:
  "incoming quiet_os fd = None" "\<not> broken_pipe quiet_os fd" "fifo_opens quiet_os" "nesting_limit quiet_os = 1000"
  by (simp_all add: quiet_os_def)

abbreviation overflow :: "stop \<Rightarrow> bool" where
  "overflow e \<equiv> e = Fault Signed_overflow"

abbreviation keeps :: "'a srv \<Rightarrow> bool" where
  "keeps \<equiv> safe server_ok overflow"

section \<open>The log\<close>

definition log_lines :: "os \<Rightarrow> string \<Rightarrow> (string \<times> string) list" where
  "log_lines os message =
     (let dir = snprintf BUFFER_256 (the (home os) @ LOG_DIR);
          path = snprintf BUFFER_521 (dir @ LOG_FILENAME)
      in if (stat_ok os dir \<or> mkdir_ok os dir) \<and> fopen_ok os path
         then [(path, (''['' @ now os @ '']'') @ '' '' @ message)] else [])"

lemma log_event_run:
  "home os \<noteq> None \<Longrightarrow> log_event os m s = Inr ((), s\<lparr>logs := logs s @ log_lines os m\<rparr>)"
  by (auto simp: log_event_def get_home_dir_def log_lines_def run Let_def)

lemma log_message_run:
  "home os \<noteq> None \<Longrightarrow>
   log_message os m x s = Inr ((), s\<lparr>logs := logs s @ log_lines os (snprintf BUFFER_256 (m @ x))\<rparr>)"
  by (simp add: log_message_def log_event_run)

lemma benignD:
  assumes "benign os"
  shows "home os \<noteq> None" "c_string (now os)" "length (now os) < 30"
    "shmget_ok (shm_calls os) key" "shmat_ok (shm_calls os) key"
    "incoming os fd = Some bytes \<Longrightarrow> length bytes < BUFFER_SIZE"
    "incoming os fd = Some bytes \<Longrightarrow> text_message (nesting_limit os) bytes"
    "datagram os = Some (payload, addr, len) \<Longrightarrow> internet addr"
    "datagram os = Some (payload, addr, len) \<Longrightarrow>
      text_message (nesting_limit os) (take (BUFFER_SIZE - 1) payload)"
    "accepted os = Some (fd, addr) \<Longrightarrow> internet addr \<and> 0 \<le> fd \<and> fd < FD_SETSIZE"
    "fifo_data os = Some bytes \<Longrightarrow> length bytes < 100"
    "ready os \<noteq> None" "\<not> broken_pipe os fd"
  using assms by (simp_all add: benign_def)

lemma server_ok_frame [simp]:
  "server_ok (s\<lparr>logs := l\<rparr>) = server_ok s" "server_ok (s\<lparr>outputs := x\<rparr>) = server_ok s"
  "server_ok (s\<lparr>running := r\<rparr>) = server_ok s"
  by (simp_all add: server_ok_def)

lemma keeps_log_event: "benign os \<Longrightarrow> keeps (log_event os m)"
  by (rule safeI) (simp add: wp_def log_event_run benignD)

lemma keeps_log_message: "benign os \<Longrightarrow> keeps (log_message os m x)"
  by (simp add: log_message_def keeps_log_event)

lemma keeps_emit: "keeps (emit x)"
  by (simp add: emit_def safe_rules)

section \<open>Addresses\<close>

definition tcp_ip :: "os \<Rightarrow> int \<Rightarrow> string" where
  "tcp_ip os fd =
     (case getpeername os fd of
        None \<Rightarrow> ''Unknown''
      | Some (Sockaddr_in _ a) \<Rightarrow> dotted a
      | Some (Sockaddr_in6 _ _ a) \<Rightarrow> colon_hex a
      | Some (Sockaddr_other _ _ _ a) \<Rightarrow> colon_hex a)"

lemma get_tcp_client_ip_run: "get_tcp_client_ip os fd s = Inr (tcp_ip os fd, s)"
  by (simp add: get_tcp_client_ip_def tcp_ip_def filled_def run INET6_ADDRSTRLEN_def
      split: option.splits sockaddr.splits)

lemma tcp_ip_text: "c_string (tcp_ip os fd)" "length (tcp_ip os fd) \<le> 45"
  using length_dotted length_colon_hex
  by (auto simp: tcp_ip_def intro: order_trans [OF length_dotted] split: option.splits sockaddr.splits)

lemma get_udp_client_info_run:
  "internet addr \<Longrightarrow> 46 \<le> n \<Longrightarrow> \<exists>ip port. get_udp_client_info addr n = (Some ip, port)"
  by (cases addr) (simp_all add: get_udp_client_info_def)

section \<open>Registries and broadcasts\<close>

lemma keeps_on_tcp:
  assumes "\<And>l. tcp_inv l \<Longrightarrow> wp m (\<lambda>_. tcp_inv) overflow l"
  shows "keeps (on_tcp m)"
  unfolding on_tcp_def
  by (rule safe_zoom) (auto simp: server_ok_def intro: wp_mono [OF assms])

lemma keeps_add_tcp_client: "benign os \<Longrightarrow> keeps (add_tcp_client os fd)"
  unfolding add_tcp_client_def log_total_def
  by (intro safe_rules keeps_on_tcp keeps_log_message)
    (auto intro: wp_mono [OF tcp_add_ok])

lemma keeps_remove_tcp_client: "benign os \<Longrightarrow> keeps (remove_tcp_client os fd)"
  unfolding remove_tcp_client_def log_total_def
  by (intro safe_rules keeps_on_tcp keeps_log_message)
    (auto intro: wp_mono [OF tcp_remove_ok])

lemma keeps_add_udp_client: "benign os \<Longrightarrow> keeps (add_udp_client os c)"
proof -
  assume os: "benign os"
  have "keeps (on_udp (udp_add c))"
    unfolding on_udp_def
  proof (rule safe_zoom)
    fix s
    assume s: "server_ok s"
    then have inv: "udp_inv (udp_clients s)"
        "sorted_wrt (\<lambda>x y. \<not> same_peer x y) (known (udp_clients s))"
      by (auto simp: server_ok_def)
    show "wp (udp_add c) (\<lambda>_ l. server_ok (s\<lparr>udp_clients := l\<rparr>)) overflow (udp_clients s)"
      by (rule wp_mono [OF udp_add_ok [OF inv(1)]])
        (use s inv(2) in \<open>auto simp: server_ok_def sorted_wrt_append split: if_splits\<close>)
  qed
  then show ?thesis unfolding add_udp_client_def log_total_def
    by (intro safe_rules keeps_log_message os)
qed

lemma emit_block_run:
  "block (map (\<lambda>x. emit (g x)) xs) s = Inr ((), s\<lparr>outputs := outputs s @ map g xs\<rparr>)"
  by (induction xs arbitrary: s) (simp_all add: run emit_def)

text \<open>One connection that the peer has reset is enough for a broadcast to end the process.\<close>

lemma send_call_run: "benign os \<Longrightarrow> send_call os fd m = emit (Send fd m)"
  by (simp add: send_call_def benignD)

lemma send_calls_run:
  "block (map (\<lambda>fd. send_call os fd m) fds) s =
    (if \<exists>fd \<in> set fds. broken_pipe os fd then Inl Killed
     else Inr ((), s\<lparr>outputs := outputs s @ map (\<lambda>fd. Send fd m) fds\<rparr>))"
  by (induction fds arbitrary: s) (auto simp: run send_call_def emit_def)

lemma send_to_all_tcp_clients_cases:
  assumes "tcp_inv (tcp_clients s)"
  shows "send_to_all_tcp_clients os (Some m) s =
    (if \<exists>fd \<in> set (connected (tcp_clients s)). broken_pipe os fd then Inl Killed
     else Inr ((), s\<lparr>outputs := outputs s @ map (\<lambda>fd. Send fd m) (connected (tcp_clients s))\<rparr>))"
  using assms collect_result [of 0 "num_clients (tcp_clients s)" "client_fds (tcp_clients s)" id]
  by (simp add: send_to_all_tcp_clients_def run on_tcp_def on_fds_def tcp_inv_def connected_def
      send_calls_run)

lemma send_to_all_tcp_clients_run:
  assumes "tcp_inv (tcp_clients s)" and "\<And>fd. \<not> broken_pipe os fd"
  shows "send_to_all_tcp_clients os (Some m) s =
    Inr ((), s\<lparr>outputs := outputs s @ map (\<lambda>fd. Send fd m) (connected (tcp_clients s))\<rparr>)"
  using assms by (simp add: send_to_all_tcp_clients_cases)

lemma send_to_all_udp_clients_run:
  assumes "udp_inv (udp_clients s)"
  shows "send_to_all_udp_clients m s =
    Inr ((), s\<lparr>outputs := outputs s @
      map (\<lambda>c. Sendto (sockfd c) (client_addr c) (addr_len c) m) (known (udp_clients s))\<rparr>)"
  using assms collect_result [of 0 "num_udp_clients (udp_clients s)" "clients (udp_clients s)" id]
  by (simp add: send_to_all_udp_clients_def run on_udp_def on_clients_def udp_inv_def known_def
      emit_block_run)

section \<open>Messages\<close>

text \<open>The text of an item as the server sends it, and a bound on its length.\<close>

definition short_text :: "cJSON \<Rightarrow> nat \<Rightarrow> nat \<Rightarrow> bool" where
  "short_text it d n \<longleftrightarrow> printable it \<and> (\<exists>u. render True d it = Some u \<and> length u \<le> n)"

lemma length_escape_le: "length (escape_char c) \<le> 6"
  by (simp add: length_escape_char escape_count_def)

lemma length_quote: "length (quote (Some s)) \<le> 6 * length s + 2"
proof -
  have "length (concat (map escape_char s)) \<le> 6 * length s"
    using length_escape_le by (induction s) (auto intro: add_mono)
  then show ?thesis by (simp add: quote_def)
qed

lemma render_json_object:
  "render fmt d (json_object ch) =
     map_option (\<lambda>ss. ''{'' @ newline fmt @
         member_texts fmt (d + 1) (zip (map name ch) ss) @ indent fmt d @ ''}'')
       (those (map (render fmt (d + 1)) ch))"
  by (subst render.simps) simp

lemma short_int: "is_int i \<Longrightarrow> 11 \<le> n \<Longrightarrow> short_text (json_int i) d n"
  using length_show_int [of i] by (simp add: short_text_def render_json)

lemma short_string: "c_string s \<Longrightarrow> 6 * length s + 2 \<le> n \<Longrightarrow> short_text (json_string s) d n"
  using length_quote [of s] by (simp add: short_text_def render_json)

text \<open>An object of members given by name, item and bound.\<close>

lemma short_members:
  assumes "\<forall>(k, it, b) \<in> set ms. c_string k \<and> short_text it d b"
  shows "\<exists>us. those (map (render True d) (map (\<lambda>(k, it, b). member k it) ms)) = Some us \<and>
    length (member_texts True d (zip (map (\<lambda>m. Some (fst m)) ms) us)) \<le>
      sum_list (map (\<lambda>(k, it, b). d + 6 * length k + b + 6) ms)"
  using assms
proof (induction ms)
  case Nil
  then show ?case by simp
next
  case (Cons m ms)
  obtain k it b where m: "m = (k, it, b)" by (metis prod_cases3)
  have "\<forall>(k, it, b) \<in> set ms. c_string k \<and> short_text it d b" using Cons.prems by auto
  from Cons.IH [OF this] obtain us where
    us: "those (map (render True d) (map (\<lambda>(k, it, b). member k it) ms)) = Some us"
      "length (member_texts True d (zip (map (\<lambda>m. Some (fst m)) ms) us)) \<le>
        sum_list (map (\<lambda>(k, it, b). d + 6 * length k + b + 6) ms)" by blast
  obtain u where u: "render True d it = Some u" "length u \<le> b"
    using Cons.prems m by (auto simp: short_text_def)
  show ?case using us u length_quote [of k]
    by (simp add: m member_texts_Cons member_text_def member_end_def indent_def tabs_def colon_def
        newline_def)
qed

lemma short_object:
  assumes "\<forall>(k, it, b) \<in> set ms. c_string k \<and> short_text it (d + 1) b"
    and "ch = map (\<lambda>(k, it, b). member k it) ms"
    and "3 + d + sum_list (map (\<lambda>(k, it, b). d + 1 + 6 * length k + b + 6) ms) \<le> n"
  shows "short_text (json_object ch) d n"
proof -
  obtain us where us: "those (map (render True (d + 1)) ch) = Some us"
      "length (member_texts True (d + 1) (zip (map (\<lambda>m. Some (fst m)) ms) us)) \<le>
        sum_list (map (\<lambda>(k, it, b). d + 1 + 6 * length k + b + 6) ms)"
    using short_members [OF assms(1)] assms(2) by auto
  have "map name ch = map (\<lambda>m. Some (fst m)) ms"
    by (auto simp: assms(2))
  moreover have "printable (json_object ch)"
    using assms(1) by (auto simp: assms(2) short_text_def)
  ultimately show ?thesis using us assms(3)
    by (simp add: short_text_def render_json_object newline_def indent_def tabs_def)
qed

lemma short_message: "c_string s \<Longrightarrow> length s \<le> 20 \<Longrightarrow>
  short_text (json_object [member ''message'' (json_string s)]) 0 200"
  by (rule short_object [where ms = "[(''message'', json_string s, 122)]"])
    (simp_all add: short_string)

lemma short_food: "food_ok f \<Longrightarrow> short_text (food_json f) d (5 * d + 230)"
  unfolding food_json_def
  by (rule short_object [where ms = "[(''meat'', json_int (meat f), 11),
      (''vegetables'', json_int (vegetables f), 11), (''fruits'', json_int (fruits f), 11),
      (''water'', json_int (water f), 11)]"]) (simp_all add: short_int food_okD)

lemma short_medicine: "medicine_ok m \<Longrightarrow> short_text (medicine_json m) d (5 * d + 260)"
  unfolding medicine_json_def
  by (rule short_object [where ms = "[(''antibiotics'', json_int (antibiotics m), 11),
      (''analgesics'', json_int (analgesics m), 11), (''bandages'', json_int (bandages m), 11)]"])
    (simp_all add: short_int medicine_okD)

lemma short_supplies:
  "food_ok f \<Longrightarrow> medicine_ok m \<Longrightarrow> short_text (supplies_json f m) d (20 * d + 700)"
  unfolding supplies_json_def
  by (rule short_object [where ms = "[(''food'', food_json f, 5 * d + 235),
      (''medicine'', medicine_json m, 5 * d + 265)]"])
    (use short_food [of f "d + 1"] short_medicine [of m "d + 1"] in \<open>simp_all add: add.commute\<close>)

lemma short_summary:
  assumes "counts_ok c" and "food_ok f" and "medicine_ok m" and "c_string ka" and "length ka < 30"
    and "c_string ev" and "length ev < 100"
  shows "short_text (summary_json c f m ka ev) 0 5000"
proof -
  have alerts: "short_text (alerts_json c) 1 500"
    unfolding alerts_json_def
    by (rule short_object [where ms = "[(''north_entry'', json_int (north c), 11),
        (''east_entry'', json_int (east c), 11), (''west_entry'', json_int (west c), 11),
        (''south_entry'', json_int (south c), 11)]"])
      (simp_all add: short_int counts_int [OF assms(1)])
  have emergency: "short_text (json_object [member ''last_keepalived'' (json_string ka),
      member ''last_event'' (json_string ev)]) 1 2000"
    by (rule short_object [where ms = "[(''last_keepalived'', json_string ka, 182),
        (''last_event'', json_string ev, 602)]"]) (use assms in \<open>simp_all add: short_string\<close>)
  show ?thesis unfolding summary_json_def
    by (rule short_object [where ms = "[(''alerts'', alerts_json c, 500),
        (''supplies'', supplies_json f m, 720), (''emergency'', json_object
          [member ''last_keepalived'' (json_string ka), member ''last_event'' (json_string ev)], 2000)]"])
      (use alerts emergency short_supplies [OF assms(2,3), of 1] in simp_all)
qed

definition text_of :: "cJSON \<Rightarrow> string" where
  "text_of it = the (render True 0 it)"

lemma cJSON_Print_short:
  "short_text it 0 n \<Longrightarrow> n \<le> 5000 \<Longrightarrow> cJSON_Print (Some it) [] = Inr (Some (text_of it), [])"
  by (auto simp: short_text_def text_of_def int_bounds intro!: cJSON_Print_Nil)

lemma send_json_run:
  "benign os \<Longrightarrow> heap s = [] \<Longrightarrow> short_text it 0 n \<Longrightarrow> n \<le> 5000 \<Longrightarrow>
   send_json_to_tcp_client os fd (Some it) s = Inr ((), s\<lparr>outputs := outputs s @ [Send fd (text_of it)]\<rparr>)"
  by (simp add: send_json_to_tcp_client_def with_heap_def run cJSON_Print_short send_call_run emit_def)

text \<open>What the benign world and the empty list of coming allocation failures exclude.\<close>

lemma broken_pipe_kills:
  "heap s = [] \<Longrightarrow> short_text it 0 n \<Longrightarrow> n \<le> 5000 \<Longrightarrow> broken_pipe os fd \<Longrightarrow>
   send_json_to_tcp_client os fd (Some it) s = Inl Killed"
  by (simp add: send_json_to_tcp_client_def with_heap_def run cJSON_Print_short send_call_def)

lemma failed_print_dereferenced:
  "heap s = False # h \<Longrightarrow>
   send_json_to_tcp_client os fd (Some it) s = Inl (Fault Null_deref)"
  by (simp add: send_json_to_tcp_client_def with_heap_def run cJSON_Print_def print_def alloc_def)

lemma message_object_Nil:
  "message_object t [] = Inr (Some (json_object [member ''message'' (json_string t)]), [])"
  by (simp add: message_object_def run)

end
