(* ===== verification/TcpFacts.thy ===== *)
theory TcpFacts
  imports WorldFacts
begin

text \<open>
  The TCP handlers: what each request does to the server and what the client is sent, and the
  preservation of the invariant.
\<close>

lemma supply_pointers_ok:
  assumes "server_ok s" and "benign os"
  obtains f d where "supply_pointers os s = (Some f, Some d)" "food_ok f" "medicine_ok d"
    "segments s = \<lparr>food_segment = Some f, medicine_segment = Some d\<rparr>"
    "get_food_supply (shm_calls os) (segments s) = Some f"
    "get_medicine_supply (shm_calls os) (segments s) = Some d"
  using assms that
  by (auto simp: server_ok_def supply_pointers_def get_food_supply_def get_medicine_supply_def benignD)

definition noted :: "os \<Rightarrow> string \<Rightarrow> server \<Rightarrow> server" where
  "noted os event s = s\<lparr>emergency_info := update_emergency_info (now os) event (emergency_info s),
                       logs := logs s @ log_lines os event\<rparr>"

lemma noted_ok:
  assumes "server_ok s" and "benign os" and "c_string event" and "length event < 100"
  shows "server_ok (noted os event s)"
  using assms info_ok_update_iff [of "emergency_info s" "now os" event] benignD(2,3) [OF assms(2)]
  by (simp add: server_ok_def noted_def)

lemma noted_frame [simp]:
  "segments (noted os e s) = segments s" "outputs (noted os e s) = outputs s"
  "heap (noted os e s) = heap s" "tcp_clients (noted os e s) = tcp_clients s"
  "udp_clients (noted os e s) = udp_clients s" "master_fds (noted os e s) = master_fds s"
  "entry_alerts_count (noted os e s) = entry_alerts_count s"
  by (simp_all add: noted_def)

definition tcp_text :: "string \<Rightarrow> os \<Rightarrow> int \<Rightarrow> string" where
  "tcp_text message os fd = snprintf BUFFER_256 (message @ tcp_ip os fd)"

lemma tcp_text_ok:
  "c_string message \<Longrightarrow> length message < 55 \<Longrightarrow>
   c_string (tcp_text message os fd) \<and> length (tcp_text message os fd) < 100"
  using tcp_ip_text [of os fd] by (auto simp: tcp_text_def snprintf_def)

lemma heap_with_heap:
  "heap s = [] \<Longrightarrow> m [] = Inr (x, []) \<Longrightarrow> with_heap m s = Inr (x, s)"
  by (simp add: with_heap_def run)

lemma server_ok_heap: "server_ok s \<Longrightarrow> heap s = []"
  by (simp add: server_ok_def)

section \<open>Status\<close>

lemma tcp_status_run:
  assumes s: "server_ok s" and os: "benign os" and ptr: "supply_pointers os s = (Some f, Some d)"
    and fd: "food_ok f" "medicine_ok d"
  shows "tcp_status os fd s =
    Inr ((), noted os (tcp_text ''Status request from TCP client '' os fd) s
      \<lparr>outputs := outputs s @ [Send fd (text_of (supplies_json f d))]\<rparr>)"
proof -
  let ?e = "tcp_text ''Status request from TCP client '' os fd"
  have "send_json_to_tcp_client os fd (Some (supplies_json f d)) (noted os ?e s) =
      Inr ((), noted os ?e s\<lparr>outputs := outputs s @ [Send fd (text_of (supplies_json f d))]\<rparr>)"
    using send_json_run [OF os, of "noted os ?e s"] short_supplies [OF fd, of 0] server_ok_heap [OF s] by simp
  then show ?thesis
    using ptr server_ok_heap [OF s] os
    by (simp add: tcp_status_def run Let_def get_tcp_client_ip_run record_event_def log_event_run benignD
        heap_with_heap [where m = "convert_supplies_to_json (Some f) (Some d)" and
          x = "Some (supplies_json f d)"] convert_supplies_Nil [OF fd] tcp_text_def noted_def)
qed

section \<open>Update\<close>

lemma update_supplies_run:
  assumes ptr: "supply_pointers os s = (Some f, Some d)" and fd: "food_ok f" "medicine_ok d"
    and seg: "segments s = \<lparr>food_segment = Some f, medicine_segment = Some d\<rparr>"
  shows "update_supplies os json s =
    (if update_fits json f d
     then Inr ((), s\<lparr>segments := \<lparr>food_segment = Some (food_after json f),
                                   medicine_segment = Some (medicine_after json d)\<rparr>\<rparr>)
     else Inl (Fault Signed_overflow))"
  using update_food_result [OF fd(1)] update_medicine_result [OF fd(2)]
  by (auto simp: update_supplies_def run ptr update_supplies_from_json_def store_supplies_def update_fits_def)

lemma after_ok:
  assumes "update_fits json f d"
  shows "food_ok (food_after json f)" "medicine_ok (medicine_after json d)"
  using assms by (auto simp: update_fits_def food_ok_def medicine_ok_def food_after_def
      medicine_after_def int_bounds)

lemma tcp_update_run:
  assumes s: "server_ok s" and os: "benign os" and ptr: "supply_pointers os s = (Some f, Some d)"
    and fd: "food_ok f" "medicine_ok d"
    and seg: "segments s = \<lparr>food_segment = Some f, medicine_segment = Some d\<rparr>"
  shows "tcp_update os fd json s =
    (if update_fits (Some json) f d
     then Inr ((), noted os (tcp_text ''Update request from TCP client '' os fd) s
       \<lparr>segments := \<lparr>food_segment = Some (food_after (Some json) f),
                      medicine_segment = Some (medicine_after (Some json) d)\<rparr>\<rparr>)
     else Inl (Fault Signed_overflow))"
proof -
  let ?n = "noted os (tcp_text ''Update request from TCP client '' os fd) s"
  have "supply_pointers os ?n = (Some f, Some d)"
    using ptr by (simp add: supply_pointers_def)
  from update_supplies_run [OF this fd, of "Some json"] seg show ?thesis
    using ptr os by (simp add: tcp_update_def run Let_def get_tcp_client_ip_run record_event_def
        log_event_run benignD tcp_text_def noted_def split del: if_split)
qed

section \<open>Summary\<close>

definition event_text :: "EmergencyInfo \<Rightarrow> string" where
  "event_text info = upto_nul (last_event info)"

definition keepalived_text :: "EmergencyInfo \<Rightarrow> string" where
  "keepalived_text info = upto_nul (last_keepalived info)"

lemma info_texts:
  assumes "info_ok info"
  shows "cstr (last_event info) = Inr (event_text info)"
    "cstr (last_keepalived info) = Inr (keepalived_text info)"
    "length (event_text info) < 100" "length (keepalived_text info) < 30"
    "c_string (event_text info)" "c_string (keepalived_text info)"
proof -
  show e: "cstr (last_event info) = Inr (event_text info)"
    "cstr (last_keepalived info) = Inr (keepalived_text info)"
    using assms by (auto simp: info_ok_def cstr_def event_text_def keepalived_text_def)
  show "length (event_text info) < 100" "length (keepalived_text info) < 30"
    using cstr_InrD [OF e(1)] cstr_InrD [OF e(2)] assms by (auto simp: info_ok_def)
  show "c_string (event_text info)" "c_string (keepalived_text info)"
    by (simp_all add: event_text_def keepalived_text_def)
qed

definition current_summary :: "server \<Rightarrow> FoodSupply \<Rightarrow> MedicineSupply \<Rightarrow> cJSON" where
  "current_summary s f d = summary_json (entry_alerts_count s) f d
     (keepalived_text (emergency_info s)) (event_text (emergency_info s))"

lemma server_okD:
  assumes "server_ok s"
  shows "tcp_inv (tcp_clients s)" "udp_inv (udp_clients s)" "counts_ok (entry_alerts_count s)"
    "info_ok (emergency_info s)" "heap s = []"
  using assms by (simp_all add: server_ok_def)

lemma summary_run:
  assumes s: "server_ok s" and os: "benign os" and ptr: "supply_pointers os s = (Some f, Some d)"
    and fd: "food_ok f" "medicine_ok d"
  shows "summary os s = Inr (Some (current_summary s f d), s)"
    "short_text (current_summary s f d) 0 5000"
proof -
  note ok = server_okD [OF s]
  note info = info_texts [OF ok(4)]
  have "create_summary_json (shm_calls os) (entry_alerts_count s) (segments s) (emergency_info s) [] =
      Inr (Some (current_summary s f d), [])"
    unfolding current_summary_def
    by (rule create_summary_Nil [OF ok(3) fd _ _ info(2,1)])
      (use ptr in \<open>simp_all add: supply_pointers_def\<close>)
  then show "summary os s = Inr (Some (current_summary s f d), s)"
    using ok(5) by (simp add: summary_def run with_heap_def)
  show "short_text (current_summary s f d) 0 5000"
    unfolding current_summary_def using short_summary ok(3) fd info by blast
qed

lemma tcp_summary_run:
  assumes s: "server_ok s" and os: "benign os" and ptr: "supply_pointers os s = (Some f, Some d)"
    and fd: "food_ok f" "medicine_ok d"
  shows "tcp_summary os fd s =
    Inr ((), s\<lparr>logs := logs s @ log_lines os (tcp_text ''Summary request from TCP client '' os fd),
               outputs := outputs s @ [Send fd (text_of (current_summary s f d))]\<rparr>)"
proof -
  let ?s = "s\<lparr>logs := logs s @ log_lines os (tcp_text ''Summary request from TCP client '' os fd)\<rparr>"
  have s': "server_ok ?s" "supply_pointers os ?s = (Some f, Some d)"
    using s ptr by (simp_all add: supply_pointers_def)
  note sum = summary_run [OF s'(1) os s'(2) fd]
  have "current_summary ?s f d = current_summary s f d" by (simp add: current_summary_def)
  then show ?thesis
    using sum send_json_run [OF os, of ?s "current_summary s f d" 5000 fd] server_ok_heap [OF s] os
    by (simp add: tcp_summary_def run get_tcp_client_ip_run log_message_run benignD tcp_text_def)
qed

section \<open>Authentication\<close>

lemma answer_authentication_run:
  assumes s: "server_ok s" and os: "benign os" and r: "c_string reply" "length reply \<le> 20"
  shows "answer_authentication os fd message reply res s =
    Inr (res, s\<lparr>logs := logs s @ log_lines os (tcp_text message os fd),
                outputs := outputs s @ [Send fd (text_of (json_object [member ''message'' (json_string reply)]))]\<rparr>)"
proof -
  let ?s = "s\<lparr>logs := logs s @ log_lines os (tcp_text message os fd)\<rparr>"
  show ?thesis
    using send_json_run [OF os, of ?s "json_object [member ''message'' (json_string reply)]" 200 fd]
      short_message [OF r] server_ok_heap [OF s] os
    by (simp add: answer_authentication_def run get_tcp_client_ip_run log_message_run benignD tcp_text_def
        heap_with_heap [where m = "message_object reply" and
          x = "Some (json_object [member ''message'' (json_string reply)])"] message_object_Nil)
qed

section \<open>Requests keep the invariant\<close>

lemma keeps_tcp_request: "benign os \<Longrightarrow> keeps (tcp_request os fd json m)"
proof (rule safeI)
  fix s
  assume os: "benign os" and s: "server_ok s"
  obtain f d where p: "supply_pointers os s = (Some f, Some d)" "food_ok f" "medicine_ok d"
      "segments s = \<lparr>food_segment = Some f, medicine_segment = Some d\<rparr>"
    using supply_pointers_ok [OF s os] by blast
  have noted: "server_ok (noted os (tcp_text msg os fd) s)" if "c_string msg" "length msg < 55" for msg
    using noted_ok [OF s os] tcp_text_ok [OF that] by blast
  have upd: "server_ok (noted os (tcp_text msg os fd) s
      \<lparr>segments := \<lparr>food_segment = Some f', medicine_segment = Some d'\<rparr>\<rparr>)"
    if "c_string msg" "length msg < 55" "food_ok f'" "medicine_ok d'" for msg f' d'
    using noted [OF that(1,2)] that(3,4) by (simp add: server_ok_def)
  have "wp (tcp_status os fd) (\<lambda>_. server_ok) overflow s"
    using noted [of "''Status request from TCP client ''"]
    by (simp add: wp_def tcp_status_run [OF s os p(1-3)])
  moreover have "wp (tcp_update os fd json) (\<lambda>_. server_ok) overflow s"
    using upd [of "''Update request from TCP client ''"] after_ok [of "Some json" f d]
    by (simp add: wp_def tcp_update_run [OF s os p])
  moreover have "wp (tcp_summary os fd) (\<lambda>_. server_ok) overflow s"
    using s by (simp add: wp_def tcp_summary_run [OF s os p(1-3)])
  moreover have "wp (tcp_invalid os fd) (\<lambda>_. server_ok) overflow s"
    using s os by (simp add: wp_def tcp_invalid_def run get_tcp_client_ip_run log_message_run benignD)
  ultimately show "wp (tcp_request os fd json m) (\<lambda>_. server_ok) overflow s"
    by (simp add: tcp_request_def)
qed

section \<open>A message from a client\<close>

definition received :: "os \<Rightarrow> int \<Rightarrow> cJSON option" where
  "received os fd =
     (case incoming os fd of
        None \<Rightarrow> None
      | Some bytes \<Rightarrow>
          if bytes = [] then None
          else (case cJSON_Parse (nesting_limit os) (upto_nul bytes) [] of
                  Inr (r, _) \<Rightarrow> r | Inl _ \<Rightarrow> None))"

lemma receive_tcp_json_run:
  assumes "benign os" and "heap s = []"
  shows "receive_tcp_json os fd s = Inr (received os fd, s)"
proof (cases "incoming os fd")
  case None
  then show ?thesis by (simp add: receive_tcp_json_def received_def run)
next
  case (Some bytes)
  then have short: "length bytes < BUFFER_SIZE" using benignD(6) [OF assms(1)] by blast
  obtain r where "cJSON_Parse (nesting_limit os) (upto_nul bytes) [] = Inr (r, [])"
    using cJSON_Parse_Nil by blast
  then show ?thesis using Some short assms(2)
    by (simp add: receive_tcp_json_def received_def run Let_def received_string_def with_heap_def)
qed

lemma received_text_fields:
  assumes "benign os" and "received os fd = Some json"
  shows "text_fields json"
proof -
  obtain bytes where b: "incoming os fd = Some bytes" "bytes \<noteq> []"
    using assms(2) by (auto simp: received_def split: option.splits if_splits)
  obtain r where "cJSON_Parse (nesting_limit os) (upto_nul bytes) [] = Inr (r, [])"
    using cJSON_Parse_Nil by blast
  then show ?thesis using benignD(7) [OF assms(1) b(1)] assms(2) b
    by (simp add: received_def text_message_def)
qed

lemma text_fieldsD:
  "text_fields json \<Longrightarrow> cJSON_GetObjectItem (Some json) ''message'' = Some it \<Longrightarrow> valuestring it \<noteq> None"
  "text_fields json \<Longrightarrow> cJSON_GetObjectItem (Some json) ''hostname'' = Some it \<Longrightarrow> valuestring it \<noteq> None"
  by (simp_all add: text_fields_def)

lemma keeps_authenticate:
  assumes os: "benign os" and json: "text_fields json"
  shows "keeps (authenticate os fd json)"
proof -
  have "keeps (answer_authentication os fd msg reply res)"
    if "c_string reply" "length reply \<le> 20" for msg reply res
    by (rule safeI) (simp add: wp_def answer_authentication_run [OF _ os that])
  then show ?thesis unfolding authenticate_def
    by (intro safe_rules) (use text_fieldsD [OF json] in auto)
qed

lemma keeps_check_tcp:
  assumes os: "benign os"
  shows "keeps (check_tcp_clients_messages os fd)"
proof (rule safeI)
  fix s
  assume s: "server_ok s"
  show "wp (check_tcp_clients_messages os fd) (\<lambda>_. server_ok) overflow s"
  proof (cases "received os fd")
    case None
    then show ?thesis using s os
      by (simp add: check_tcp_clients_messages_def wp_def run receive_tcp_json_run server_ok_heap)
  next
    case (Some json)
    note fields = received_text_fields [OF os Some]
    have "keeps (case cJSON_GetObjectItem (Some json) ''message'' of
            None \<Rightarrow> ret True
          | Some message \<Rightarrow>
              andthen (deref (valuestring message)) (\<lambda>message_value.
              if message_value = ''authenticateme'' then authenticate os fd json
              else andthen (tcp_request os fd json message_value) (\<lambda>_. ret True)))"
      by (intro safe_rules keeps_authenticate keeps_tcp_request os fields)
        (use text_fieldsD [OF fields] in auto)
    from safeD [OF this s] show ?thesis using Some s os
      by (simp add: check_tcp_clients_messages_def wp_def andthen_apply receive_tcp_json_run server_ok_heap)
  qed
qed

lemma keeps_fd_set:
  assumes "0 \<le> fd" and "fd < FD_SETSIZE"
  shows "keeps (fd_set_add fd)" "keeps (fd_set_remove fd)"
  using assms by (auto simp: safe_def fd_set_add_def fd_set_remove_def server_ok_def)

lemma keeps_drop_client:
  assumes "benign os" and "0 \<le> fd" and "fd < FD_SETSIZE"
  shows "keeps (drop_client os fd)"
  unfolding drop_client_def
  using keeps_fd_set [OF assms(2,3)] keeps_remove_tcp_client [OF assms(1)]
  by (intro safe_rules) (auto simp: keeps_emit)

lemma peer_ip_run: "\<exists>ip. peer_ip addr s = Inr (ip, s)"
  by (cases addr) (simp_all add: peer_ip_def filled_def run INET6_ADDRSTRLEN_def)

lemma keeps_peer_ip: "keeps (peer_ip addr)"
proof (rule safeI)
  fix s
  assume "server_ok s"
  then show "wp (peer_ip addr) (\<lambda>_. server_ok) overflow s"
    using peer_ip_run [of addr s] by (auto simp: wp_def)
qed

lemma keeps_handle_tcp:
  assumes "benign os" and "0 \<le> fd" and "fd < FD_SETSIZE"
  shows "keeps (handle_tcp_socket_activity os fd)"
  unfolding handle_tcp_socket_activity_def
  using keeps_drop_client [OF assms] keeps_log_message [OF assms(1)]
  by (intro safe_rules keeps_peer_ip keeps_check_tcp assms) auto

section \<open>A new connection\<close>

lemma connection_message_run:
  "internet addr \<Longrightarrow> \<exists>text. connection_message addr s = Inr (text, s)"
  by (cases addr) (simp_all add: connection_message_def filled_def run INET_ADDRSTRLEN_def
      INET6_ADDRSTRLEN_def)

lemma keeps_connection_message:
  assumes "internet addr"
  shows "keeps (connection_message addr)"
proof (rule safeI)
  fix s
  assume "server_ok s"
  then show "wp (connection_message addr) (\<lambda>_. server_ok) overflow s"
    using connection_message_run [OF assms, of s] by (auto simp: wp_def)
qed

lemma accept_result:
  "accept_tcp_connection os s = Inr (r, s') \<Longrightarrow> r = map_option fst (accepted os)"
  by (auto simp: accept_tcp_connection_def run split: option.splits sum.splits)

lemma keeps_handle_tcp_accept:
  assumes os: "benign os"
  shows "keeps (handle_tcp_accept os)"
proof -
  have acc: "keeps (accept_tcp_connection os)"
    unfolding accept_tcp_connection_def
    by (intro safe_rules keeps_connection_message keeps_log_event keeps_add_tcp_client os)
      (use benignD(10) [OF os] in auto)
  have max: "keeps (modify (\<lambda>s. s\<lparr>max_fd := (if fd > max_fd s then fd else max_fd s)\<rparr>))"
    if "fd < FD_SETSIZE" for fd
    using that by (intro safe_rules) (auto simp: server_ok_def)
  show ?thesis unfolding handle_tcp_accept_def
  proof (rule safeI, rule wp_andthenI)
    fix s
    assume s: "server_ok s"
    show "wp (accept_tcp_connection os)
      (\<lambda>r. wp (case r of None \<Rightarrow> ret ()
         | Some fd \<Rightarrow> block [fd_set_add fd,
             modify (\<lambda>s. s\<lparr>max_fd := (if fd > max_fd s then fd else max_fd s)\<rparr>)])
        (\<lambda>_. server_ok) overflow) overflow s"
    proof (rule wp_post [OF safeD [OF acc s]])
      fix r s'
      assume r: "accept_tcp_connection os s = Inr (r, s')" and s': "server_ok s'"
      have "keeps (case r of None \<Rightarrow> ret ()
         | Some fd \<Rightarrow> block [fd_set_add fd,
             modify (\<lambda>s. s\<lparr>max_fd := (if fd > max_fd s then fd else max_fd s)\<rparr>)])"
      proof (intro safe_rules)
        fix fd m
        assume fd: "r = Some fd" and m: "m \<in> set [fd_set_add fd,
             modify (\<lambda>s. s\<lparr>max_fd := (if fd > max_fd s then fd else max_fd s)\<rparr>)]"
        have "0 \<le> fd \<and> fd < FD_SETSIZE"
          using accept_result [OF r] fd benignD(10) [OF os] by (cases "accepted os") auto
        then show "keeps m" using keeps_fd_set(1) max m by auto
      qed
      from safeD [OF this s'] show "wp (case r of None \<Rightarrow> ret ()
         | Some fd \<Rightarrow> block [fd_set_add fd,
             modify (\<lambda>s. s\<lparr>max_fd := (if fd > max_fd s then fd else max_fd s)\<rparr>)])
        (\<lambda>_. server_ok) overflow s'" .
    qed
  qed
qed

end
