(* ===== verification/LoopFacts.thy ===== *)
theory LoopFacts
  imports TcpFacts
begin

text \<open>
  The UDP, alert and Unix handlers and the event loop keep the invariant in a benign world.
\<close>

section \<open>UDP\<close>

definition received_datagram :: "os \<Rightarrow> (cJSON option \<times> sockaddr \<times> nat) option" where
  "received_datagram os =
     (case datagram os of
        None \<Rightarrow> None
      | Some (payload, addr, addrlen) \<Rightarrow>
          (case cJSON_Parse (nesting_limit os) (upto_nul (take (BUFFER_SIZE - 1) payload)) [] of
             Inr (r, _) \<Rightarrow> Some (r, addr, addrlen) | Inl _ \<Rightarrow> None))"

definition udp_ip :: "sockaddr \<Rightarrow> string" where
  "udp_ip addr = the (fst (get_udp_client_info addr INET6_ADDRSTRLEN))"

lemma filled_udp:
  "internet addr \<Longrightarrow> filled (fst (get_udp_client_info addr INET6_ADDRSTRLEN)) = ret (udp_ip addr)"
  using get_udp_client_info_run [of addr INET6_ADDRSTRLEN]
  by (auto simp: udp_ip_def filled_def INET6_ADDRSTRLEN_def)

lemma receive_udp_json_run:
  assumes "benign os" and "heap s = []"
  shows "receive_udp_json os s = Inr (received_datagram os, s)"
proof (cases "datagram os")
  case None
  then show ?thesis by (simp add: receive_udp_json_def received_datagram_def run)
next
  case (Some d)
  obtain payload addr len where d: "d = (payload, addr, len)" by (metis prod_cases3)
  have net: "internet addr" using benignD(8) [OF assms(1)] Some d by blast
  obtain r where "cJSON_Parse (nesting_limit os) (upto_nul (take (BUFFER_SIZE - 1) payload)) [] = Inr (r, [])"
    using cJSON_Parse_Nil by blast
  then show ?thesis using Some d net assms(2)
    by (simp add: receive_udp_json_def received_datagram_def run received_string_def BUFFER_SIZE_def
        filled_udp with_heap_def)
qed

lemma received_datagram_props:
  assumes "benign os" and "received_datagram os = Some (Some json, addr, len)"
  shows "internet addr" "text_fields json"
proof -
  obtain payload where d: "datagram os = Some (payload, addr, len)"
    using assms(2) by (auto simp: received_datagram_def split: option.splits sum.splits)
  then show "internet addr" using benignD(8) [OF assms(1)] by blast
  obtain r where "cJSON_Parse (nesting_limit os) (upto_nul (take (BUFFER_SIZE - 1) payload)) [] = Inr (r, [])"
    using cJSON_Parse_Nil by blast
  then show "text_fields json" using benignD(9) [OF assms(1) d] assms(2) d
    by (simp add: received_datagram_def text_message_def)
qed

lemma send_json_udp_run:
  assumes "heap s = []" and "short_text it 0 n" and "n \<le> 5000" and "internet addr"
  shows "send_json_to_udp_client os fd addr len (Some it) s =
    Inr ((), s\<lparr>outputs := outputs s @ [Sendto fd addr len (text_of it)]\<rparr>)"
  using assms
  by (simp add: send_json_to_udp_client_def with_heap_def run cJSON_Print_short emit_def filled_udp)

lemma udp_status_run:
  assumes s: "server_ok s" and os: "benign os" and addr: "internet addr"
    and ptr: "supply_pointers os s = (Some f, Some d)" and fd: "food_ok f" "medicine_ok d"
  shows "udp_status os fd addr len ip s =
    Inr ((), s\<lparr>logs := logs s @ log_lines os (snprintf BUFFER_256 (''Status request from UDP client '' @ ip)),
      outputs := outputs s @
        [Sendto fd addr len (text_of (supplies_json f d))]\<rparr>)"
proof -
  let ?s = "s\<lparr>logs := logs s @ log_lines os (snprintf BUFFER_256 (''Status request from UDP client '' @ ip))\<rparr>"
  show ?thesis
    using ptr server_ok_heap [OF s] os addr send_json_udp_run [of ?s "supplies_json f d" 700 addr os fd len]
      short_supplies [OF fd, of 0]
    by (simp add: udp_status_def run log_message_run benignD convert_supplies_Nil [OF fd]
        heap_with_heap [where m = "convert_supplies_to_json (Some f) (Some d)" and
          x = "Some (supplies_json f d)"])
qed

lemma udp_summary_run:
  assumes s: "server_ok s" and os: "benign os" and addr: "internet addr"
    and ptr: "supply_pointers os s = (Some f, Some d)" and fd: "food_ok f" "medicine_ok d"
  shows "udp_summary os fd addr len ip s =
    Inr ((), s\<lparr>logs := logs s @ log_lines os (snprintf BUFFER_256 (''Summary request from UDP client '' @ ip)),
      outputs := outputs s @
        [Sendto fd addr len (text_of (current_summary s f d))]\<rparr>)"
proof -
  let ?s = "s\<lparr>logs := logs s @ log_lines os (snprintf BUFFER_256 (''Summary request from UDP client '' @ ip))\<rparr>"
  have s': "server_ok ?s" "supply_pointers os ?s = (Some f, Some d)"
    using s ptr by (simp_all add: supply_pointers_def)
  note sum = summary_run [OF s'(1) os s'(2) fd]
  have "current_summary ?s f d = current_summary s f d" by (simp add: current_summary_def)
  then show ?thesis
    using sum send_json_udp_run [of ?s "current_summary s f d" 5000 addr os fd len] server_ok_heap [OF s] os addr
    by (simp add: udp_summary_def run log_message_run benignD)
qed

lemma keeps_update_supplies: "benign os \<Longrightarrow> keeps (update_supplies os json)"
proof (rule safeI)
  fix s
  assume os: "benign os" and s: "server_ok s"
  obtain f d where p: "supply_pointers os s = (Some f, Some d)" "food_ok f" "medicine_ok d"
      "segments s = \<lparr>food_segment = Some f, medicine_segment = Some d\<rparr>"
    using supply_pointers_ok [OF s os] by blast
  then show "wp (update_supplies os json) (\<lambda>_. server_ok) overflow s"
    using s after_ok [of json f d]
    by (simp add: wp_def update_supplies_run [OF p] server_ok_def)
qed

lemma keeps_udp_request:
  assumes os: "benign os" and addr: "internet addr"
  shows "keeps (udp_request os fd addr len ip json request auth)"
proof -
  have "keeps (udp_status os fd addr len ip)" "keeps (udp_summary os fd addr len ip)"
  proof (rule safeI)+
    fix s
    assume s: "server_ok s"
    obtain f d where p: "supply_pointers os s = (Some f, Some d)" "food_ok f" "medicine_ok d"
      using supply_pointers_ok [OF s os] by blast
    show "wp (udp_status os fd addr len ip) (\<lambda>_. server_ok) overflow s"
      using s by (simp add: wp_def udp_status_run [OF s os addr p])
  next
    show "keeps (udp_summary os fd addr len ip)"
    proof (rule safeI)
      fix s
      assume s: "server_ok s"
      obtain f d where p: "supply_pointers os s = (Some f, Some d)" "food_ok f" "medicine_ok d"
        using supply_pointers_ok [OF s os] by blast
      show "wp (udp_summary os fd addr len ip) (\<lambda>_. server_ok) overflow s"
        using s by (simp add: wp_def udp_summary_run [OF s os addr p])
    qed
  qed
  then show ?thesis unfolding udp_request_def udp_update_def
    using keeps_update_supplies [OF os] keeps_log_message [OF os]
    by (intro safe_rules) auto
qed

lemma keeps_check_udp:
  assumes os: "benign os"
  shows "keeps (check_udp_clients_messages os fd)"
proof (rule safeI)
  fix s
  assume s: "server_ok s"
  show "wp (check_udp_clients_messages os fd) (\<lambda>_. server_ok) overflow s"
  proof (cases "\<exists>json addr len. received_datagram os = Some (Some json, addr, len)")
    case False
    then have "received_datagram os = None \<or> (\<exists>addr len. received_datagram os = Some (None, addr, len))"
      by (cases "received_datagram os") auto
    then show ?thesis using s os
      by (auto simp: check_udp_clients_messages_def wp_def run receive_udp_json_run server_ok_heap)
  next
    case True
    then obtain json addr len where r: "received_datagram os = Some (Some json, addr, len)" by blast
    note props = received_datagram_props [OF os r]
    have "keeps (andthen (filled (fst (get_udp_client_info addr INET6_ADDRSTRLEN))) (\<lambda>client_ip.
         andthen (add_udp_client os
           \<lparr>sockfd = fd, client_addr = addr, addr_len = len, family = None\<rparr>) (\<lambda>_.
         case cJSON_GetObjectItem (Some json) ''message'' of
           None \<Rightarrow> ret False
         | Some message \<Rightarrow>
             (case cJSON_GetObjectItem (Some json) ''hostname'' of
                None \<Rightarrow> ret False
              | Some hostname \<Rightarrow>
                  andthen (deref (valuestring message)) (\<lambda>request.
                  andthen
                    (if request = ''update'' then deref (valuestring hostname)
                     else ret (case valuestring hostname of None \<Rightarrow> '''' | Some a \<Rightarrow> a)) (\<lambda>auth.
                  andthen (udp_request os fd addr len client_ip json request auth) (\<lambda>_.
                  ret True)))))))"
      unfolding filled_udp [OF props(1)]
      by (intro safe_rules keeps_add_udp_client keeps_udp_request os props(1))
        (use text_fieldsD [OF props(2)] in auto)
    from safeD [OF this s] show ?thesis using r s os
      by (simp add: check_udp_clients_messages_def wp_def andthen_apply receive_udp_json_run server_ok_heap)
  qed
qed

section \<open>Alerts and notifications\<close>

lemma keeps_send_to_all_tcp: "benign os \<Longrightarrow> keeps (send_to_all_tcp_clients os (Some m))"
  by (rule safeI) (simp add: wp_def send_to_all_tcp_clients_run server_okD benignD(13))

lemma keeps_send_to_all_udp: "keeps (send_to_all_udp_clients m)"
  by (rule safeI) (simp add: wp_def send_to_all_udp_clients_run server_okD)

lemma keeps_record_event:
  assumes "benign os" and "c_string event" and "length event < 100"
  shows "keeps (record_event os event)"
  unfolding record_event_def
  by (rule safe_modify)
    (use assms benignD(2,3) [OF assms(1)] info_ok_update_iff in \<open>auto simp: server_ok_def\<close>)

lemma keeps_count_entry:
  assumes "detect_entry msg = Some entry"
  shows "keeps (zoom entry_alerts_count (\<lambda>c s. s\<lparr>entry_alerts_count := c\<rparr>) (count_entry entry))"
proof (rule safe_zoom)
  fix s
  assume s: "server_ok s"
  show "wp (count_entry entry) (\<lambda>_ c. server_ok (s\<lparr>entry_alerts_count := c\<rparr>)) overflow (entry_alerts_count s)"
    by (rule wp_mono [OF count_entry_ok [OF server_okD(3) [OF s] assms]])
      (use s in \<open>auto simp: server_ok_def\<close>)
qed

lemma keeps_broadcast_alert:
  assumes os: "benign os" and a: "c_string a" "length a < 100"
  shows "keeps (broadcast_alert os a)"
  unfolding broadcast_alert_def
  by (intro safe_block)
    (auto simp: keeps_record_event [OF os a] keeps_send_to_all_tcp [OF os] keeps_send_to_all_udp
      keeps_log_event [OF os] intro: safe_option safe_ret keeps_count_entry)

text \<open>A short message is followed by zeros in the buffer.\<close>

lemma fifo_text:
  assumes "length bytes < BUFFER_SIZE"
  shows "cstr (bytes @ replicate (BUFFER_SIZE - length bytes) NUL) = Inr (upto_nul bytes)"
proof -
  obtain k where k: "BUFFER_SIZE - length bytes = Suc k" using assms by (metis Suc_diff_Suc)
  show ?thesis
  proof (cases "NUL \<in> set bytes")
    case True
    then have "upto_nul (bytes @ x) = upto_nul bytes" for x
      unfolding upto_nul_def by (intro takeWhile_append1) auto
    then show ?thesis using True by (simp add: cstr_def)
  next
    case False
    then have "c_string bytes" by (simp add: c_string_def)
    then show ?thesis using k by (simp add: upto_nul_id)
  qed
qed

lemma keeps_check_alerts:
  assumes os: "benign os"
  shows "keeps (check_alerts os)"
  unfolding check_alerts_def Let_def
proof (rule safe_if, rule safe_ret, rule safe_option, rule safe_ret, rule safe_if, rule safe_ret)
  fix bytes
  assume "fifo_data os = Some bytes"
  then have len: "length bytes < 100" using benignD(11) [OF os] by blast
  then have room: "length bytes < BUFFER_SIZE" and short: "length (upto_nul bytes) < 100"
    using length_upto_nul [of bytes] by (simp_all add: BUFFER_SIZE_def)
  have "keeps (andthen (lift (cstr (bytes @ replicate (BUFFER_SIZE - length bytes) NUL)))
      (broadcast_alert os))"
    using keeps_broadcast_alert [OF os _ short] unfolding fifo_text [OF room] by (simp add: safe_def)
  then show "keeps (andthen (lift (cstr (take BUFFER_SIZE bytes @
      replicate (BUFFER_SIZE - length (take BUFFER_SIZE bytes)) NUL))) (broadcast_alert os))"
    using room by simp
qed

section \<open>Unix notifications\<close>

definition disconnect_text :: string where
  "disconnect_text = text_of (json_object [member ''message'' (json_string ''disconnect'')])"

lemma disconnect_printed:
  assumes "heap s = []"
  shows "with_heap (message_object ''disconnect'') s =
      Inr (Some (json_object [member ''message'' (json_string ''disconnect'')]), s)"
    "with_heap (cJSON_Print (Some (json_object [member ''message'' (json_string ''disconnect'')]))) s =
      Inr (Some disconnect_text, s)"
  using assms short_message [of "''disconnect''"]
  by (simp_all add: with_heap_def run message_object_Nil cJSON_Print_short disconnect_text_def)

lemma keeps_notify:
  assumes os: "benign os"
  shows "keeps (andthen (with_heap (message_object ''disconnect'')) (\<lambda>disconnect_json.
    andthen (with_heap (cJSON_Print disconnect_json)) (\<lambda>disconnect.
    block [send_to_all_tcp_clients os disconnect, log_event os text])))"
proof (rule safeI)
  fix s
  assume s: "server_ok s"
  have "keeps (block [send_to_all_tcp_clients os (Some disconnect_text), log_event os text])"
    by (intro safe_block) (auto simp: keeps_send_to_all_tcp [OF os] keeps_log_event [OF os])
  from safeD [OF this s]
  show "wp (andthen (with_heap (message_object ''disconnect'')) (\<lambda>disconnect_json.
    andthen (with_heap (cJSON_Print disconnect_json)) (\<lambda>disconnect.
    block [send_to_all_tcp_clients os disconnect, log_event os text]))) (\<lambda>_. server_ok) overflow s"
    using disconnect_printed [OF server_okD(5) [OF s]] by (simp add: wp_def andthen_apply)
qed

lemma keeps_received_string:
  assumes "benign os" and "incoming os fd = Some bytes"
  shows "received_string BUFFER_SIZE (take BUFFER_SIZE bytes) = Inr (upto_nul bytes)"
  using benignD(6) [OF assms] by (simp add: received_string_def)

lemma keeps_handle_unix:
  assumes os: "benign os"
  shows "keeps (handle_unix_socket_activity os fd True)"
proof -
  have "keeps (case incoming os c of
            None \<Rightarrow> ret ()
          | Some available \<Rightarrow>
              let bytes = take BUFFER_SIZE available in
              if bytes = [] then ret ()
              else
                andthen (lift (received_string BUFFER_SIZE bytes)) (\<lambda>text.
                andthen (with_heap (message_object ''disconnect'')) (\<lambda>disconnect_json.
                andthen (with_heap (cJSON_Print disconnect_json)) (\<lambda>disconnect.
                block [send_to_all_tcp_clients os disconnect, log_event os text]))))" for c
    unfolding Let_def
    by (rule safe_option, rule safe_ret, rule safe_if, rule safe_ret, rule safe_andthen,
        rule safe_lift, use keeps_received_string [OF os] in force, rule keeps_notify [OF os])
  then show ?thesis unfolding handle_unix_socket_activity_def if_True
    by (intro safe_option safe_ret safe_block) (auto simp: keeps_emit)
qed

section \<open>The event loop\<close>

definition sockets_ok :: "sockets \<Rightarrow> bool" where
  "sockets_ok k \<longleftrightarrow>
     (\<forall>fd \<in> {tcp_socket_fd k, udp_socket_fd k, unix_socket_fd k, fifo_fd k}. 0 \<le> fd \<and> fd < FD_SETSIZE)"

lemma keeps_dispatch:
  assumes os: "benign os" and "0 \<le> fd" and "fd < FD_SETSIZE"
  shows "keeps (dispatch os k fd)"
  unfolding dispatch_def handle_udp_socket_activity_def
  by (intro safe_if keeps_handle_tcp_accept keeps_handle_unix keeps_check_alerts
      keeps_handle_tcp safe_andthen keeps_check_udp safe_ret assms)

lemma sweep_ok:
  assumes os: "benign os"
  shows "server_ok s \<Longrightarrow> 0 \<le> fd \<Longrightarrow> fd \<le> FD_SETSIZE \<Longrightarrow> FD_SETSIZE < fd + int fuel \<Longrightarrow>
    wp (sweep fuel os k read_fds fd) (\<lambda>_. server_ok) overflow s"
proof (induction fuel arbitrary: fd s)
  case 0
  then show ?case by simp
next
  case (Suc fuel)
  show ?case
  proof (cases "max_fd s < fd")
    case True
    then show ?thesis using Suc.prems by (simp add: wp_def run)
  next
    case False
    then have room: "fd < FD_SETSIZE" using Suc.prems(1) by (simp add: server_ok_def)
    have "keeps (if fd \<in> read_fds then dispatch os k fd else ret ())"
      using keeps_dispatch [OF os Suc.prems(2) room] by (intro safe_if safe_ret)
    from safeD [OF this Suc.prems(1)]
    have "wp (andthen (if fd \<in> read_fds then dispatch os k fd else ret ())
        (\<lambda>_. sweep fuel os k read_fds (fd + 1))) (\<lambda>_. server_ok) overflow s"
      by (intro wp_andthenI, elim wp_mono) (use Suc room in auto)
    then show ?thesis using False Suc.prems(2) room by (simp add: wp_def andthen_apply gets_apply)
  qed
qed

lemma keeps_server_round:
  assumes os: "benign os" and k: "sockets_ok k"
  shows "keeps (server_round os k)"
proof (rule safeI)
  fix s
  assume s: "server_ok s"
  obtain r where r: "ready os = Some r" using benignD(12) [OF os] by blast
  have "0 \<le> tcp_socket_fd k" "tcp_socket_fd k < FD_SETSIZE" using k by (simp_all add: sockets_ok_def)
  then have "wp (sweep (nat (FD_SETSIZE + 1 - tcp_socket_fd k)) os k read_fds (tcp_socket_fd k))
      (\<lambda>_. server_ok) overflow s" for read_fds
    by (intro sweep_ok [OF os s]) auto
  then show "wp (server_round os k) (\<lambda>_. server_ok) overflow s"
    by (simp add: server_round_def r)
qed

lemma keeps_loop_step:
  assumes "benign os" and "sockets_ok k"
  shows "keeps (server_loop_step os k)"
  unfolding server_loop_step_def
  by (intro safe_rules keeps_server_round keeps_log_event assms)

lemma keeps_sigint: "keeps sigint_handler"
  unfolding sigint_handler_def
  by (intro safe_block) (auto intro!: safe_modify safe_andthen safe_gets safe_if keeps_emit safe_ret)

end
