(* ===== verification/ServerSteps.thy ===== *)
theory ServerSteps
  imports LoopFacts
begin

text \<open>
  The server process as a transition system. A step is one pass of the loop of
  \<open>start_server\<close>, with an environment of its own, or the signal handler between two passes,
  or the handler inside \<open>select\<close>, which then fails. A signal that comes while a handler of the
  pass runs acts as one right after the pass, but for the place of the kill among the outputs:
  a pass does not depend on \<open>running\<close> (\<open>signal_during_pass\<close> in \<open>Signals\<close>).
  The theorems are about all reachable states: the invariant and the only way the process can
  crash, and the agreement of the descriptor set with the registry of TCP clients.
\<close>

section \<open>The transition system\<close>

datatype process =
    Up server
  | Down server          \<comment> \<open>the loop is left and \<open>start_server\<close> returns\<close>
  | Exited int server    \<comment> \<open>\<open>exit\<close> after a signal, with the last state\<close>
  | Crashed stop

inductive server_step :: "(server \<Rightarrow> os \<Rightarrow> bool) \<Rightarrow> sockets \<Rightarrow> process \<Rightarrow> process \<Rightarrow> bool"
  for environment :: "server \<Rightarrow> os \<Rightarrow> bool" and k :: sockets where
  pass: "environment s os \<Longrightarrow> server_loop_step os k s = Inr (True, s') \<Longrightarrow>
    server_step environment k (Up s) (Up s')"
| leave: "environment s os \<Longrightarrow> server_loop_step os k s = Inr (False, s') \<Longrightarrow>
    server_step environment k (Up s) (Down s')"
| crash: "environment s os \<Longrightarrow> server_loop_step os k s = Inl e \<Longrightarrow>
    server_step environment k (Up s) (Crashed e)"
| signal: "sigint_handler s = Inr ((), s') \<Longrightarrow> server_step environment k (Up s) (Up s')"
| interrupt: "running s \<Longrightarrow> sigint_handler s = Inr ((), s') \<Longrightarrow>
    server_round (os\<lparr>ready := None\<rparr>) k s' = Inl (Exit c) \<Longrightarrow>
    server_step environment k (Up s) (Exited c s')"

inductive_cases up_stepE: "server_step environment k (Up s) p"

inductive_simps ended_step [simp]:
  "server_step environment k (Down s) p"
  "server_step environment k (Exited c s) p"
  "server_step environment k (Crashed e) p"

definition boot :: "os \<Rightarrow> sockets \<Rightarrow> process" where
  "boot os k =
     (case start_server_setup os k initial_server of Inl e \<Rightarrow> Crashed e | Inr (_, s) \<Rightarrow> Up s)"

text \<open>An invariant of the passes and the handler holds of every reachable process.\<close>

fun process_ok :: "(server \<Rightarrow> bool) \<Rightarrow> (stop \<Rightarrow> bool) \<Rightarrow> process \<Rightarrow> bool" where
  "process_ok I A (Up s) = I s"
| "process_ok I A (Down s) = (I s \<and> \<not> running s)"
| "process_ok I A (Exited c s) = (I s \<and> \<not> running s \<and> c = 1)"
| "process_ok I A (Crashed e) = A e"

text \<open>Nothing in a pass sets \<open>running\<close>; the step that leaves the loop is logged.\<close>

lemma loop_leftD:
  "server_loop_step os k s = Inr (False, s') \<Longrightarrow>
   \<not> running s \<and> log_event os ''Server turned off'' s = Inr ((), s')"
  by (auto simp: server_loop_step_def run split: if_splits sum.splits)

lemma log_event_running: "log_event os m s = Inr ((), s') \<Longrightarrow> running s' = running s"
  by (auto simp: log_event_def get_home_dir_def run Let_def split: option.splits if_splits)

text \<open>What the handler does: it stops the loop, and kills the children whose ids it knows.\<close>

definition kills :: "server \<Rightarrow> effect list" where
  "kills s = (if 0 < alerts_pid s then [Kill (alerts_pid s)] else []) @
     (if 0 < power_outage_pid s then [Kill (power_outage_pid s)] else [])"

lemma sigint_run:
  "sigint_handler s = Inr ((), s\<lparr>running := False, outputs := outputs s @ kills s\<rparr>)"
  by (simp add: sigint_handler_def kills_def run emit_def)

lemma interrupted_round [simp]: "server_round (os\<lparr>ready := None\<rparr>) k s = Inl (Exit 1)"
  by (simp add: server_round_def run)

lemma reachable_ok:
  assumes start: "process_ok I A p"
    and pass: "\<And>s os. I s \<Longrightarrow> environment s os \<Longrightarrow> wp (server_loop_step os k) (\<lambda>_. I) A s"
    and signal: "\<And>s. I s \<Longrightarrow> wp sigint_handler (\<lambda>_. I) A s"
    and steps: "(server_step environment k)\<^sup>*\<^sup>* p q"
  shows "process_ok I A q"
  using steps
proof (induction rule: rtranclp_induct)
  case base
  show ?case by (rule start)
next
  case (step q r)
  from step.hyps(2) step.IH show ?case
  proof (induction rule: server_step.induct)
    case (pass s os s')
    then show ?case using assms(2) [of s os] by (simp add: wp_def)
  next
    case (leave s os s')
    then show ?case using assms(2) [of s os] loop_leftD [OF leave(2)] log_event_running
      by (fastforce simp: wp_def)
  next
    case (crash s os e)
    then show ?case using assms(2) [of s os] by (simp add: wp_def)
  next
    case (signal s s')
    then show ?case using assms(3) [of s] by (simp add: wp_def)
  next
    case (interrupt s s' os c)
    then show ?case using assms(3) [of s] by (auto simp: wp_def sigint_run)
  qed
qed

section \<open>The start\<close>

definition started :: "os \<Rightarrow> sockets \<Rightarrow> server \<Rightarrow> server" where
  "started os k s = s\<lparr>logs := logs s @ log_lines os ''Server started'',
     entry_alerts_count := \<lparr>north = 0, south = 0, east = 0, west = 0\<rparr>,
     segments := \<lparr>food_segment = Some no_food, medicine_segment = Some no_medicine\<rparr>,
     max_fd := max (max (max (tcp_socket_fd k) (udp_socket_fd k)) (fifo_fd k)) (unix_socket_fd k),
     master_fds := {tcp_socket_fd k, udp_socket_fd k, unix_socket_fd k, fifo_fd k}\<rparr>"

lemma start_server_setup_run:
  assumes "benign os" and "sockets_ok k"
  shows "start_server_setup os k s = Inr ((), started os k s)"
proof -
  obtain h where "home os = Some h" using benignD(1) [OF assms(1)] by blast
  then show ?thesis using assms
    by (cases "entry_alerts_count s"; cases "segments s")
      (simp add: insert_commute start_server_setup_def server_begin_def server_watch_def run log_event_run benignD started_def sockets_ok_def
        fd_set_add_def get_home_dir_def initialize_entry_alerts_count_def
        init_shared_memory_supplies_def Let_def)
qed

lemma started_ok:
  assumes "sockets_ok k"
  shows "server_ok (started os k initial_server)"
proof -
  have "max (max (max (tcp_socket_fd k) (udp_socket_fd k)) (fifo_fd k)) (unix_socket_fd k) < FD_SETSIZE"
    using assms by (simp add: sockets_ok_def)
  then show ?thesis using assms
    by (simp add: server_ok_def started_def initial_server_def sockets_ok_def udp_inv_def known_def
        counts_ok_def info_ok_def no_emergency_info_def food_ok_def medicine_ok_def no_food_def
        no_medicine_def int_bounds)
qed

lemma started_with_children:
  assumes "sockets_ok k"
  shows "server_ok (started os k (initial_server\<lparr>alerts_pid := pid\<rparr>))"
  using started_ok [OF assms, of os] by (simp add: started_def server_ok_def initial_server_def)

text \<open>
  C1: in a benign world the process keeps its invariant in every reachable state. It never
  touches memory it does not own, never uses an unset value or an unterminated string, and
  every pass of the loop ends: the one way it can crash is the overflow of a counter; it
  leaves the loop only after a signal, and exits by itself only with status 1, when a signal
  interrupts \<open>select\<close>. The world is benign also in that no peer resets a connection the server
  sends to, which would raise SIGPIPE and kill it (\<open>broken_pipe_kills\<close>), and in that no
  allocation fails: the process starts with the empty list of coming failures
  (\<open>heap = []\<close>), else a failed print would be dereferenced (\<open>failed_print_dereferenced\<close>).
\<close>

theorem reachable_server_safe:
  assumes "benign os" and "sockets_ok k"
    and "(server_step (\<lambda>_. benign) k)\<^sup>*\<^sup>* (boot os k) p"
  shows "case p of Up s \<Rightarrow> server_ok s | Down s \<Rightarrow> server_ok s \<and> \<not> running s
    | Exited c s \<Rightarrow> server_ok s \<and> \<not> running s \<and> c = 1
    | Crashed e \<Rightarrow> e = Fault Signed_overflow"
proof -
  have "process_ok server_ok overflow (boot os k)"
    by (simp add: boot_def start_server_setup_run assms(1,2) started_ok)
  then have "process_ok server_ok overflow p"
    by (rule reachable_ok [OF _ _ _ assms(3)])
      (auto intro: safeD keeps_loop_step keeps_sigint assms(2))
  then show ?thesis by (cases p) auto
qed

section \<open>The watched descriptors\<close>

definition listening :: "sockets \<Rightarrow> int set" where
  "listening k = {tcp_socket_fd k, udp_socket_fd k, unix_socket_fd k, fifo_fd k}"

text \<open>Every registered client has a descriptor of its own, which is watched and no listening
  socket; no watched descriptor is above \<open>max_fd\<close>.\<close>

definition watched :: "sockets \<Rightarrow> server \<Rightarrow> bool" where
  "watched k s \<longleftrightarrow> tcp_inv (tcp_clients s) \<and> distinct (connected (tcp_clients s)) \<and>
     set (connected (tcp_clients s)) \<subseteq> master_fds s - listening k \<and> listening k \<subseteq> master_fds s \<and>
     (\<forall>fd \<in> master_fds s. fd \<le> max_fd s)"

lemma watched_frame [simp]:
  "watched k (s\<lparr>logs := l\<rparr>) = watched k s" "watched k (s\<lparr>outputs := x\<rparr>) = watched k s"
  "watched k (s\<lparr>running := r\<rparr>) = watched k s" "watched k (s\<lparr>heap := h\<rparr>) = watched k s"
  "watched k (s\<lparr>udp_clients := u\<rparr>) = watched k s" "watched k (s\<lparr>emergency_info := i\<rparr>) = watched k s"
  "watched k (s\<lparr>entry_alerts_count := c\<rparr>) = watched k s" "watched k (s\<lparr>segments := g\<rparr>) = watched k s"
  "watched k (store_supplies ps s) = watched k s"
  by (simp_all add: watched_def store_supplies_def)

abbreviation watching :: "sockets \<Rightarrow> 'a srv \<Rightarrow> bool" where
  "watching k \<equiv> safe (watched k) (\<lambda>_. True)"

named_theorems watching_rules

lemma watching_zoom:
  "(\<And>s t. watched k t \<Longrightarrow> watched k (p s t)) \<Longrightarrow> watching k (zoom g p m)"
  by (simp add: safe_def wp_def run split: sum.splits prod.splits)

text \<open>Computations that leave the registry and the descriptor set alone.\<close>

lemma watching_basics [watching_rules]:
  "watching k (with_heap h)" "watching k (emit x)" "watching k (log_event os m)"
  "watching k (filled r)" "watching k (update_supplies os json)" "watching k (record_event os m)"
  "watching k (on_udp u)" "watching k (summary os)" "watching k (get_tcp_client_ip os fd)"
  "watching k (peer_ip addr)" "watching k (connection_message addr)" "watching k (send_call os fd m)"
  unfolding with_heap_def send_call_def emit_def log_event_def get_home_dir_def filled_def update_supplies_def
    record_event_def on_udp_def summary_def get_tcp_client_ip_def peer_ip_def
    connection_message_def
  by (auto intro!: safe_rules watching_zoom split: sockaddr.splits option.splits)

lemma watching_messages [watching_rules]:
  "watching k (log_message os m x)" "watching k (send_json_to_tcp_client os fd json)"
  "watching k (send_json_to_udp_client os fd addr len json)"
  "watching k (add_udp_client os c)" "watching k (send_to_all_tcp_clients os p)"
  "watching k (send_to_all_udp_clients t)" "watching k (receive_tcp_json os fd)"
  "watching k (receive_udp_json os)" "watching k (log_total os m n)"
proof -
  have fds: "watching k (on_tcp (on_fds (collect id n 0)))" for n
    by (rule safeI) (auto simp: wp_def run on_tcp_def on_fds_def split: sum.splits dest!: collect_reads)
  show "watching k (log_message os m x)" "watching k (send_json_to_tcp_client os fd json)"
    "watching k (send_json_to_udp_client os fd addr len json)" "watching k (receive_tcp_json os fd)"
    "watching k (receive_udp_json os)" "watching k (log_total os m n)"
    unfolding log_message_def send_json_to_tcp_client_def send_json_to_udp_client_def
      receive_tcp_json_def receive_udp_json_def log_total_def Let_def
    by (intro safe_rules watching_rules; simp)+
  show "watching k (add_udp_client os c)" "watching k (send_to_all_udp_clients t)"
    unfolding add_udp_client_def send_to_all_udp_clients_def log_total_def log_message_def
    by (auto intro!: safe_rules watching_rules)
  show "watching k (send_to_all_tcp_clients os p)"
    unfolding send_to_all_tcp_clients_def
    by (auto intro!: safe_rules watching_rules fds)
qed

lemma watching_requests [watching_rules]:
  "watching k (answer_authentication os fd text reply r)" "watching k (tcp_request os fd json m)"
  "watching k (udp_request os fd addr len ip json m auth)"
  "watching k (broadcast_alert os a)"
  unfolding answer_authentication_def tcp_request_def tcp_status_def tcp_update_def tcp_summary_def
    tcp_invalid_def udp_request_def udp_update_def udp_status_def udp_summary_def
    broadcast_alert_def Let_def
  by (auto intro!: safe_rules watching_rules watching_zoom split del: if_split)

lemma watching_handlers [watching_rules]:
  "watching k (check_tcp_clients_messages os fd)" "watching k (check_udp_clients_messages os fd)"
  "watching k (check_alerts os)" "watching k (handle_unix_socket_activity os fd True)"
  unfolding check_tcp_clients_messages_def authenticate_def check_udp_clients_messages_def
    check_alerts_def handle_unix_socket_activity_def Let_def
  by (auto intro!: safe_rules watching_rules split del: if_split)

section \<open>A pass keeps the watched descriptors\<close>

text \<open>Closing a client takes it out of the set and out of the registry.\<close>

lemma watching_drop_client:
  assumes "fd \<notin> listening k"
  shows "watching k (drop_client os fd)"
proof (rule safeI)
  fix s
  assume s: "watched k s"
  then have inv: "tcp_inv (tcp_clients s)" by (simp add: watched_def)
  have "wp (on_tcp (tcp_remove fd)) (\<lambda>_. watched k) (\<lambda>_. True)
      (s\<lparr>outputs := outputs s @ [Close fd], master_fds := master_fds s - {fd}\<rparr>)"
    unfolding on_tcp_def wp_zoom
    by (rule wp_mono [OF tcp_remove_ok [of "tcp_clients (s\<lparr>outputs := outputs s @ [Close fd],
        master_fds := master_fds s - {fd}\<rparr>)" fd]])
      (use s inv assms in \<open>auto simp: watched_def\<close>)
  then have "wp (remove_tcp_client os fd) (\<lambda>_. watched k) (\<lambda>_. True)
      (s\<lparr>outputs := outputs s @ [Close fd], master_fds := master_fds s - {fd}\<rparr>)"
    unfolding remove_tcp_client_def
    by (rule wp_andthen_safe) (intro safe_rules watching_rules)
  then show "wp (drop_client os fd) (\<lambda>_. watched k) (\<lambda>_. True) s"
    by (simp add: drop_client_def emit_def fd_set_remove_def)
qed

lemma watching_handle_tcp:
  "fd \<notin> listening k \<Longrightarrow> watching k (handle_tcp_socket_activity os fd)"
  unfolding handle_tcp_socket_activity_def
  by (auto intro!: safe_rules watching_rules watching_drop_client)

text \<open>A descriptor that \<open>accept\<close> returns is not open yet.\<close>

definition fresh_accept :: "server \<Rightarrow> os \<Rightarrow> bool" where
  "fresh_accept s os \<longleftrightarrow> (\<forall>fd addr. accepted os = Some (fd, addr) \<longrightarrow> fd \<notin> master_fds s)"

lemma watched_logs [simp]:
  "watched k (s\<lparr>logs := l, master_fds := m, max_fd := x\<rparr>) = watched k (s\<lparr>master_fds := m, max_fd := x\<rparr>)"
  by (simp add: watched_def)

lemma watching_accept:
  assumes s: "watched k s" and fresh: "fresh_accept s os"
  shows "wp (handle_tcp_accept os) (\<lambda>_. watched k) (\<lambda>_. True) s"
proof (cases "accepted os")
  case None
  then show ?thesis using s by (simp add: handle_tcp_accept_def accept_tcp_connection_def)
next
  case (Some a)
  then obtain fd addr where a: "accepted os = Some (fd, addr)" by (cases a) auto
  let ?J = "\<lambda>s. watched k s \<and> fd \<notin> master_fds s"
  let ?K = "\<lambda>s. watched k (s\<lparr>master_fds := insert fd (master_fds s), max_fd := max fd (max_fd s)\<rparr>)"
  have new: "fd \<notin> master_fds s" using fresh a by (simp add: fresh_accept_def)
  have frame: "safe ?J (\<lambda>_. True) (log_event os m)" "safe ?K (\<lambda>_. True) (log_event os m)"
    "safe ?J (\<lambda>_. True) (connection_message addr)" for m
    unfolding log_event_def get_home_dir_def connection_message_def filled_def
    by (auto intro!: safe_rules split: sockaddr.splits option.splits)
  have add: "wp (add_tcp_client os fd) (\<lambda>_. ?K) (\<lambda>_. True) t" if t: "?J t" for t
  proof -
    have "wp (on_tcp (tcp_add fd)) (\<lambda>_. ?K) (\<lambda>_. True) t"
      unfolding on_tcp_def wp_zoom
      by (rule wp_mono [OF tcp_add_ok [of "tcp_clients t" fd]])
        (use t in \<open>auto simp: watched_def split: if_splits\<close>)
    then show ?thesis
      unfolding add_tcp_client_def log_total_def log_message_def
      by (rule wp_andthen_safe) (intro safe_rules frame)
  qed
  have "wp (andthen (connection_message addr) (\<lambda>text. andthen (log_event os text) (\<lambda>_.
          andthen (add_tcp_client os fd) (\<lambda>_. ret (Some fd)))))
      (\<lambda>r s. r = Some fd \<and> ?K s) (\<lambda>_. True) s"
    by (rule wp_andthenI, rule wp_mono [OF safeD [OF frame(3)]], use s new in simp,
        rule wp_andthenI, rule wp_mono [OF safeD [OF frame(1)]], simp,
        rule wp_andthenI, rule wp_mono [OF add]) simp_all
  then show ?thesis
    unfolding handle_tcp_accept_def accept_tcp_connection_def a
    by (intro wp_andthenI) (auto elim!: wp_mono simp: fd_set_add_def max_def split: if_splits)
qed

lemma watching_dispatch:
  "fd \<noteq> tcp_socket_fd k \<Longrightarrow> watching k (dispatch os k fd)"
  unfolding dispatch_def handle_udp_socket_activity_def
  by (auto intro!: safe_andthen safe_ret watching_rules watching_handle_tcp simp: listening_def)

lemma watching_sweep: "tcp_socket_fd k < fd \<Longrightarrow> watching k (sweep fuel os k read_fds fd)"
proof (induction fuel arbitrary: fd)
  case 0
  then show ?case by (simp add: safe_halt)
next
  case (Suc fuel)
  have "watching k (dispatch os k fd)" using Suc.prems by (intro watching_dispatch) auto
  then show ?case using Suc by (auto intro!: safe_rules)
qed

lemma watching_loop_step:
  assumes s: "watched k s" and fresh: "fresh_accept s os"
  shows "wp (server_loop_step os k) (\<lambda>_. watched k) (\<lambda>_. True) s"
proof -
  have rest: "watching k (sweep fuel os k read_fds (tcp_socket_fd k + 1))" for fuel read_fds
    by (rule watching_sweep) simp
  have "wp (if tcp_socket_fd k \<in> R then dispatch os k (tcp_socket_fd k) else ret ())
      (\<lambda>_. watched k) (\<lambda>_. True) s" for R
    using watching_accept [OF s fresh] s by (simp add: dispatch_def)
  then have "wp (andthen (if tcp_socket_fd k \<in> R then dispatch os k (tcp_socket_fd k) else ret ())
      (\<lambda>_. sweep f os k R (tcp_socket_fd k + 1))) (\<lambda>_. watched k) (\<lambda>_. True) s" for R f
    by (rule wp_andthen_safe) (rule rest)
  then have "wp (sweep fuel os k R (tcp_socket_fd k)) (\<lambda>_. watched k) (\<lambda>_. True) s" for fuel R
    using s safeD [where I = "watched k", OF rest s] by (cases fuel) (simp_all split: if_splits)
  then have "wp (server_round os k) (\<lambda>_. watched k) (\<lambda>_. True) s"
    by (simp add: server_round_def split: option.splits)
  then have "wp (andthen (server_round os k) (\<lambda>_. ret True)) (\<lambda>_. watched k) (\<lambda>_. True) s"
    by (rule wp_andthen_safe) (rule safe_ret)
  moreover have "watching k (andthen (log_event os ''Server turned off'') (\<lambda>_. ret False))"
    by (intro safe_rules watching_rules)
  then have "wp (andthen (log_event os ''Server turned off'') (\<lambda>_. ret False)) (\<lambda>_. watched k) (\<lambda>_. True) s"
    using s by (rule safeD)
  ultimately show ?thesis by (simp add: server_loop_step_def)
qed

lemma watching_sigint: "watching k sigint_handler"
  unfolding sigint_handler_def by (auto intro!: safe_rules watching_rules)

lemma started_watched: "watched k (started os k initial_server)"
  by (auto simp: watched_def started_def initial_server_def listening_def)

text \<open>
  C2: when \<open>accept\<close> returns descriptors that are not open already, every reachable state has
  each registered client's descriptor once in the registry and in the set \<open>select\<close> waits on,
  apart from the listening sockets, which stay in the set; and no watched descriptor is missed
  by the sweep because it is above \<open>max_fd\<close>. So what is broadcast to the registry goes to open
  connections, once to each.
\<close>

theorem reachable_clients_watched:
  assumes "benign os" and "sockets_ok k"
    and "(server_step fresh_accept k)\<^sup>*\<^sup>* (boot os k) (Up s)"
  shows "distinct (connected (tcp_clients s)) \<and>
    set (connected (tcp_clients s)) \<subseteq> master_fds s - listening k \<and>
    listening k \<subseteq> master_fds s \<and> (\<forall>fd \<in> master_fds s. fd \<le> max_fd s)"
proof -
  have "process_ok (watched k) (\<lambda>_. True) (boot os k)"
    by (simp add: boot_def start_server_setup_run assms(1,2) started_watched)
  then have "process_ok (watched k) (\<lambda>_. True) (Up s)"
    by (rule reachable_ok [OF _ _ _ assms(3)])
      (auto intro: watching_loop_step safeD watching_sigint)
  then show ?thesis by (simp add: watched_def)
qed

text \<open>A start, and a signal before the first pass.\<close>

definition four_sockets :: sockets where
  "four_sockets = \<lparr>tcp_socket_fd = 4, udp_socket_fd = 5, unix_socket_fd = 7, fifo_fd = 6\<rparr>"

lemma four_sockets_ok [simp]: "sockets_ok four_sockets"
  by (simp add: sockets_ok_def four_sockets_def FD_SETSIZE_def)

lemma boot_signalled:
  assumes "benign os" and "sockets_ok k"
  shows "(server_step environment k)\<^sup>*\<^sup>* (boot os k)
    (Up (started os k initial_server\<lparr>running := False\<rparr>))"
proof -
  have "sigint_handler (started os k initial_server) =
      Inr ((), started os k initial_server\<lparr>running := False\<rparr>)"
    by (simp add: sigint_handler_def run started_def initial_server_def)
  from signal [OF this, of environment k] show ?thesis
    by (simp add: boot_def start_server_setup_run assms r_into_rtranclp)
qed

theorem reachable_server_safe_witness:
  "\<exists>s. (server_step (\<lambda>_. benign) four_sockets)\<^sup>*\<^sup>* (boot quiet_os four_sockets) (Up s) \<and>
     server_ok s \<and> \<not> running s"
proof -
  note steps = boot_signalled [OF quiet_benign four_sockets_ok, of "\<lambda>_. benign"]
  show ?thesis
    by (rule exI [where x = "started quiet_os four_sockets initial_server\<lparr>running := False\<rparr>"])
      (use steps reachable_server_safe [OF quiet_benign four_sockets_ok steps] in simp)
qed

theorem reachable_clients_watched_witness:
  "\<exists>s. (server_step fresh_accept four_sockets)\<^sup>*\<^sup>* (boot quiet_os four_sockets) (Up s) \<and>
     \<not> running s \<and> {4, 5, 6, 7} \<subseteq> master_fds s"
proof -
  note steps = boot_signalled [OF quiet_benign four_sockets_ok, of fresh_accept]
  from reachable_clients_watched [OF quiet_benign four_sockets_ok steps]
  have "{4, 5, 6, 7} \<subseteq> master_fds (started quiet_os four_sockets initial_server\<lparr>running := False\<rparr>)"
    by (simp add: listening_def four_sockets_def)
  with steps show ?thesis
    by (intro exI [where x = "started quiet_os four_sockets initial_server\<lparr>running := False\<rparr>"]) simp
qed

end
