(* ===== verification/RoundTrip.thy ===== *)
theory RoundTrip
  imports CJsonParseSafe CJsonRender
begin

text \<open>
  Reading back what was printed: parsing the rendered text of an item gives the item, for
  items made of literals, integers, strings, arrays and objects, in both print formats. The
  parser is followed along the text: \<open>rest\<close> is what it has not read.
\<close>

section \<open>The buffer as the text still to read\<close>

definition rest :: "parse_buffer \<Rightarrow> string" where
  "rest b = drop (offset b) (content b)"

definition fwd :: "nat \<Rightarrow> parse_buffer \<Rightarrow> parse_buffer" where
  "fwd n b = b\<lparr>offset := offset b + n\<rparr>"

lemma fwd_sel [simp]:
  "content (fwd n b) = content b" "offset (fwd n b) = offset b + n" "depth (fwd n b) = depth b"
  "hooks (fwd n b) = hooks b" "fwd m (fwd n b) = fwd (n + m) b" "fwd 0 b = b"
  "fwd n (b\<lparr>depth := d\<rparr>) = (fwd n b)\<lparr>depth := d\<rparr>"
  by (simp_all add: fwd_def add.assoc)

lemma rest_fwd [simp]: "rest (fwd n b) = drop n (rest b)" "rest (b\<lparr>depth := d\<rparr>) = rest b"
  by (simp_all add: rest_def add.commute)

lemma rest_Cons:
  "rest b = c # r \<Longrightarrow> offset b < length (content b) \<and> content b ! offset b = c"
  by (metis drop_eq_Nil2 hd_drop_conv_nth list.distinct(1) list.sel(1) not_le rest_def)

lemma looking_at_rest: "looking_at c b \<longleftrightarrow> (\<exists>r. rest b = c # r)"
  by (auto simp: looking_at_def can_access_at_index_def dest: rest_Cons)
    (simp add: rest_def Cons_nth_drop_Suc [symmetric])

lemma can_access_rest: "can_access_at_index 0 b \<longleftrightarrow> rest b \<noteq> []"
  by (auto simp: can_access_at_index_def rest_def)

lemma starts_with_rest: "lit \<noteq> [] \<Longrightarrow> starts_with lit b \<longleftrightarrow> take (length lit) (rest b) = lit"
proof -
  assume "lit \<noteq> []"
  then have "offset b + length lit \<le> length (content b)"
    if "take (length lit) (drop (offset b) (content b)) = lit"
    using arg_cong [OF that, of length] by (cases lit) auto
  then show ?thesis by (auto simp: starts_with_def can_read_def rest_def)
qed

lemma advance_fwd [run]: "advance n b = Inr ((), fwd n b)"
  by (simp add: advance_def run fwd_def)

definition blank :: "string \<Rightarrow> bool" where
  "blank ws \<longleftrightarrow> (\<forall>c \<in> set ws. byte c \<le> 32)"

lemma skip_blank:
  assumes "rest b = ws @ c # r" and "blank ws" and "32 < byte c"
  shows "buffer_skip_whitespace b = Inr ((), fwd (length ws) b)"
proof -
  have t: "takeWhile (\<lambda>c. byte c \<le> 32) (drop (offset b) (content b)) = ws"
    using assms by (simp add: rest_def takeWhile_append2 blank_def)
  have "length (content b) = offset b + length (rest b)"
    using assms(1) by (auto simp: rest_def not_le dest: arg_cong [of _ _ length])
  then have "offset b + length ws \<noteq> length (content b)" using assms(1) by simp
  then show ?thesis
    by (simp add: buffer_skip_whitespace_def run can_access_rest assms(1) t Let_def fwd_def)
qed

lemma skip_none:
  "rest b = c # r \<Longrightarrow> 32 < byte c \<Longrightarrow> buffer_skip_whitespace b = Inr ((), b)"
  using skip_blank [of b "[]" c r] by (simp add: blank_def)

section \<open>Strings\<close>

lemma hex_char_byte: "n < 16 \<Longrightarrow> byte (hex_char n) = (if n < 10 then 48 + n else 87 + n)"
  by (simp add: hex_char_def)

lemma hex_digit_char: "n < 16 \<Longrightarrow> hex_digit (hex_char n) = Some n"
  by (simp add: hex_digit_def hex_char_byte)

lemma hex_char_plain: "n < 16 \<Longrightarrow> hex_char n \<noteq> CHR 0x22 \<and> hex_char n \<noteq> CHR 0x5C"
  using hex_char_byte [of n] by (auto simp: byte_def split: if_splits)

text \<open>The forms of an escaped character.\<close>

lemma escape_cases:
  obtains (plain) "escape_char c = [c]" "c \<noteq> CHR 0x22" "c \<noteq> CHR 0x5C" "escape_count c = 0"
  | (short) e where "escape_char c = [CHR 0x5C, e]" "simple_escape e = Some c" "escape_count c \<noteq> 0"
  | (hex) "escape_char c = CHR 0x5C # ''u00'' @ [hex_char (byte c div 16), hex_char (byte c mod 16)]"
      "byte c < 32" "escape_count c \<noteq> 0"
proof -
  show ?thesis
  proof (cases "c \<in> {CHR 0x22, CHR 0x5C, CHR 0x08, CHR 0x0C, CHR 0x0A, CHR 0x0D, CHR 0x09}")
    case True
    then have "\<exists>e. escape_char c = [CHR 0x5C, e] \<and> simple_escape e = Some c \<and> escape_count c \<noteq> 0"
      by (elim insertE emptyE) (simp_all add: escape_char_def simple_escape_def escape_count_def byte_def)
    then show ?thesis using short by blast
  next
    case False
    then show ?thesis
      using plain hex by (cases "byte c < 32") (auto simp: escape_char_def escape_count_def)
  qed
qed

definition escapes :: "string \<Rightarrow> nat" where
  "escapes s = length (filter (\<lambda>c. escape_count c \<noteq> 0) s)"

text \<open>The first loop of \<open>parse_string\<close> over an escaped character, and over an escaped string.\<close>

lemma scan_plain:
  assumes "\<forall>c \<in> set w. c \<noteq> CHR 0x22 \<and> c \<noteq> CHR 0x5C"
  shows "scan_string (pre @ w @ t) (length pre) k = scan_string (pre @ w @ t) (length pre + length w) k"
  using assms
proof (induction w arbitrary: pre)
  case (Cons c w)
  have "scan_string (pre @ (c # w) @ t) (length pre) k = scan_string (pre @ (c # w) @ t) (length (pre @ [c])) k"
    using Cons.prems by (subst scan_string.simps) (simp add: nth_append)
  also have "\<dots> = scan_string (pre @ (c # w) @ t) (length pre + length (c # w)) k"
    using Cons.IH [of "pre @ [c]"] Cons.prems by simp
  finally show ?case .
qed simp

lemma scan_escape:
  "scan_string (pre @ CHR 0x5C # e # t) (length pre) k = scan_string (pre @ CHR 0x5C # e # t) (length pre + 2) (k + 1)"
  by (subst scan_string.simps) (simp add: nth_append)

lemma scan_escaped_char:
  "scan_string (pre @ escape_char c @ t) (length pre) k =
   scan_string (pre @ escape_char c @ t) (length pre + length (escape_char c))
     (k + (if escape_count c \<noteq> 0 then 1 else 0))"
proof (cases c rule: escape_cases)
  case plain
  then show ?thesis using scan_plain [of "[c]" pre t k] by simp
next
  case (short e)
  then show ?thesis using scan_escape [of pre e t k] by simp
next
  case hex
  define w where "w = ''00'' @ [hex_char (byte c div 16), hex_char (byte c mod 16)]"
  have w: "escape_char c = CHR 0x5C # CHR ''u'' # w" "\<forall>x \<in> set w. x \<noteq> CHR 0x22 \<and> x \<noteq> CHR 0x5C"
    using hex hex_char_plain [of "byte c div 16"] hex_char_plain [of "byte c mod 16"]
    by (auto simp: w_def)
  from scan_plain [OF this(2), of "pre @ [CHR 0x5C, CHR ''u'']" t "k + 1"]
  show ?thesis using scan_escape [of pre "CHR ''u''" "w @ t" k] w(1) hex(3) by simp
qed

lemma scan_escaped:
  "scan_string (pre @ concat (map escape_char s) @ CHR 0x22 # t) (length pre) k =
   Some (length pre + length (concat (map escape_char s)), k + escapes s)"
proof (induction s arbitrary: pre k)
  case Nil
  then show ?case by (subst scan_string.simps) (simp add: escapes_def)
next
  case (Cons c s)
  from Cons.IH [of "pre @ escape_char c" "k + (if escape_count c \<noteq> 0 then 1 else 0)"]
  show ?case
    using scan_escaped_char [of pre c "concat (map escape_char s) @ CHR 0x22 # t" k]
    by (simp add: escapes_def)
qed

text \<open>The second loop writes the character that was escaped.\<close>

lemma byte_at_run: "i < length (content b) \<Longrightarrow> byte_at i b = Inr (content b ! i, b)"
  by (simp add: byte_at_def)

lemma hex4_run:
  assumes "content b = pre @ ''00'' @ [hex_char n, hex_char m] @ t" and "n < 16" and "m < 16"
  shows "parse_hex4 (length pre) b = Inr (16 * n + m, b)"
proof -
  have c: "content b ! length pre = CHR ''0''" "content b ! (length pre + 1) = CHR ''0''"
    "content b ! (length pre + 2) = hex_char n" "content b ! (length pre + 3) = hex_char m"
    "length pre + 3 < length (content b)"
    using assms(1) by (simp_all add: nth_append)
  have z: "hex_digit (CHR ''0'') = Some 0" by (simp add: hex_digit_def byte_def)
  show ?thesis
    using c z hex_digit_char [OF assms(2)] hex_digit_char [OF assms(3)]
    by (simp add: parse_hex4_def numeral_eq_Suc run byte_at_run push_bit_eq_mult)
qed

lemma encode_codepoint_ascii: "n < 128 \<Longrightarrow> encode_codepoint n = Some [char_of n]"
proof -
  assume "n < 128"
  then have "take_bit 7 n = n" by (simp add: take_bit_nat_eq_self)
  then have "n AND 127 = n" by (simp add: take_bit_eq_mask mask_eq_exp_minus_1)
  then show ?thesis using \<open>n < 128\<close> by (simp add: encode_codepoint_def)
qed

lemma decode_escaped_char:
  assumes b: "content b = pre @ escape_char c @ t"
    and e: "length pre + length (escape_char c) \<le> e" and cap: "length out < cap"
  shows "decode_string e cap (length pre) out b =
    decode_string e cap (length pre + length (escape_char c)) (out @ [c]) b"
proof (cases c rule: escape_cases)
  case plain
  then have "content b ! length pre = c" "length pre < length (content b)" using b by simp_all
  then show ?thesis using plain e cap
    by (subst decode_string.simps) (simp add: run byte_at_run write_out_def)
next
  case (short x)
  then have "content b ! length pre = CHR 0x5C" "content b ! (length pre + 1) = x"
    "length pre + 1 < length (content b)" using b by (simp_all add: nth_append)
  then show ?thesis using short e cap
    by (subst decode_string.simps) (simp add: run byte_at_run write_out_def)
next
  case hex
  have c: "content b ! length pre = CHR 0x5C" "content b ! (length pre + 1) = CHR ''u''"
    "length pre + 5 < length (content b)" using b hex by (simp_all add: nth_append)
  have "content b = (pre @ [CHR 0x5C, CHR ''u'']) @ ''00'' @
      [hex_char (byte c div 16), hex_char (byte c mod 16)] @ t"
    using b hex by simp
  from hex4_run [OF this] hex(2) have h: "parse_hex4 (length pre + 2) b = Inr (byte c, b)" by simp
  have "utf16_literal_to_utf8 (length pre) e b = Inr ((6, [c]), b)"
    using e hex h encode_codepoint_ascii [of "byte c"]
    by (simp add: utf16_literal_to_utf8_def run) (simp add: byte_def)
  moreover have "simple_escape (CHR ''u'') = None" by (simp add: simple_escape_def)
  moreover have l: "length (escape_char c) = 6" using hex by simp
  ultimately show ?thesis using c e cap unfolding l
    by (subst decode_string.simps) (simp add: run byte_at_run write_out_def)
qed

lemma decode_escaped:
  assumes "content b = pre @ concat (map escape_char s) @ t"
    and "length pre + length (concat (map escape_char s)) = e" and "length out + length s < cap"
  shows "decode_string e cap (length pre) out b = Inr (Inr (out @ s), b)"
  using assms
proof (induction s arbitrary: pre out)
  case Nil
  then show ?case
    by (subst decode_string.simps) (simp add: run write_out_def)
next
  case (Cons c s)
  have "decode_string e cap (length pre) out b =
      decode_string e cap (length (pre @ escape_char c)) (out @ [c]) b"
    using decode_escaped_char [of b pre c "concat (map escape_char s) @ t" e out cap] Cons.prems by simp
  also have "\<dots> = Inr (Inr ((out @ [c]) @ s), b)"
    by (rule Cons.IH) (use Cons.prems in simp_all)
  finally show ?case by simp
qed

lemma escaped_length: "length s + escapes s \<le> length (concat (map escape_char s))"
proof (induction s)
  case (Cons c s)
  have "1 + (if escape_count c \<noteq> 0 then 1 else 0) \<le> length (escape_char c)"
    by (cases c rule: escape_cases) auto
  then show ?case using Cons by (auto simp: escapes_def split: if_splits)
qed (simp add: escapes_def)

lemma pb_alloc_run:
  "hooks b = [] \<Longrightarrow> pb_alloc alloc b = Inr (True, b)"
  "hooks b = [] \<Longrightarrow> pb_alloc cJSON_New_Item b = Inr (Some empty_item, b)"
  by (simp_all add: pb_alloc_def run)

lemma parse_string_quote:
  assumes "rest b = quote (Some s) @ r" and "hooks b = []" and "c_string s"
  shows "parse_string item b =
    Inr (Some (set_kind cJSON_String (set_valuestring (Some s) item)), fwd (length (quote (Some s))) b)"
proof -
  define pre where "pre = take (offset b) (content b)"
  define w where "w = concat (map escape_char s)"
  have o: "offset b < length (content b)" "content b ! offset b = CHR 0x22"
    using rest_Cons [of b "CHR 0x22" "w @ CHR 0x22 # r"] assms(1) by (simp_all add: quote_def w_def)
  then have p: "length pre = offset b" by (simp add: pre_def)
  have "content b = pre @ rest b" by (simp add: pre_def rest_def)
  then have c: "content b = (pre @ [CHR 0x22]) @ w @ CHR 0x22 # r"
    using assms(1) by (simp add: quote_def w_def)
  have sc: "scan_string (content b) (offset b + 1) 0 = Some (offset b + 1 + length w, escapes s)"
    using scan_escaped [of "pre @ [CHR 0x22]" s r 0] c p by (simp add: w_def)
  let ?cap = "offset b + 1 + length w - offset b - escapes s + 1"
  have "length s + escapes s \<le> length w" using escaped_length by (simp add: w_def)
  then have d: "decode_string (offset b + 1 + length w) ?cap (offset b + 1) [] b = Inr (Inr s, b)"
    using decode_escaped [of b "pre @ [CHR 0x22]" s "CHR 0x22 # r" "offset b + 1 + length w" "[]" ?cap]
      c p by (simp add: w_def)
  show ?thesis
    using o sc d assms(2, 3)
    by (simp add: parse_string_def run byte_at_run pb_alloc_run Let_def quote_def w_def [symmetric]
        fwd_def upto_nul_id)
qed

section \<open>Values\<close>

text \<open>The items that are read back: what the parser itself makes of literals, integers,
  strings, arrays and objects.\<close>

fun plain :: "cJSON \<Rightarrow> bool" where
  "plain (Item k r c vs vi vd n ch) \<longleftrightarrow>
     \<not> r \<and> \<not> c \<and>
     (k = cJSON_String \<and> pred_option c_string vs \<and> vs \<noteq> None \<or> k \<noteq> cJSON_String \<and> vs = None) \<and>
     (k = cJSON_Number \<and> is_int vi \<and> vd = Fin (of_int vi) \<or>
      k \<noteq> cJSON_Number \<and> vi = (if k = cJSON_True then 1 else 0) \<and> vd = Fin 0) \<and>
     (k = cJSON_Array \<and> (\<forall>it \<in> set ch. name it = None) \<or>
      k = cJSON_Object \<and> (\<forall>it \<in> set ch. name it \<noteq> None \<and> pred_option c_string (name it)) \<or>
      k \<notin> {cJSON_Array, cJSON_Object, cJSON_Raw, cJSON_Invalid} \<and> ch = []) \<and>
     (\<forall>it \<in> set ch. plain it)"

fun nesting :: "cJSON \<Rightarrow> nat" where
  "nesting (Item k r c vs vi vd n ch) =
     (if k = cJSON_Array \<or> k = cJSON_Object then Suc (foldr max (map nesting ch) 0) else 0)"

definition blank_item :: "string option \<Rightarrow> cJSON \<Rightarrow> bool" where
  "blank_item nm it \<longleftrightarrow> (\<exists>k. it = Item k False False None 0 (Fin 0) nm [])"

text \<open>A parser reads a text as an item, from a buffer of some depth, when something that is not
  part of a number follows.\<close>

definition value_reads :: "(cJSON \<Rightarrow> cJSON option parsem) \<Rightarrow> nat \<Rightarrow> string \<Rightarrow> cJSON \<Rightarrow> bool" where
  "value_reads v d s t \<longleftrightarrow>
     (\<forall>item b c r. rest b = s @ c # r \<and> \<not> number_char c \<and> hooks b = [] \<and> depth b = d \<and>
        blank_item (name t) item \<longrightarrow> v item b = Inr (Some t, fwd (length s) b))"

lemma value_readsD:
  "value_reads v d s t \<Longrightarrow> rest b = s @ c # r \<Longrightarrow> \<not> number_char c \<Longrightarrow> hooks b = [] \<Longrightarrow>
   depth b = d \<Longrightarrow> blank_item (name t) item \<Longrightarrow> v item b = Inr (Some t, fwd (length s) b)"
  by (simp add: value_reads_def)

definition opens :: "string \<Rightarrow> bool" where
  "opens s \<longleftrightarrow> s \<noteq> [] \<and> 32 < byte (hd s) \<and> byte (hd s) < 128 \<and> hd s \<noteq> CHR '']''"

lemma opensE:
  assumes "opens s"
  obtains c s' where "s = c # s'" "32 < byte c" "byte c < 128" "c \<noteq> CHR '']''"
  using assms by (cases s) (auto simp: opens_def)

lemma blank_append [simp]: "blank [] " "blank (u @ w) \<longleftrightarrow> blank u \<and> blank w" "blank (c # u) \<longleftrightarrow> byte c \<le> 32 \<and> blank u"
  by (auto simp: blank_def)

lemma blank_layout [simp]: "blank (newline fmt)" "blank (indent fmt d)"
  by (simp_all add: newline_def indent_def tabs_def byte_def blank_def)

lemma number_char_shown: "number_char c \<Longrightarrow> 32 < byte c"
  by (auto simp: number_char_def is_digit_def byte_def)

lemma blank_no_number: "blank ws \<Longrightarrow> \<exists>c r'. ws @ x # r = c # r' \<and> (\<not> number_char x \<longrightarrow> \<not> number_char c)"
  by (cases ws) (auto dest: number_char_shown)

lemma rest_next: "rest b = s @ r \<Longrightarrow> rest (fwd (length s) b) = r"
  by simp

lemma skip_to:
  assumes "rest b = ws @ s @ r" and "blank ws" and "opens s"
  shows "buffer_skip_whitespace b = Inr ((), fwd (length ws) b)"
  using assms(3) skip_blank [of b ws _ _] assms(1, 2) by (elim opensE) simp

lemma punctuation [simp]:
  "\<not> number_char (CHR '','')" "\<not> number_char (CHR ''}'')" "\<not> number_char (CHR '']'')"
  "\<not> number_char NUL" "\<not> number_char (CHR 0x0A)" "\<not> number_char (CHR 0x22)"
  "32 < byte (CHR '','')" "32 < byte (CHR ''}'')" "32 < byte (CHR '']'')" "32 < byte (CHR '':'')"
  "32 < byte (CHR 0x22)" "byte (CHR 0x22) < 128"
  by (simp_all add: number_char_def is_digit_def byte_def)

lemma blank_empty_item: "blank_item None empty_item"
  by (simp add: blank_item_def empty_item_def)

subsection \<open>Arrays\<close>

lemma elements_read:
  assumes "list_all2 (\<lambda>s t. value_reads v d s t \<and> opens s \<and> name t = None) ss ts"
    and "ts \<noteq> []" and "length ts \<le> rounds"
    and "rest b = x # ws @ element_texts fmt ss @ CHR '']'' # r" and "blank ws"
    and "hooks b = []" and "depth b = d"
  shows "parse_elements rounds v items b =
    Inr (Some (items @ ts), fwd (1 + length ws + length (element_texts fmt ss)) b)"
  using assms
proof (induction ss arbitrary: ts rounds b x ws items)
  case (Cons s ss)
  obtain t ts' where ts: "ts = t # ts'" and s: "value_reads v d s t" "opens s" "name t = None"
    and tl: "list_all2 (\<lambda>s t. value_reads v d s t \<and> opens s \<and> name t = None) ss ts'"
    using Cons.prems(1) by (auto simp: list_all2_Cons1)
  obtain n where n: "rounds = Suc n" "length ts' \<le> n"
    using Cons.prems(3) ts by (cases rounds) auto
  let ?b = "fwd (1 + length ws) b"
  show ?case
  proof (cases ss)
    case Nil
    then have r: "rest (fwd 1 b) = ws @ s @ CHR '']'' # r" "rest ?b = s @ CHR '']'' # r"
      using Cons.prems(4) by simp_all
    have v: "v empty_item ?b = Inr (Some t, fwd (length s) ?b)"
      by (rule value_readsD [OF s(1) r(2)])
        (use Cons.prems(6, 7) s(3) in \<open>simp_all add: blank_empty_item\<close>)
    have k: "buffer_skip_whitespace (fwd (length s) ?b) = Inr ((), fwd (length s) ?b)"
      by (rule skip_none [OF rest_next [OF r(2)]]) simp
    have l: "\<not> looking_at (CHR '','') (fwd (length s) ?b)"
      using rest_next [OF r(2)] by (simp add: looking_at_rest del: fwd_sel rest_fwd)
    show ?thesis
      using skip_to [OF r(1) Cons.prems(5) s(2)] v k l Nil tl ts n Cons.prems(6)
      by (simp add: run pb_alloc_run more_items_def add.assoc)
  next
    case (Cons s' ss')
    let ?sep = "if fmt then '' '' else ''''"
    have e: "element_texts fmt (s # ss) = s @ CHR '','' # ?sep @ element_texts fmt ss"
      using Cons by (simp add: array_separator_def)
    have r: "rest (fwd 1 b) = ws @ s @ CHR '','' # ?sep @ element_texts fmt ss @ CHR '']'' # r"
      "rest ?b = s @ CHR '','' # ?sep @ element_texts fmt ss @ CHR '']'' # r"
      using Cons.prems(4) unfolding e by simp_all
    have v: "v empty_item ?b = Inr (Some t, fwd (length s) ?b)"
      by (rule value_readsD [OF s(1) r(2)])
        (use Cons.prems(6, 7) s(3) in \<open>simp_all add: blank_empty_item\<close>)
    note r2 = rest_next [OF r(2)]
    have k: "buffer_skip_whitespace (fwd (length s) ?b) = Inr ((), fwd (length s) ?b)"
      by (rule skip_none [OF r2]) simp
    have l: "looking_at (CHR '','') (fwd (length s) ?b)"
      using r2 by (simp add: looking_at_rest del: fwd_sel rest_fwd)
    have ih: "parse_elements n v (items @ [t]) (fwd (length s) ?b) =
      Inr (Some ((items @ [t]) @ ts'), fwd (1 + length ?sep + length (element_texts fmt ss)) (fwd (length s) ?b))"
      by (rule Cons.IH [OF tl _ n(2) r2])
        (use Cons tl Cons.prems(6, 7) in \<open>auto simp: byte_def\<close>)
    show ?thesis
      using skip_to [OF r(1) Cons.prems(5) s(2)] v k l ih ts n Cons.prems(6)
      by (simp add: run pb_alloc_run more_items_def add.assoc e del: element_texts.simps)
  qed
qed simp

subsection \<open>Objects\<close>

lemma opens_quote: "opens (quote s)"
  by (simp add: opens_def quote_def)

lemma blank_item_named: "blank_item (Some n) (take_name (set_kind k (set_valuestring (Some n) empty_item)))"
  by (simp add: blank_item_def take_name_def empty_item_def)

text \<open>The members without the indentation in front of the first, which the parser has skipped
  before it enters the loop.\<close>

definition member_core :: "bool \<Rightarrow> string option \<times> string \<Rightarrow> string" where
  "member_core fmt kv = quote (fst kv) @ colon fmt @ snd kv"

fun bodies :: "bool \<Rightarrow> nat \<Rightarrow> (string option \<times> string) list \<Rightarrow> string" where
  "bodies fmt d [] = []"
| "bodies fmt d [m] = member_core fmt m @ newline fmt"
| "bodies fmt d (m # ms) = member_core fmt m @ '','' @ newline fmt @ indent fmt d @ bodies fmt d ms"

lemma member_texts_bodies: "ms \<noteq> [] \<Longrightarrow> member_texts fmt d ms = indent fmt d @ bodies fmt d ms"
  by (induction fmt d ms rule: bodies.induct) (simp_all add: member_text_def member_core_def)

lemma opens_bodies: "ms \<noteq> [] \<Longrightarrow> opens (bodies fmt d ms)"
  by (induction fmt d ms rule: bodies.induct) (simp_all add: opens_def member_core_def quote_def)

text \<open>From the character before a member to the one behind its value.\<close>

lemma member_read:
  assumes s: "value_reads v d s t" "opens s" and n: "name t = Some n" "c_string n"
    and r: "rest b = x # ws @ member_core fmt (Some n, s) @ c # r" and c: "\<not> number_char c"
    and ws: "blank ws" and b: "hooks b = []" "depth b = d"
  shows "parse_members (Suc rounds) v items b =
    more_items (parse_members rounds v) items (Some t)
      (fwd (1 + length ws + length (member_core fmt (Some n, s))) b)"
proof -
  let ?ws = ws and ?q = "quote (Some n)"
  let ?tab = "if fmt then [CHR 0x09] else []"
  let ?b = "fwd (1 + length ?ws) b"
  have colon: "colon fmt = CHR '':'' # ?tab" by (simp add: colon_def)
  have r1: "rest (fwd 1 b) = ?ws @ ?q @ (CHR '':'' # ?tab @ s @ c # r)"
    and r2: "rest ?b = ?q @ (CHR '':'' # ?tab @ s @ c # r)"
    using r by (simp_all add: member_core_def colon)
  have k1: "buffer_skip_whitespace (fwd 1 b) = Inr ((), ?b)"
    using skip_to [OF r1 _ opens_quote] ws by simp
  have p: "parse_string empty_item ?b =
      Inr (Some (set_kind cJSON_String (set_valuestring (Some n) empty_item)), fwd (length ?q) ?b)"
    by (rule parse_string_quote [OF r2]) (use b n in simp_all)
  let ?b2 = "fwd (length ?q) ?b"
  note r3 = rest_next [OF r2]
  have k2: "buffer_skip_whitespace ?b2 = Inr ((), ?b2)" "looking_at (CHR '':'') ?b2"
    using skip_none [OF r3] r3 by (simp_all add: looking_at_rest del: fwd_sel rest_fwd)
  have r4: "rest (fwd 1 ?b2) = ?tab @ s @ c # r"
    using rest_next [of ?b2 "[CHR '':'']"] r3 by (simp del: fwd_sel rest_fwd)
  have k3: "buffer_skip_whitespace (fwd 1 ?b2) = Inr ((), fwd (length ?tab) (fwd 1 ?b2))"
    by (rule skip_to [OF r4 _ s(2)]) (simp add: byte_def)
  have v: "v (take_name (set_kind cJSON_String (set_valuestring (Some n) empty_item)))
      (fwd (length ?tab) (fwd 1 ?b2)) = Inr (Some t, fwd (length s) (fwd (length ?tab) (fwd 1 ?b2)))"
    by (rule value_readsD [OF s(1) rest_next [OF r4] c])
      (use b n in \<open>simp_all add: blank_item_named\<close>)
  have l: "length (member_core fmt (Some n, s)) =
      length ?q + 1 + length ?tab + length s"
    by (simp add: member_core_def colon)
  show ?thesis
    using k1 p k2 k3 v b(1) unfolding l by (simp add: run pb_alloc_run add.assoc split del: if_split)
qed

lemma members_read:
  assumes "list_all2 (\<lambda>s t. value_reads v d s t \<and> opens s \<and> name t \<noteq> None \<and> pred_option c_string (name t)) ss ts"
    and "ts \<noteq> []" and "length ts \<le> rounds"
    and "rest b = x # ws @ bodies fmt k (zip (map name ts) ss) @ tail @ CHR ''}'' # r"
    and "blank ws" and "blank tail" and "hooks b = []" and "depth b = d"
  shows "parse_members rounds v items b =
    Inr (Some (items @ ts),
      fwd (1 + length ws + length (bodies fmt k (zip (map name ts) ss)) + length tail) b)"
  using assms
proof (induction ss arbitrary: ts rounds b x ws items)
  case (Cons s ss)
  obtain t ts' n where ts: "ts = t # ts'" and s: "value_reads v d s t" "opens s"
    and nm: "name t = Some n" "c_string n"
    and tl: "list_all2 (\<lambda>s t. value_reads v d s t \<and> opens s \<and> name t \<noteq> None \<and> pred_option c_string (name t)) ss ts'"
    using Cons.prems(1) by (auto simp: list_all2_Cons1)
  obtain m where m: "rounds = Suc m" "length ts' \<le> m"
    using Cons.prems(3) ts by (cases rounds) auto
  let ?mt = "member_core fmt (Some n, s)"
  let ?b = "fwd (1 + length ws + length ?mt) b"
  show ?case
  proof (cases ss)
    case Nil
    then have ts': "ts = [t]" using tl ts by simp
    have r: "rest b = (x # ws @ ?mt) @ (newline fmt @ tail) @ CHR ''}'' # r"
      using Cons.prems(4) Nil ts' nm by simp
    obtain c r' where c: "(newline fmt @ tail) @ CHR ''}'' # r = c # r'" "\<not> number_char c"
      using blank_no_number [of "newline fmt @ tail"] Cons.prems(6) by fastforce
    have "rest b = x # ws @ ?mt @ c # r'" using r c(1) by simp
    from member_read [OF s nm this c(2) Cons.prems(5, 7, 8)]
    have p: "parse_members (Suc m) v items b = more_items (parse_members m v) items (Some t) ?b" .
    have r2: "rest ?b = (newline fmt @ tail) @ CHR ''}'' # r"
      using rest_next [OF r] by simp
    let ?b2 = "fwd (length (newline fmt @ tail)) ?b"
    have k: "buffer_skip_whitespace ?b = Inr ((), ?b2)"
      by (rule skip_blank [OF r2]) (use Cons.prems(6) in simp_all)
    have l: "\<not> looking_at (CHR '','') ?b2"
      using rest_next [OF r2] by (simp add: looking_at_rest del: fwd_sel rest_fwd)
    have "bodies fmt k (zip (map name ts) (s # ss)) = ?mt @ newline fmt"
      using Nil ts' nm by simp
    then show ?thesis unfolding m p more_items_def
      using k l ts' by (simp add: run add.assoc)
  next
    case (Cons s' ss')
    then have "zip (map name ts') ss \<noteq> []" using tl by (auto simp: list_all2_Cons1)
    then have e: "bodies fmt k (zip (map name ts) (s # ss)) =
        ?mt @ CHR '','' # newline fmt @ indent fmt k @ bodies fmt k (zip (map name ts') ss)"
      using ts nm by (cases "zip (map name ts') ss") simp_all
    let ?r = "(newline fmt @ indent fmt k) @ bodies fmt k (zip (map name ts') ss) @ tail @ CHR ''}'' # r"
    have r: "rest b = x # ws @ ?mt @ CHR '','' # ?r"
      using Cons.prems(4) unfolding e by simp
    from member_read [OF s nm r punctuation(1) Cons.prems(5, 7, 8)]
    have p: "parse_members (Suc m) v items b = more_items (parse_members m v) items (Some t) ?b" .
    have r2: "rest ?b = CHR '','' # ?r"
      using rest_next [of b "x # ws @ ?mt"] r by simp
    have k: "buffer_skip_whitespace ?b = Inr ((), ?b)" "looking_at (CHR '','') ?b"
      using skip_none [OF r2] r2 by (simp_all add: looking_at_rest del: fwd_sel rest_fwd)
    have ih: "parse_members m v (items @ [t]) ?b = Inr (Some ((items @ [t]) @ ts'),
        fwd (1 + length (newline fmt @ indent fmt k) + length (bodies fmt k (zip (map name ts') ss)) + length tail) ?b)"
      by (rule Cons.IH [OF tl _ m(2) r2]) (use Cons tl Cons.prems(6, 7, 8) in auto)
    show ?thesis unfolding m p e more_items_def
      using k ih ts by (simp add: run add.assoc)
  qed
qed simp

subsection \<open>Brackets\<close>

lemma retreat_fwd:
  "retreat (Suc 0) ((fwd (Suc n) b)\<lparr>depth := d\<rparr>) = Inr ((), (fwd n b)\<lparr>depth := d\<rparr>)"
  by (simp add: retreat_def run fwd_def)

lemma depth_restore: "depth b = d \<Longrightarrow> (fwd n b)\<lparr>depth := d\<rparr> = fwd n b"
  by (simp add: fwd_def)

lemma drop_to_last: "drop (length ws) (c # ws @ x) = last (c # ws) # x"
  by (induction ws arbitrary: c) auto

lemma finish_run:
  "depth b = d \<Longrightarrow> finish k item items (fwd n (b\<lparr>depth := Suc d\<rparr>)) =
    Inr (Some (set_kind k (set_child items item)), fwd (Suc n) b)"
  using depth_restore [of b d "Suc n"] by (simp add: finish_def run)

text \<open>\<open>bracketed\<close> on a text between brackets, the loop given by what it reads.\<close>

lemma bracketed_empty:
  assumes "rest b = x # ws @ close # r" and "blank ws" and "32 < byte close" and "depth b = d"
  shows "bracketed k close item items (b\<lparr>depth := Suc d\<rparr>) =
    Inr (Some (set_kind k (set_child [] item)), fwd (length ws + 2) b)"
proof -
  let ?b = "b\<lparr>depth := Suc d\<rparr>"
  have r: "rest (fwd 1 ?b) = ws @ close # r" using assms(1) by simp
  have l: "looking_at close (fwd (length ws) (fwd 1 ?b))"
    using rest_next [OF r] by (simp add: looking_at_rest del: fwd_sel rest_fwd)
  show ?thesis
    using skip_blank [OF r assms(2, 3)] l finish_run [OF assms(4)]
    by (simp add: bracketed_def run)
qed

lemma bracketed_items:
  assumes r: "rest b = x # ws @ s @ close # r" and ws: "blank ws" and s: "opens s" "hd s \<noteq> close"
    and d: "depth b = d"
    and loop: "items (fwd (length ws) (b\<lparr>depth := Suc d\<rparr>)) =
      Inr (Some ts, fwd (Suc (length s)) (fwd (length ws) (b\<lparr>depth := Suc d\<rparr>)))"
  shows "bracketed k close item items (b\<lparr>depth := Suc d\<rparr>) =
    Inr (Some (set_kind k (set_child ts item)), fwd (length ws + length s + 2) b)"
proof -
  let ?b = "b\<lparr>depth := Suc d\<rparr>"
  have r1: "rest (fwd 1 ?b) = ws @ s @ close # r" using r by simp
  note k = skip_to [OF r1 ws s(1)]
  have r2: "rest (fwd (length ws) (fwd 1 ?b)) = s @ close # r" by (rule rest_next [OF r1])
  have l: "\<not> looking_at close (fwd (length ws) (fwd 1 ?b))"
    "can_access_at_index 0 (fwd (length ws) (fwd 1 ?b))"
    unfolding looking_at_rest can_access_rest r2 using s by (auto elim!: opensE)
  have c: "looking_at close (fwd (length s) (fwd (length ws) (fwd 1 ?b)))"
    unfolding looking_at_rest using rest_next [OF r2] by blast
  show ?thesis
    using k l c loop finish_run [OF d]
    by (simp add: bracketed_def run retreat_fwd close_items_def add_ac)
qed

lemma array_reads:
  assumes "list_all2 (\<lambda>s t. value_reads v (Suc d) s t \<and> opens s \<and> name t = None) ss ts"
    and "length ts \<le> rounds" and "d < limit"
    and t: "t = Item cJSON_Array False False None 0 (Fin 0) nm ts"
  shows "value_reads (parse_array rounds limit v) d (''['' @ element_texts fmt ss @ '']'') t"
proof (unfold value_reads_def, intro allI impI, elim conjE)
  fix item b c r
  assume r: "rest b = (''['' @ element_texts fmt ss @ '']'') @ c # r" and "\<not> number_char c"
    and b: "hooks b = []" "depth b = d" and item: "blank_item (name t) item"
  let ?b = "b\<lparr>depth := Suc d\<rparr>"
  have r1: "rest b = CHR ''['' # [] @ element_texts fmt ss @ CHR '']'' # c # r" using r by simp
  have pa: "parse_array rounds limit v item b =
      bracketed cJSON_Array (CHR '']'') item (parse_elements rounds v []) ?b"
    using rest_Cons [OF r1] assms(3) b by (simp add: parse_array_def run byte_at_run enter_def)
  have st: "set_kind cJSON_Array (set_child ts item) = t" using item t by (auto simp: blank_item_def)
  show "parse_array rounds limit v item b =
      Inr (Some t, fwd (length (''['' @ element_texts fmt ss @ '']'')) b)"
  proof (cases ts)
    case Nil
    then have "ss = []" using assms(1) by simp
    then show ?thesis
      using bracketed_empty [of b "CHR ''[''" "[]" "CHR '']''" "c # r"] r1 b(2) st Nil pa by simp
  next
    case (Cons t' ts')
    then obtain s ss' where ss: "ss = s # ss'" "opens s" using assms(1) by (auto simp: list_all2_Cons2)
    have o: "opens (element_texts fmt ss)" "hd (element_texts fmt ss) \<noteq> CHR '']''"
      by (cases ss'; use ss in \<open>simp add: opens_def\<close>)+
    have "rest ?b = CHR ''['' # [] @ element_texts fmt ss @ CHR '']'' # c # r" using r1 by simp
    from elements_read [OF assms(1) _ assms(2) this]
    have "parse_elements rounds v [] (fwd (length []) ?b) =
        Inr (Some ts, fwd (Suc (length (element_texts fmt ss))) (fwd (length []) ?b))"
      using Cons b by simp
    from bracketed_items [where ws = "[]" and items = "parse_elements rounds v []", OF r1 _ o b(2) this]
    show ?thesis using st pa by simp
  qed
qed

lemma bodies_quote: "ms \<noteq> [] \<Longrightarrow> \<exists>w. bodies fmt d ms = CHR 0x22 # w"
  by (induction fmt d ms rule: bodies.induct) (simp_all add: member_core_def quote_def)

lemma object_reads:
  assumes "list_all2 (\<lambda>s t. value_reads v (Suc d) s t \<and> opens s \<and> name t \<noteq> None \<and> pred_option c_string (name t)) ss ts"
    and "length ts \<le> rounds" and "d < limit"
    and t: "t = Item cJSON_Object False False None 0 (Fin 0) nm ts"
  shows "value_reads (parse_object rounds limit v) d
    (''{'' @ newline fmt @ member_texts fmt k (zip (map name ts) ss) @ indent fmt j @ ''}'') t"
    (is "value_reads _ d ?text t")
proof (unfold value_reads_def, intro allI impI, elim conjE)
  fix item b c r
  assume r: "rest b = ?text @ c # r" and "\<not> number_char c"
    and b: "hooks b = []" "depth b = d" and item: "blank_item (name t) item"
  let ?b = "b\<lparr>depth := Suc d\<rparr>" and ?kv = "zip (map name ts) ss"
  have r0: "rest b = CHR ''{'' # newline fmt @ member_texts fmt k ?kv @ indent fmt j @ CHR ''}'' # c # r"
    using r by simp
  then have "looking_at (CHR ''{'') ?b" by (simp add: looking_at_rest)
  then have pa: "parse_object rounds limit v item b =
      bracketed cJSON_Object (CHR ''}'') item (parse_members rounds v []) ?b"
    using assms(3) b by (simp add: parse_object_def run enter_def)
  have st: "set_kind cJSON_Object (set_child ts item) = t" using item t by (auto simp: blank_item_def)
  show "parse_object rounds limit v item b = Inr (Some t, fwd (length ?text) b)"
  proof (cases ts)
    case Nil
    then have "rest b = CHR ''{'' # (newline fmt @ indent fmt j) @ CHR ''}'' # c # r" using r0 by simp
    from bracketed_empty [OF this _ _ b(2)] show ?thesis using st Nil pa by simp
  next
    case (Cons t' ts')
    then have kv: "?kv \<noteq> []" using assms(1) by (auto simp: list_all2_Cons2)
    let ?ws = "newline fmt @ indent fmt k" and ?s = "bodies fmt k ?kv @ indent fmt j"
    have r1: "rest b = CHR ''{'' # ?ws @ ?s @ CHR ''}'' # c # r"
      using r0 by (simp add: member_texts_bodies [OF kv])
    have o: "opens ?s" "hd ?s \<noteq> CHR ''}''"
      using bodies_quote [OF kv, of fmt k] by (auto simp: opens_def)
    have "rest (fwd (length ?ws) ?b) = last (CHR ''{'' # ?ws) # [] @ bodies fmt k ?kv @ indent fmt j @ CHR ''}'' # c # r"
      using drop_to_last [of ?ws "CHR ''{''" "?s @ CHR ''}'' # c # r"] r1 by simp
    from members_read [OF assms(1) _ assms(2) this]
    have "parse_members rounds v [] (fwd (length ?ws) ?b) =
        Inr (Some ts, fwd (Suc (length ?s)) (fwd (length ?ws) ?b))"
      using Cons b by simp
    from bracketed_items [where ws = ?ws and items = "parse_members rounds v []", OF r1 _ o b(2) this]
    show ?thesis using st pa by (simp add: member_texts_bodies [OF kv] add_ac)
  qed
qed

subsection \<open>All values\<close>

lemma number_text_read:
  assumes "rest b = show_int i @ c # r" and "\<not> number_char c" and "is_int i"
  shows "number_c_string b = show_int i"
proof -
  have "\<And>x. x \<in> set (show_int i) \<Longrightarrow> number_char x"
    by (auto simp: show_int_def number_char_def dest: show_nat_digits split: if_splits)
  then have "takeWhile number_char (rest b) = show_int i"
    using assms(1, 2) by (simp add: takeWhile_append2)
  then show ?thesis
    using length_show_int [OF assms(3)]
    by (simp add: number_c_string_def takeWhile_take rest_def)
qed

lemma show_int_first: "\<exists>x w. show_int i = x # w \<and> (x = CHR ''-'' \<or> is_digit x)"
  using hd_show_nat [of "nat i"] hd_show_nat [of "nat (- i)"] by (auto simp: show_int_def)

lemma number_reads:
  assumes "is_int i" and "t = Item cJSON_Number False False None i (Fin (of_int i)) nm []"
  shows "value_reads (parse_value (Suc fuel) limit) d (show_int i) t \<and> opens (show_int i)"
proof -
  obtain x w where x: "show_int i = x # w" "x = CHR ''-'' \<or> is_digit x" using show_int_first by blast
  have "opens (show_int i)" using x by (auto simp: opens_def is_digit_def byte_def)
  moreover have "parse_value (Suc fuel) limit item b = Inr (Some t, fwd (length (show_int i)) b)"
    if r: "rest b = show_int i @ c # r" "\<not> number_char c" "blank_item nm item" for item b c r
  proof -
    have "rest b = x # (w @ c # r)" using r x by simp
    then have v: "parse_value (Suc fuel) limit item b = parse_number item b"
      using x(2) rest_Cons [of b x]
      by (auto simp: run starts_with_rest looking_at_rest can_access_rest is_digit_def byte_def)
    have "\<bar>i\<bar> < 2 ^ 53" using assms(1) by (auto simp: int_bounds)
    from strtod_show_int [OF this] show ?thesis unfolding v
      using number_text_read [OF r(1, 2) assms(1)] saturate_of_int [OF assms(1)] r(3) assms(2)
      by (auto simp: parse_number_def run blank_item_def x(1) simp del: saturate.simps)
  qed
  ultimately show ?thesis using assms(2) by (simp add: value_reads_def)
qed

lemma string_reads:
  assumes "c_string s" and "t = Item cJSON_String False False (Some s) 0 (Fin 0) nm []"
  shows "value_reads (parse_value (Suc fuel) limit) d (quote (Some s)) t \<and> opens (quote (Some s))"
proof -
  have "parse_value (Suc fuel) limit item b = Inr (Some t, fwd (length (quote (Some s))) b)"
    if r: "rest b = quote (Some s) @ c # r" "hooks b = []" "blank_item nm item" for item b c r
  proof -
    obtain w where "rest b = CHR 0x22 # w" using r(1) by (simp add: quote_def)
    then have "parse_value (Suc fuel) limit item b = parse_string item b"
      by (simp add: run starts_with_rest looking_at_rest)
    then show ?thesis
      using parse_string_quote [OF r(1, 2) assms(1)] r(3) assms(2) by (auto simp: blank_item_def)
  qed
  then show ?thesis using assms(2) by (simp add: value_reads_def opens_quote)
qed

lemma literal_reads:
  assumes "k \<in> {cJSON_NULL, cJSON_False, cJSON_True}"
    and "t = Item k False False None (if k = cJSON_True then 1 else 0) (Fin 0) nm []"
    and "s = (if k = cJSON_NULL then ''null'' else if k = cJSON_False then ''false'' else ''true'')"
  shows "value_reads (parse_value (Suc fuel) limit) d s t \<and> opens s"
proof -
  have "parse_value (Suc fuel) limit item b = Inr (Some t, fwd (length s) b)"
    if "rest b = s @ c # r" "blank_item nm item" for item b c r
    using that assms by (auto simp: run starts_with_rest blank_item_def)
  then show ?thesis using assms by (auto simp: value_reads_def opens_def byte_def)
qed

lemma bracket_dispatch:
  "rest b = CHR ''['' # r \<Longrightarrow>
   parse_value (Suc fuel) limit item b = parse_array fuel limit (parse_value fuel limit) item b"
  "rest b = CHR ''{'' # r \<Longrightarrow>
   parse_value (Suc fuel) limit item b = parse_object fuel limit (parse_value fuel limit) item b"
  by (auto simp: run starts_with_rest looking_at_rest can_access_rest is_digit_def byte_def dest: rest_Cons)

lemma value_reads_dispatch:
  assumes "value_reads v d s t" and "s = x # s'"
    and "\<And>b item r. rest b = x # r \<Longrightarrow> w item b = v item b"
  shows "value_reads w d s t"
  using assms by (fastforce simp: value_reads_def)

lemma element_texts_length:
  "s \<in> set ss \<Longrightarrow> length s \<le> length (element_texts fmt ss)"
  "\<forall>s \<in> set ss. 0 < length s \<Longrightarrow> length ss \<le> length (element_texts fmt ss)"
  by (induction fmt ss rule: element_texts.induct) (auto simp: Suc_le_eq simp del: length_greater_0_conv)

lemma member_texts_length:
  "m \<in> set ms \<Longrightarrow> length (snd m) \<le> length (member_texts fmt d ms)"
  "length ms \<le> length (member_texts fmt d ms)"
  by (induction fmt d ms rule: member_texts.induct) (auto simp: member_text_def quote_def)

lemma nesting_child:
  "c \<in> set ch \<Longrightarrow> nesting c \<le> foldr max (map nesting ch) 0"
  by (induction ch) auto

declare parse_value.simps [simp del]

lemma those_list_all2: "those (map f xs) = Some ys \<Longrightarrow> list_all2 (\<lambda>y x. f x = Some y) ys xs"
  by (induction xs arbitrary: ys) (auto split: option.splits)

lemma value_read:
  assumes "plain t" and "render fmt k t = Some s" and "length s \<le> Suc fuel" and "d + nesting t \<le> limit"
  shows "value_reads (parse_value (Suc fuel) limit) d s t \<and> opens s"
  using assms
proof (induction t arbitrary: k s fuel d)
  case (Item kd r c vs vi vd n ch)
  note pl = Item.prems(1)
  have rc: "\<not> r" "\<not> c" using pl by simp_all
  have render: "render fmt k (Item kd r c vs vi vd n ch) = Some s" by (fact Item.prems(2))
  have sub: "value_reads (parse_value (Suc f) limit) (Suc d) u x \<and> opens u"
    if "x \<in> set ch" "render fmt (k + 1) x = Some u" "length u \<le> Suc f" "kd = cJSON_Array \<or> kd = cJSON_Object" for x u f
  proof -
    have "nesting x \<le> foldr max (map nesting ch) 0" using that(1) by (rule nesting_child)
    then show ?thesis using Item.IH [of x "k + 1" u f "Suc d"] that Item.prems(1, 4) by auto
  qed
  have nz: "0 < length u" if "x \<in> set ch" "render fmt (k + 1) x = Some u" "kd = cJSON_Array \<or> kd = cJSON_Object" for x u
    using sub [of x u "length u"] that by (auto simp: opens_def)
  show ?case
  proof (cases kd)
    case cJSON_Number
    then have "s = show_int vi" "is_int vi" "vd = Fin (of_int vi)" "vs = None" "ch = []"
      using render pl by (subst (asm) render.simps, simp add: number_text_int)+
    then show ?thesis using number_reads [of vi _ n fuel limit d] cJSON_Number rc by simp
  next
    case cJSON_String
    then obtain u where u: "vs = Some u" "c_string u" "s = quote (Some u)" "vi = 0" "vd = Fin 0" "ch = []"
      using render pl by (subst (asm) render.simps) auto
    then show ?thesis using string_reads [of u _ n fuel limit d] cJSON_String rc by simp
  next
    case cJSON_Array
    then obtain ss where ss: "those (map (render fmt (k + 1)) ch) = Some ss"
      "s = ''['' @ element_texts fmt ss @ '']''"
      using render by (subst (asm) render.simps) auto
    have t: "Item kd r c vs vi vd n ch = Item cJSON_Array False False None 0 (Fin 0) n ch"
      using pl cJSON_Array by auto
    obtain f where f: "fuel = Suc f" "length (element_texts fmt ss) \<le> f"
      using Item.prems(3) ss(2) by (cases fuel) auto
    note l2 = those_list_all2 [OF ss(1)]
    have "list_all2 (\<lambda>u x. value_reads (parse_value (Suc f) limit) (Suc d) u x \<and> opens u \<and> name x = None) ss ch"
    proof (rule list.rel_mono_strong [OF l2])
      fix u x assume u: "u \<in> set ss" "x \<in> set ch" "render fmt (k + 1) x = Some u"
      then have "length u \<le> Suc f" using element_texts_length(1) [OF u(1), of fmt] f(2) by simp
      then show "value_reads (parse_value (Suc f) limit) (Suc d) u x \<and> opens u \<and> name x = None"
        using sub [OF u(2, 3)] u(2) pl cJSON_Array by simp
    qed
    moreover have "0 < length u" if u: "u \<in> set ss" for u
    proof -
      obtain i where i: "i < length ss" "u = ss ! i" using u by (auto simp: in_set_conv_nth)
      then have "ch ! i \<in> set ch" "render fmt (k + 1) (ch ! i) = Some u"
        using list_all2_nthD [OF l2] list_all2_lengthD [OF l2] by auto
      then show ?thesis using nz cJSON_Array by blast
    qed
    then have "length ch \<le> fuel"
      using element_texts_length(2) [of ss fmt] f list_all2_lengthD [OF l2] by simp
    moreover have "d < limit" using Item.prems(4) cJSON_Array by simp
    ultimately have "value_reads (parse_array fuel limit (parse_value fuel limit)) d s (Item kd r c vs vi vd n ch)"
      unfolding ss(2) f(1) by (rule array_reads) (rule t)
    then show ?thesis
      using value_reads_dispatch [of _ d s _ "CHR ''[''"] bracket_dispatch(1) ss(2)
      by (auto simp: opens_def byte_def)
  next
    case cJSON_Object
    then obtain ss where ss: "those (map (render fmt (k + 1)) ch) = Some ss"
      "s = ''{'' @ newline fmt @ member_texts fmt (k + 1) (zip (map name ch) ss) @ indent fmt k @ ''}''"
      using render by (subst (asm) render.simps) auto
    have t: "Item kd r c vs vi vd n ch = Item cJSON_Object False False None 0 (Fin 0) n ch"
      using pl cJSON_Object by auto
    note l2 = those_list_all2 [OF ss(1)]
    let ?kv = "zip (map name ch) ss"
    obtain f where f: "fuel = Suc f" "length (member_texts fmt (k + 1) ?kv) \<le> f"
      using Item.prems(3) ss(2) by (cases fuel) auto
    have "list_all2 (\<lambda>u x. value_reads (parse_value (Suc f) limit) (Suc d) u x \<and> opens u \<and>
        name x \<noteq> None \<and> pred_option c_string (name x)) ss ch"
    proof (rule list.rel_mono_strong [OF l2])
      fix u x assume u: "u \<in> set ss" "x \<in> set ch" "render fmt (k + 1) x = Some u"
      have "length (map name ch) = length ss" using list_all2_lengthD [OF l2] by simp
      from in_set_impl_in_set_zip2 [OF this u(1)] obtain n where "(n, u) \<in> set ?kv" by blast
      from member_texts_length(1) [OF this, of fmt "k + 1"] have "length u \<le> Suc f" using f(2) by simp
      then show "value_reads (parse_value (Suc f) limit) (Suc d) u x \<and> opens u \<and>
          name x \<noteq> None \<and> pred_option c_string (name x)"
        using sub [OF u(2, 3)] u(2) pl cJSON_Object by simp
    qed
    moreover have "length ch \<le> fuel"
      using member_texts_length(2) [of ?kv fmt "k + 1"] list_all2_lengthD [OF l2] f by simp
    moreover have "d < limit" using Item.prems(4) cJSON_Object by simp
    ultimately have "value_reads (parse_object fuel limit (parse_value fuel limit)) d s (Item kd r c vs vi vd n ch)"
      unfolding ss(2) f(1) by (rule object_reads) (rule t)
    then show ?thesis
      using value_reads_dispatch [of _ d s _ "CHR ''{''"] bracket_dispatch(2) ss(2)
      by (auto simp: opens_def byte_def)
  qed (use literal_reads [of kd _ n _ fuel limit d] pl render in \<open>subst (asm) render.simps, auto\<close>)+
qed

subsection \<open>The items the program builds\<close>

lemma plain_json [simp]:
  "plain (json_object ch) \<longleftrightarrow> (\<forall>it \<in> set ch. name it \<noteq> None \<and> pred_option c_string (name it) \<and> plain it)"
  "plain (json_string s) \<longleftrightarrow> c_string s" "plain (json_int i) \<longleftrightarrow> is_int i"
  by (auto simp: json_object_def json_string_def json_int_def)

lemma name_json [simp]:
  "name (json_object ch) = None" "name (json_string s) = None" "name (json_int i) = None"
  by (simp_all add: json_object_def json_string_def json_int_def)

lemma plain_member [simp]: "plain it \<Longrightarrow> plain (member n it)"
  by (cases it) (simp add: member_def del: set_name_json)

lemma nesting_json [simp]:
  "nesting (json_string s) = 0" "nesting (json_int i) = 0" "nesting (member n it) = nesting it"
  "nesting (json_object ch) = Suc (foldr max (map nesting ch) 0)"
  by (simp_all add: json_string_def json_int_def json_object_def) (cases it; simp add: member_def del: set_name_json)

section \<open>Whole texts\<close>

text \<open>The parser stops behind the first value: what follows it is not looked at, as long as it
  does not go on with a number.\<close>

lemma parse_rendered_prefix:
  assumes "plain t" and "name t = None" and "render fmt k t = Some s" and "nesting t \<le> limit"
    and "r = [] \<or> \<not> number_char (hd r)"
  shows "cJSON_Parse limit (s @ r) [] = Inr (Some t, [])"
proof -
  let ?b = "\<lparr>content = s @ r @ [NUL], offset = 0, depth = 0, hooks = []\<rparr>"
  have v: "value_reads (parse_value (Suc (length (s @ r))) limit) 0 s t" "opens s"
    using value_read [OF assms(1, 3), of "length (s @ r)" 0 limit] assms(4) by simp_all
  obtain x r' where x: "r @ [NUL] = x # r'" "\<not> number_char x" using assms(5) by (cases r) auto
  then have r: "rest ?b = s @ x # r'" by (simp add: rest_def)
  obtain c s' where c: "s = c # s'" "32 < byte c" "byte c < 128" using v(2) by (rule opensE)
  then have bom: "skip_utf8_bom ?b = Inr ((), ?b)" by (auto simp: skip_utf8_bom_def run byte_def)
  have ws: "buffer_skip_whitespace ?b = Inr ((), ?b)"
    by (rule skip_none [of _ c "s' @ r @ [NUL]"]) (use c in \<open>simp_all add: rest_def\<close>)
  have "parse_value (Suc (length (s @ r))) limit empty_item ?b = Inr (Some t, fwd (length s) ?b)"
    by (rule value_readsD [OF v(1) r x(2)]) (simp_all add: assms(2) blank_empty_item)
  then have "parse_root limit False ?b = Inr (Some t, fwd (length s) ?b)"
    using bom ws by (simp add: parse_root_def run pb_alloc_run)
  then show ?thesis
    by (simp add: cJSON_Parse_def run cJSON_ParseWithOpts_def cJSON_ParseWithLengthOpts_def Let_def)
qed

lemma parse_rendered:
  assumes "plain t" and "name t = None" and "render fmt k t = Some s" and "nesting t \<le> limit"
  shows "cJSON_Parse limit s [] = Inr (Some t, [])"
  using parse_rendered_prefix [OF assms, of "[]"] by simp

lemma plain_printable: "plain t \<Longrightarrow> pred_option c_string (name t) \<Longrightarrow> printable t"
proof (induction t)
  case (Item k r c vs vi vd n ch)
  have "printable x" if "x \<in> set ch" for x
    using Item.prems by (intro Item.IH [OF that]) (use that in auto)
  moreover have "number_text vd vi = show_int vi \<and> is_int vi" if "k = cJSON_Number"
    using Item.prems that by (simp add: number_text_int)
  ultimately show ?case
    using Item.prems length_show_int [of vi] by auto
qed

lemma plain_renders: "plain t \<Longrightarrow> \<exists>s. render fmt k t = Some s"
proof (induction t arbitrary: k)
  case (Item kd r c vs vi vd n ch)
  have "\<exists>ss. those (map (render fmt (k + 1)) xs) = Some ss" if "set xs \<subseteq> set ch" for xs
    using that
  proof (induction xs)
    case (Cons x xs)
    then have "\<exists>s. render fmt (k + 1) x = Some s" using Item.IH [of x "k + 1"] Item.prems by auto
    then show ?case using Cons by auto
  qed simp
  from this [of ch] show ?case
    by (subst render.simps, cases kd; use Item.prems in auto)
qed

text \<open>
  C30: what \<open>cJSON_Print\<close> prints of an item made of literals, \<open>int\<close> numbers, C strings, arrays
  and objects, \<open>cJSON_Parse\<close> reads back as that item: every member and element, names and
  strings byte for byte, whatever characters had to be escaped, up to the nesting limit.
\<close>

theorem print_then_parse:
  assumes "plain t" and "name t = None" and "nesting t \<le> limit"
    and "int (length (the (render True 0 t))) + 2 \<le> INT_MAX"
  shows "\<exists>s. cJSON_Print (Some t) [] = Inr (Some s, []) \<and> cJSON_Parse limit s [] = Inr (Some t, [])"
proof -
  obtain s where s: "render True 0 t = Some s" using plain_renders [OF assms(1)] by blast
  have "cJSON_Print (Some t) [] = Inr (Some s, [])"
    by (rule cJSON_Print_Nil [OF plain_printable s]) (use assms s in simp_all)
  then show ?thesis using parse_rendered [OF assms(1, 2) s assms(3)] by blast
qed

definition sample_item :: cJSON where
  "sample_item = json_object [member ''hostname'' (json_string [CHR 0x0A, CHR 0x01, CHR 0x22, CHR 0xE9]),
     member ''list'' (json_array [json_int (- 5), json_object []])]"

theorem print_then_parse_witness:
  "\<exists>s. cJSON_Print (Some sample_item) [] = Inr (Some s, []) \<and>
    cJSON_Parse 3 s [] = Inr (Some sample_item, [])"
proof (rule print_then_parse)
  show "plain sample_item" by (simp add: sample_item_def json_object_def json_string_def
      json_array_def json_int_def member_def int_bounds)
  show "name sample_item = None" by (simp add: sample_item_def json_object_def)
  show "nesting sample_item \<le> 3" by (simp add: sample_item_def json_object_def json_string_def
      json_array_def json_int_def member_def)
  show "int (length (the (render True 0 sample_item))) + 2 \<le> INT_MAX"
    by code_simp
qed

section \<open>Rendered texts are C strings\<close>

lemma c_string_element_texts: "\<forall>s \<in> set ss. c_string s \<Longrightarrow> c_string (element_texts fmt ss)"
  by (induction fmt ss rule: element_texts.induct) simp_all

lemma c_string_member_texts:
  "\<forall>(k, s) \<in> set ms. pred_option c_string k \<and> c_string s \<Longrightarrow> c_string (member_texts fmt d ms)"
  by (induction fmt d ms rule: member_texts.induct) (auto simp: member_text_def c_string_quote)

lemma those_elem: "those (map f xs) = Some ys \<Longrightarrow> y \<in> set ys \<Longrightarrow> \<exists>x \<in> set xs. f x = Some y"
  by (induction xs arbitrary: ys) (auto split: option.splits)

lemma c_string_render: "printable t \<Longrightarrow> render fmt k t = Some s \<Longrightarrow> c_string s"
proof (induction t arbitrary: k s)
  case (Item kd r c vs vi vd n ch)
  have sub: "c_string u" if "those (map (render fmt (k + 1)) ch) = Some ss" "u \<in> set ss" for ss u
    using those_elem [OF that] Item.IH Item.prems(1) by auto
  have "pred_option c_string vs" "kd = cJSON_Number \<Longrightarrow> c_string (number_text vd vi)"
    using Item.prems(1) by simp_all
  moreover have "c_string (member_texts fmt d (zip (map name ch) ss))"
    if "those (map (render fmt (k + 1)) ch) = Some ss" for ss d
  proof (rule c_string_member_texts, clarify)
    fix a u assume z: "(a, u) \<in> set (zip (map name ch) ss)"
    have "pred_option c_string a"
      using set_zip_leftD [OF z] Item.prems(1) printable_sel(3) by auto
    then show "pred_option c_string a \<and> c_string u" using sub [OF that set_zip_rightD [OF z]] by simp
  qed
  ultimately show ?case
    using Item.prems(2) sub c_string_element_texts [of _ fmt]
    by (subst (asm) render.simps) (cases kd; auto simp: c_string_quote)
qed

end
