(* ===== verification/Samples.thy ===== *)
theory Samples
  imports WorldFacts RoundTrip
begin

text \<open>
  Messages of clients, as bytes and as the items they parse to, and worlds in which one
  client sends one. The theorems about requests are applied to them.
\<close>

definition status_bytes :: string where
  "status_bytes = ''{\"message\":\"status\"}''"

definition summary_bytes :: string where
  "summary_bytes = ''{\"message\":\"summary\"}''"

definition update_bytes :: string where
  "update_bytes = ''{\"message\":\"update\",\"hostname\":\"ubuntu\",\"food\":{\"water\":12}}''"

definition guest_bytes :: string where
  "guest_bytes = ''{\"message\":\"authenticateme\",\"hostname\":\"guest\"}''"

definition number_bytes :: string where
  "number_bytes = ''{\"message\":5}''"

definition outage_bytes :: string where
  "outage_bytes = ''outage''"

definition status_json :: cJSON where
  "status_json = json_object [member ''message'' (json_string ''status'')]"

definition summary_request_json :: cJSON where
  "summary_request_json = json_object [member ''message'' (json_string ''summary'')]"

definition update_json :: cJSON where
  "update_json = json_object [member ''message'' (json_string ''update''),
     member ''hostname'' (json_string ''ubuntu''),
     member ''food'' (json_object [member ''water'' (json_int 12)])]"

definition guest_json :: cJSON where
  "guest_json = json_object [member ''message'' (json_string ''authenticateme''),
     member ''hostname'' (json_string ''guest'')]"

definition number_json :: cJSON where
  "number_json = json_object [member ''message'' (json_int 5)]"

lemmas sample_items = status_json_def summary_request_json_def update_json_def guest_json_def
  number_json_def

text \<open>The bytes are the unformatted texts of the items.\<close>

lemma parse_sample:
  "plain t \<Longrightarrow> name t = None \<Longrightarrow> nesting t \<le> 1000 \<Longrightarrow> render False 0 t = Some s \<Longrightarrow>
   cJSON_Parse 1000 s [] = Inr (Some t, [])"
  by (rule parse_rendered)

lemma show_int_5: "show_int 5 = ''5''"
  by code_simp

lemma show_int_12: "show_int 12 = ''12''"
  by code_simp

lemmas rendered = render_json_object render_json quote_def escape_char_def byte_def newline_def indent_def
  member_text_def colon_def status_bytes_def summary_bytes_def update_bytes_def guest_bytes_def
  number_bytes_def show_int_5 show_int_12

lemma parse_status: "cJSON_Parse 1000 status_bytes [] = Inr (Some status_json, [])"
  by (rule parse_sample) (simp_all add: sample_items rendered int_bounds)

lemma parse_summary: "cJSON_Parse 1000 summary_bytes [] = Inr (Some summary_request_json, [])"
  by (rule parse_sample) (simp_all add: sample_items rendered int_bounds)

lemma parse_update: "cJSON_Parse 1000 update_bytes [] = Inr (Some update_json, [])"
  by (rule parse_sample) (simp_all add: sample_items rendered int_bounds)

lemma parse_guest: "cJSON_Parse 1000 guest_bytes [] = Inr (Some guest_json, [])"
  by (rule parse_sample) (simp_all add: sample_items rendered int_bounds)

lemma parse_number: "cJSON_Parse 1000 number_bytes [] = Inr (Some number_json, [])"
  by (rule parse_sample) (simp_all add: sample_items rendered int_bounds)

lemma parse_outage: "cJSON_Parse 1000 outage_bytes [] = Inr (None, [])"
  by code_simp

lemmas sample_parses = parse_status parse_summary parse_update parse_guest parse_number parse_outage

lemma sample_bytes:
  assumes "b \<in> {status_bytes, summary_bytes, update_bytes, guest_bytes, number_bytes, outage_bytes}"
  shows "c_string b" "b \<noteq> []" "length b < 100"
  using assms by (auto simp: status_bytes_def summary_bytes_def update_bytes_def guest_bytes_def
      number_bytes_def outage_bytes_def)

lemma sample_text_fields:
  "j \<in> {status_json, summary_request_json, update_json, guest_json} \<Longrightarrow> text_fields j"
  by (auto simp: text_fields_def sample_items get_object_item_insensitive case_insensitive_strcmp_def
      tolower_def byte_def split: if_splits)

text \<open>A client that sends these bytes, on TCP or in a datagram.\<close>

definition saying :: "string \<Rightarrow> os" where
  "saying bytes = quiet_os\<lparr>incoming := (\<lambda>_. Some bytes)\<rparr>"

definition mailing :: "string \<Rightarrow> os" where
  "mailing bytes =
     quiet_os\<lparr>datagram := Some (bytes, Sockaddr_in6 6000 [0, 0, 0, 0] (replicate 15 0 @ [1]), 28)\<rparr>"

lemma quiet_text_message:
  assumes "b \<in> {status_bytes, summary_bytes, update_bytes, guest_bytes, outage_bytes}"
  shows "text_message (nesting_limit quiet_os) b" "text_message (nesting_limit quiet_os) (take (BUFFER_SIZE - 1) b)"
proof -
  have "upto_nul b = b" "take (BUFFER_SIZE - 1) b = b"
    using sample_bytes [of b] assms by (auto simp: upto_nul_id BUFFER_SIZE_def)
  moreover have "case cJSON_Parse 1000 b [] of Inr (Some json, _) \<Rightarrow> text_fields json | _ \<Rightarrow> True"
    using assms by (elim insertE emptyE) (simp_all add: sample_parses sample_text_fields)
  moreover have "nesting_limit quiet_os = 1000" by (simp add: quiet_os_def)
  ultimately show "text_message (nesting_limit quiet_os) b"
    "text_message (nesting_limit quiet_os) (take (BUFFER_SIZE - 1) b)"
    by (simp_all only: text_message_def)
qed

lemma benign_incoming:
  "benign os \<Longrightarrow> length b < BUFFER_SIZE \<Longrightarrow> text_message (nesting_limit os) b \<Longrightarrow>
   benign (os\<lparr>incoming := (\<lambda>_. Some b)\<rparr>)"
  by (simp add: benign_def)

lemma benign_datagram:
  "benign os \<Longrightarrow> internet a \<Longrightarrow> text_message (nesting_limit os) (take (BUFFER_SIZE - 1) b) \<Longrightarrow>
   benign (os\<lparr>datagram := Some (b, a, len)\<rparr>)"
  by (simp add: benign_def)

lemma sample_benign:
  assumes "b \<in> {status_bytes, summary_bytes, update_bytes, guest_bytes, outage_bytes}"
  shows "benign (saying b)" "benign (mailing b)"
proof -
  have "b \<in> {status_bytes, summary_bytes, update_bytes, guest_bytes, number_bytes, outage_bytes}"
    using assms by auto
  from sample_bytes(3) [OF this] have "length b < BUFFER_SIZE" by (simp add: BUFFER_SIZE_def)
  then show "benign (saying b)" "benign (mailing b)"
    unfolding saying_def mailing_def
    using quiet_text_message [OF assms]
    by (auto intro: benign_incoming benign_datagram)
qed

lemma sample_fields [simp]:
  "nesting_limit (saying b) = 1000" "incoming (saying b) fd = Some b" "nesting_limit (mailing b) = 1000"
  "datagram (mailing b) = Some (b, Sockaddr_in6 6000 [0, 0, 0, 0] (replicate 15 0 @ [1]), 28)"
  by (simp_all add: saying_def mailing_def quiet_os_def)

end
