(* ===== verification/ServerProps.thy ===== *)
theory ServerProps
  imports ServerSteps Samples
begin

text \<open>
  What a client can rely on: the effect of each request on the server and what is sent in
  answer, the effect of alerts, notifications, connections and disconnections, and the inputs
  the handlers do not survive.
\<close>

section \<open>Requests over TCP\<close>

text \<open>The string member \<open>key\<close> of a message.\<close>

definition text_member :: "cJSON \<Rightarrow> string \<Rightarrow> string option" where
  "text_member json key =
     (case cJSON_GetObjectItem (Some json) key of None \<Rightarrow> None | Some it \<Rightarrow> valuestring it)"

lemma text_memberD:
  assumes "text_member json key = Some v"
  obtains it where "cJSON_GetObjectItem (Some json) key = Some it" "valuestring it = Some v"
  using assms by (auto simp: text_member_def split: option.splits)

lemma check_tcp_request:
  assumes "server_ok s" and "benign os" and "received os fd = Some json"
    and "text_member json ''message'' = Some m" and "m \<noteq> ''authenticateme''"
  shows "check_tcp_clients_messages os fd s =
    (case tcp_request os fd json m s of Inl e \<Rightarrow> Inl e | Inr (_, s') \<Rightarrow> Inr (True, s'))"
  using assms receive_tcp_json_run [of os s fd]
  by (auto simp: check_tcp_clients_messages_def run server_ok_heap elim!: text_memberD
      split: sum.splits)

lemma segment_pointers:
  assumes "server_ok s" and "benign os"
    and "segments s = \<lparr>food_segment = Some f, medicine_segment = Some d\<rparr>"
  shows "supply_pointers os s = (Some f, Some d)" "food_ok f" "medicine_ok d"
  using assms supply_pointers_ok [OF assms(1,2)] by (auto elim!: supply_pointers_ok)

section \<open>A server that has just started\<close>

definition idle :: server where
  "idle = started quiet_os four_sockets initial_server"

lemma idle_ok [simp]: "server_ok idle"
  by (simp add: idle_def started_ok)

lemma idle_fields [simp]:
  "segments idle = \<lparr>food_segment = Some no_food, medicine_segment = Some no_medicine\<rparr>"
  "connected (tcp_clients idle) = []" "outputs idle = []" "heap idle = []"
  "entry_alerts_count idle = \<lparr>north = 0, south = 0, east = 0, west = 0\<rparr>"
  by (simp_all add: idle_def started_def initial_server_def)

lemma received_saying:
  assumes "b \<in> {status_bytes, summary_bytes, update_bytes, guest_bytes, number_bytes, outage_bytes}"
  shows "received (saying b) fd = (case cJSON_Parse 1000 b [] of Inr (r, _) \<Rightarrow> r | Inl _ \<Rightarrow> None)"
  using sample_bytes [OF assms] by (simp add: received_def upto_nul_id)

lemma sample_members [simp]:
  "text_member status_json ''message'' = Some ''status''"
  "text_member summary_request_json ''message'' = Some ''summary''"
  "text_member update_json ''message'' = Some ''update''"
  "text_member update_json ''hostname'' = Some ''ubuntu''"
  "text_member guest_json ''message'' = Some ''authenticateme''"
  "text_member guest_json ''hostname'' = Some ''guest''"
  by (simp_all add: text_member_def sample_items get_object_item_insensitive
      case_insensitive_strcmp_def tolower_def byte_def)

lemma sample_update:
  "update_fits (Some update_json) no_food no_medicine"
  "food_after (Some update_json) no_food = no_food\<lparr>water := 12\<rparr>"
  "medicine_after (Some update_json) no_medicine = no_medicine"
  by (simp_all add: update_fits_def requested_def food_after_def medicine_after_def update_json_def
      get_object_item_insensitive case_insensitive_strcmp_def tolower_def byte_def int_bounds
      no_food_def no_medicine_def)

text \<open>
  C3: an update over TCP is applied whoever sends it. The message of any client, authenticated
  or not, adds its amounts to the supplies (or overflows an \<open>int\<close>), is logged and noted as the
  last event; nothing is answered, and registries, descriptors and counters stay as they were.
\<close>

theorem tcp_update_unauthenticated:
  assumes "server_ok s" and "benign os" and "received os fd = Some json"
    and "text_member json ''message'' = Some ''update''"
    and "segments s = \<lparr>food_segment = Some f, medicine_segment = Some d\<rparr>"
  shows "check_tcp_clients_messages os fd s =
    (if update_fits (Some json) f d
     then Inr (True, noted os (tcp_text ''Update request from TCP client '' os fd) s
       \<lparr>segments := \<lparr>food_segment = Some (food_after (Some json) f),
                      medicine_segment = Some (medicine_after (Some json) d)\<rparr>\<rparr>)
     else Inl (Fault Signed_overflow))"
  using check_tcp_request [OF assms(1-4)]
    tcp_update_run [OF assms(1,2) segment_pointers [OF assms(1,2,5)] assms(5)]
  by (simp add: tcp_request_def)

theorem tcp_update_unauthenticated_witness:
  "\<exists>s'. check_tcp_clients_messages (saying update_bytes) 8 idle = Inr (True, s') \<and>
     segments s' = \<lparr>food_segment = Some (no_food\<lparr>water := 12\<rparr>), medicine_segment = Some no_medicine\<rparr>"
  using tcp_update_unauthenticated [of idle "saying update_bytes" 8 update_json no_food no_medicine]
  by (simp add: sample_benign received_saying sample_parses sample_update)

text \<open>
  C11: a status request over TCP is answered with the JSON text of the supplies, and nothing
  but the log and the last event changes.
\<close>

theorem tcp_status_answered:
  assumes "server_ok s" and "benign os" and "received os fd = Some json"
    and "text_member json ''message'' = Some ''status''"
    and "segments s = \<lparr>food_segment = Some f, medicine_segment = Some d\<rparr>"
  shows "\<exists>text. cJSON_Print (Some (supplies_json f d)) [] = Inr (Some text, []) \<and>
    check_tcp_clients_messages os fd s =
      Inr (True, noted os (tcp_text ''Status request from TCP client '' os fd) s
        \<lparr>outputs := outputs s @ [Send fd text]\<rparr>)"
proof -
  note ptr = segment_pointers [OF assms(1,2,5)]
  have "cJSON_Print (Some (supplies_json f d)) [] = Inr (Some (text_of (supplies_json f d)), [])"
    using cJSON_Print_short [OF short_supplies [OF ptr(2,3), of 0]] by simp
  then show ?thesis
    using check_tcp_request [OF assms(1-4)] tcp_status_run [OF assms(1,2) ptr, of fd]
    by (simp add: tcp_request_def)
qed

theorem tcp_status_answered_witness:
  "\<exists>s' answer. check_tcp_clients_messages (saying status_bytes) 8 idle = Inr (True, s') \<and>
     outputs s' = [Send 8 answer]"
  using tcp_status_answered [of idle "saying status_bytes" 8 status_json no_food no_medicine]
  by (auto simp: sample_benign received_saying sample_parses)

text \<open>
  C12: a summary request over TCP is answered with the JSON text of the alert counts, the
  supplies and the last event as they are, and only the log changes.
\<close>

theorem tcp_summary_answered:
  assumes "server_ok s" and "benign os" and "received os fd = Some json"
    and "text_member json ''message'' = Some ''summary''"
    and "segments s = \<lparr>food_segment = Some f, medicine_segment = Some d\<rparr>"
  shows "\<exists>text. cJSON_Print (Some (summary_json (entry_alerts_count s) f d
        (keepalived_text (emergency_info s)) (event_text (emergency_info s)))) [] = Inr (Some text, []) \<and>
    check_tcp_clients_messages os fd s =
      Inr (True, s\<lparr>logs := logs s @ log_lines os (tcp_text ''Summary request from TCP client '' os fd),
                   outputs := outputs s @ [Send fd text]\<rparr>)"
proof -
  note ptr = segment_pointers [OF assms(1,2,5)]
  have "cJSON_Print (Some (current_summary s f d)) [] = Inr (Some (text_of (current_summary s f d)), [])"
    using cJSON_Print_short [OF summary_run(2) [OF assms(1,2) ptr]] by simp
  then show ?thesis
    using check_tcp_request [OF assms(1-4)] tcp_summary_run [OF assms(1,2) ptr, of fd]
    by (simp add: tcp_request_def current_summary_def)
qed

theorem tcp_summary_answered_witness:
  "\<exists>s' answer. check_tcp_clients_messages (saying summary_bytes) 8 idle = Inr (True, s') \<and>
     outputs s' = [Send 8 answer]"
  using tcp_summary_answered [of idle "saying summary_bytes" 8 summary_request_json no_food no_medicine]
  by (auto simp: sample_benign received_saying sample_parses)

lemma tcp_authentication_run:
  assumes "server_ok s" and "benign os" and "received os fd = Some json"
    and "text_member json ''message'' = Some ''authenticateme''"
    and "text_member json ''hostname'' = Some host"
  shows "\<exists>text. cJSON_Print (Some (json_object [member ''message''
        (json_string (if host = ADMIN_USER then ''auth_success'' else ''auth_failure''))])) [] =
        Inr (Some text, []) \<and>
    check_tcp_clients_messages os fd s =
      Inr (host = ADMIN_USER,
        s\<lparr>logs := logs s @ log_lines os (tcp_text
            (if host = ADMIN_USER then ''Update request from authenticated TCP client ''
             else ''Update request from not authenticated TCP client '') os fd),
          outputs := outputs s @ [Send fd text]\<rparr>)"
proof -
  let ?reply = "if host = ADMIN_USER then ''auth_success'' else ''auth_failure''"
  have r: "c_string ?reply" "length ?reply \<le> 20" by simp_all
  have print: "cJSON_Print (Some (json_object [member ''message'' (json_string ?reply)])) [] =
      Inr (Some (text_of (json_object [member ''message'' (json_string ?reply)])), [])"
    using cJSON_Print_short [OF short_message [OF r]] by simp
  obtain m h where "cJSON_GetObjectItem (Some json) ''message'' = Some m"
      "valuestring m = Some ''authenticateme''"
      "cJSON_GetObjectItem (Some json) ''hostname'' = Some h" "valuestring h = Some host"
    using assms(4,5) by (auto elim!: text_memberD)
  then have "check_tcp_clients_messages os fd s =
      Inr (host = ADMIN_USER, s\<lparr>logs := logs s @ log_lines os (tcp_text
            (if host = ADMIN_USER then ''Update request from authenticated TCP client ''
             else ''Update request from not authenticated TCP client '') os fd),
        outputs := outputs s @ [Send fd (text_of (json_object [member ''message'' (json_string ?reply)]))]\<rparr>)"
    using receive_tcp_json_run [OF assms(2), of s fd] server_ok_heap [OF assms(1)] assms(3)
      answer_authentication_run [OF assms(1,2), of "''auth_success''" fd _ True]
      answer_authentication_run [OF assms(1,2), of "''auth_failure''" fd _ False]
    by (auto simp: check_tcp_clients_messages_def run authenticate_def)
  then show ?thesis using print by blast
qed

text \<open>
  C6: authentication. The result is whether the host name in the message is the name of the
  administrator, and the client is told so; the server keeps no record of it: nothing but
  the log and the answer changes.
\<close>

theorem tcp_authentication:
  assumes "server_ok s" and "benign os" and "received os fd = Some json"
    and "text_member json ''message'' = Some ''authenticateme''"
    and "text_member json ''hostname'' = Some host"
  shows "\<exists>text. cJSON_Print (Some (json_object [member ''message''
        (json_string (if host = ADMIN_USER then ''auth_success'' else ''auth_failure''))])) [] =
        Inr (Some text, []) \<and>
    check_tcp_clients_messages os fd s =
      Inr (host = ADMIN_USER,
        s\<lparr>logs := logs s @ log_lines os (tcp_text
            (if host = ADMIN_USER then ''Update request from authenticated TCP client ''
             else ''Update request from not authenticated TCP client '') os fd),
          outputs := outputs s @ [Send fd text]\<rparr>)"
  using assms by (rule tcp_authentication_run)

theorem tcp_authentication_witness:
  "\<exists>s'. check_tcp_clients_messages (saying guest_bytes) 8 idle = Inr (False, s')"
  using tcp_authentication [of idle "saying guest_bytes" 8 guest_json "''guest''"]
  by (auto simp: sample_benign received_saying sample_parses ADMIN_USER_def)

section \<open>Connections and disconnections\<close>

lemma remove_tcp_client_run:
  assumes "benign os" and "tcp_inv (tcp_clients s)"
  shows "\<exists>l ls. remove_tcp_client os fd s = Inr ((), s\<lparr>tcp_clients := l, logs := logs s @ ls\<rparr>) \<and>
    connected l = remove1 fd (connected (tcp_clients s))"
proof -
  obtain r l where r: "tcp_remove fd (tcp_clients s) = Inr (r, l)"
    and l: "connected l = remove1 fd (connected (tcp_clients s))"
    using tcp_remove_ok [OF assms(2), of fd] by (auto simp: wp_def split: sum.splits)
  let ?ls = "if r then log_lines os (snprintf BUFFER_256
      (''TCP client disconnected. Total connected: '' @ snprintf 10 (show_int (int (num_clients l))))) else []"
  have "remove_tcp_client os fd s = Inr ((), s\<lparr>tcp_clients := l, logs := logs s @ ?ls\<rparr>)"
    using r assms(1) by (simp add: remove_tcp_client_def on_tcp_def log_total_def log_message_run benignD run)
  then show ?thesis using l by blast
qed

text \<open>
  C13: when the client's connection ends, or it sends something that is no JSON text, its
  descriptor is closed, is watched no longer, and its first entry is taken out of the registry;
  the other clients, the supplies and the counters stay as they were.
\<close>

theorem tcp_client_dropped:
  assumes "server_ok s" and "benign os" and "0 \<le> fd" and "fd < FD_SETSIZE"
    and "received os fd = None"
  shows "\<exists>l ls. handle_tcp_socket_activity os fd s =
      Inr ((), s\<lparr>outputs := outputs s @ [Close fd], master_fds := master_fds s - {fd},
                 tcp_clients := l, logs := logs s @ ls\<rparr>) \<and>
    connected l = remove1 fd (connected (tcp_clients s))"
proof -
  have drop: "\<exists>l ls. drop_client os fd t =
      Inr ((), t\<lparr>outputs := outputs t @ [Close fd], master_fds := master_fds t - {fd},
                 tcp_clients := l, logs := logs t @ ls\<rparr>) \<and>
    connected l = remove1 fd (connected (tcp_clients t))" if "tcp_inv (tcp_clients t)" for t
  proof -
    let ?t = "t\<lparr>outputs := outputs t @ [Close fd], master_fds := master_fds t - {fd}\<rparr>"
    obtain l ls where "remove_tcp_client os fd ?t = Inr ((), ?t\<lparr>tcp_clients := l, logs := logs t @ ls\<rparr>)"
        "connected l = remove1 fd (connected (tcp_clients t))"
      using remove_tcp_client_run [OF assms(2), of ?t fd] \<open>tcp_inv (tcp_clients t)\<close> by auto
    then have "drop_client os fd t = Inr ((), ?t\<lparr>tcp_clients := l, logs := logs t @ ls\<rparr>)"
      using assms(3,4) by (simp add: drop_client_def run emit_def fd_set_remove_def)
    then show ?thesis using \<open>connected l = _\<close> by blast
  qed
  show ?thesis
  proof (cases "getpeername os fd")
    case None
    then show ?thesis using drop [OF server_okD(1) [OF assms(1)]]
      by (simp add: handle_tcp_socket_activity_def)
  next
    case (Some addr)
    obtain ip where ip: "peer_ip addr s = Inr (ip, s)" using peer_ip_run by blast
    let ?t = "s\<lparr>logs := logs s @ log_lines os (snprintf BUFFER_256 (''TCP client disconnected from IP: '' @ ip))\<rparr>"
    have run: "handle_tcp_socket_activity os fd s = drop_client os fd ?t"
      using Some ip receive_tcp_json_run [OF assms(2), of s fd] server_ok_heap [OF assms(1)] assms(2,5)
      by (simp add: handle_tcp_socket_activity_def check_tcp_clients_messages_def run log_message_run
          benignD split: sum.splits)
    show ?thesis using drop [of ?t] server_okD(1) [OF assms(1)] unfolding run by auto
  qed
qed

theorem tcp_client_dropped_witness:
  "\<exists>s'. handle_tcp_socket_activity quiet_os 8 idle = Inr ((), s') \<and> outputs s' = [Close 8]"
  using tcp_client_dropped [of idle quiet_os 8]
  by (auto simp: received_def FD_SETSIZE_def)

lemma accept_run:
  assumes "benign os" and "accepted os = Some (fd, addr)" and add: "tcp_add fd (tcp_clients s) = Inr (r, l)"
  shows "\<exists>ls. handle_tcp_accept os s =
    Inr ((), s\<lparr>tcp_clients := l, logs := logs s @ ls, master_fds := insert fd (master_fds s),
               max_fd := max fd (max_fd s)\<rparr>)"
proof -
  have a: "internet addr" "0 \<le> fd" "fd < FD_SETSIZE" using benignD(10) [OF assms(1,2)] by auto
  obtain msg where msg: "connection_message addr s = Inr (msg, s)"
    using connection_message_run [OF a(1)] by blast
  let ?ls = "log_lines os msg @ (if r then log_lines os (snprintf BUFFER_256
      (''Added TCP client. Total connected: '' @ snprintf 10 (show_int (int (num_clients l))))) else [])"
  have "handle_tcp_accept os s =
    Inr ((), s\<lparr>tcp_clients := l, logs := logs s @ ?ls, master_fds := insert fd (master_fds s),
               max_fd := max fd (max_fd s)\<rparr>)"
    using a msg assms
    by (simp add: handle_tcp_accept_def accept_tcp_connection_def run log_event_run log_message_run
        benignD add_tcp_client_def log_total_def on_tcp_def fd_set_add_def max_def)
  then show ?thesis by blast
qed

text \<open>
  A client that connects is registered behind the others while there is room. When the
  registry is full it is served but not registered: its descriptor is watched like any other,
  so its requests are answered, but no broadcast goes to it.
\<close>

theorem tcp_accept_registers:
  assumes "server_ok s" and "benign os" and "accepted os = Some (fd, addr)"
  shows "\<exists>l ls. handle_tcp_accept os s =
      Inr ((), s\<lparr>tcp_clients := l, logs := logs s @ ls, master_fds := insert fd (master_fds s),
                 max_fd := max fd (max_fd s)\<rparr>) \<and>
    connected l = (if length (connected (tcp_clients s)) < MAX_CLIENTS
                   then connected (tcp_clients s) @ [fd] else connected (tcp_clients s))"
proof -
  obtain r l where add: "tcp_add fd (tcp_clients s) = Inr (r, l)"
    and l: "connected l = (if length (connected (tcp_clients s)) < MAX_CLIENTS
                   then connected (tcp_clients s) @ [fd] else connected (tcp_clients s))"
    using tcp_add_ok [OF server_okD(1) [OF assms(1)], of fd] by (auto simp: wp_def split: sum.splits)
  from accept_run [OF assms(2,3) add] l show ?thesis by metis
qed

theorem tcp_accept_registers_witness:
  "\<exists>s'. handle_tcp_accept (quiet_os\<lparr>accepted := Some (8, Sockaddr_in 5000 [127, 0, 0, 1])\<rparr>) idle =
       Inr ((), s') \<and> connected (tcp_clients s') = [8] \<and> 8 \<in> master_fds s'"
proof -
  have "benign (quiet_os\<lparr>accepted := Some (8, Sockaddr_in 5000 [127, 0, 0, 1])\<rparr>)"
    using quiet_benign by (simp add: benign_def FD_SETSIZE_def)
  from tcp_accept_registers [OF idle_ok this, of 8] show ?thesis
    by (auto simp: MAX_CLIENTS_def)
qed

section \<open>Alerts and notifications\<close>

lemma alert_broadcast_run:
  assumes "server_ok s" and "home os \<noteq> None" and "\<And>fd. \<not> broken_pipe os fd"
    and "fifo_opens os" and "fifo_data os = Some bytes"
    and "bytes \<noteq> []" and "length bytes < BUFFER_SIZE" and "upto_nul bytes = alert"
    and "\<forall>e. detect_entry alert = Some e \<longrightarrow> get_alerts_for_entry (entry_alerts_count s) e < INT_MAX"
  shows "\<exists>c. check_alerts os s =
      Inr ((), noted os alert s
        \<lparr>outputs := outputs s @ map (\<lambda>fd. Send fd alert) (connected (tcp_clients s)) @
           map (\<lambda>u. Sendto (sockfd u) (client_addr u) (addr_len u) alert) (known (udp_clients s)),
         logs := logs s @ log_lines os alert @
            log_lines os ''Sent alert notification to all connected clients'',
         entry_alerts_count := c\<rparr>) \<and>
    (\<forall>e. get_alerts_for_entry c e = get_alerts_for_entry (entry_alerts_count s) e +
       (if detect_entry alert = Some e then 1 else 0))"
proof -
  let ?t = "noted os alert s
        \<lparr>outputs := outputs s @ map (\<lambda>fd. Send fd alert) (connected (tcp_clients s)) @
           map (\<lambda>u. Sendto (sockfd u) (client_addr u) (addr_len u) alert) (known (udp_clients s)),
         logs := logs s @ log_lines os alert @
            log_lines os ''Sent alert notification to all connected clients''\<rparr>"
  let ?count = "case detect_entry alert of None \<Rightarrow> ret ()
     | Some entry \<Rightarrow> zoom entry_alerts_count (\<lambda>c s. s\<lparr>entry_alerts_count := c\<rparr>) (count_entry entry)"
  have "check_alerts os s = ?count ?t"
    using assms(2-8) fifo_text [OF assms(7)] server_okD(1,2) [OF assms(1)]
    by (simp add: check_alerts_def broadcast_alert_def record_event_def run log_event_run
        send_to_all_tcp_clients_run send_to_all_udp_clients_run noted_def split: sum.splits)
  moreover have "\<exists>c. ?count ?t = Inr ((), ?t\<lparr>entry_alerts_count := c\<rparr>) \<and>
    (\<forall>e. get_alerts_for_entry c e = get_alerts_for_entry (entry_alerts_count s) e +
       (if detect_entry alert = Some e then 1 else 0))"
  proof (cases "detect_entry alert")
    case None
    then show ?thesis by (intro exI [where x = "entry_alerts_count s"]) (simp add: run noted_def)
  next
    case (Some entry)
    then obtain c where "count_entry entry (entry_alerts_count s) = Inr ((), c)"
      "\<forall>e. get_alerts_for_entry c e = get_alerts_for_entry (entry_alerts_count s) e +
         (if e = entry then 1 else 0)"
      using count_entry_ok [OF server_okD(3) [OF assms(1)] Some] assms(9)
      by (auto simp: wp_def split: sum.splits)
    then show ?thesis using Some by (intro exI [where x = c]) (auto simp: run noted_def)
  qed
  ultimately show ?thesis by simp
qed

text \<open>
  C7: an alert in the FIFO goes to every registered TCP client and then to every known UDP
  client, once to each and in the order they came; it is logged, noted as the last event, and
  counted for the entry it names (which the counter must have room for).
\<close>

theorem alert_broadcast:
  assumes "server_ok s" and "benign os" and "fifo_opens os" and "fifo_data os = Some bytes"
    and "bytes \<noteq> []" and "upto_nul bytes = alert"
    and "\<forall>e. detect_entry alert = Some e \<longrightarrow> get_alerts_for_entry (entry_alerts_count s) e < INT_MAX"
  shows "\<exists>c. check_alerts os s =
      Inr ((), noted os alert s
        \<lparr>outputs := outputs s @ map (\<lambda>fd. Send fd alert) (connected (tcp_clients s)) @
           map (\<lambda>u. Sendto (sockfd u) (client_addr u) (addr_len u) alert) (known (udp_clients s)),
         logs := logs s @ log_lines os alert @
            log_lines os ''Sent alert notification to all connected clients'',
         entry_alerts_count := c\<rparr>) \<and>
    (\<forall>e. get_alerts_for_entry c e = get_alerts_for_entry (entry_alerts_count s) e +
       (if detect_entry alert = Some e then 1 else 0))"
proof -
  have "length bytes < BUFFER_SIZE"
    using benignD(11) [OF assms(2,4)] by (simp add: BUFFER_SIZE_def)
  then show ?thesis
    by (rule alert_broadcast_run [OF assms(1) benignD(1,13) [OF assms(2)] assms(3-5) _ assms(6,7)])
qed

theorem alert_broadcast_witness:
  "\<exists>s'. check_alerts (quiet_os\<lparr>fifo_data := Some ''SOUTH''\<rparr>) idle = Inr ((), s') \<and>
     get_alerts_for_entry (entry_alerts_count s') ''SOUTH'' = 1"
proof -
  have "benign (quiet_os\<lparr>fifo_data := Some ''SOUTH''\<rparr>)" using quiet_benign by (simp add: benign_def)
  moreover have "detect_entry ''SOUTH'' = Some ''SOUTH''" by code_simp
  moreover have "get_alerts_for_entry (entry_alerts_count idle) ''SOUTH'' = 0"
    by (simp add: get_alerts_for_entry_def)
  ultimately show ?thesis
    using alert_broadcast [of idle "quiet_os\<lparr>fifo_data := Some ''SOUTH''\<rparr>" "''SOUTH''" "''SOUTH''"]
    by (fastforce simp: upto_nul_def INT_MAX_def simp del: idle_fields)
qed

lemma unix_notification_run:
  assumes "server_ok s" and "benign os" and "unix_accepted os = Some c" and "incoming os c = Some bytes"
    and "bytes \<noteq> []"
  shows "\<exists>disconnect. cJSON_Print (Some (json_object [member ''message'' (json_string ''disconnect'')])) [] =
      Inr (Some disconnect, []) \<and>
    handle_unix_socket_activity os fd True s =
      Inr ((), s\<lparr>outputs := outputs s @ map (\<lambda>x. Send x disconnect) (connected (tcp_clients s)) @ [Close c],
                 logs := logs s @ log_lines os (upto_nul bytes)\<rparr>)"
proof -
  have "short_text (json_object [member ''message'' (json_string ''disconnect'')]) 0 200"
    by (rule short_message) simp_all
  then have "cJSON_Print (Some (json_object [member ''message'' (json_string ''disconnect'')])) [] =
      Inr (Some disconnect_text, [])"
    unfolding disconnect_text_def by (rule cJSON_Print_short) simp
  moreover have "take BUFFER_SIZE bytes = bytes" using benignD(6) [OF assms(2,4)] by simp
  ultimately show ?thesis
    using assms keeps_received_string [OF assms(2,4)] server_okD [OF assms(1)]
    by (simp add: handle_unix_socket_activity_def run emit_def Let_def log_event_run benignD
        disconnect_printed send_to_all_tcp_clients_run)
qed

text \<open>
  C14: a notification on the Unix socket makes the server send every registered TCP client the
  JSON text with the message \<open>disconnect\<close>, log the notification, and close the connection it
  came on. It closes no TCP connection: registry and watched descriptors stay as they were.
\<close>

theorem unix_notification:
  assumes "server_ok s" and "benign os" and "unix_accepted os = Some c" and "incoming os c = Some bytes"
    and "bytes \<noteq> []"
  shows "\<exists>disconnect. cJSON_Print (Some (json_object [member ''message'' (json_string ''disconnect'')])) [] =
      Inr (Some disconnect, []) \<and>
    handle_unix_socket_activity os fd True s =
      Inr ((), s\<lparr>outputs := outputs s @ map (\<lambda>x. Send x disconnect) (connected (tcp_clients s)) @ [Close c],
                 logs := logs s @ log_lines os (upto_nul bytes)\<rparr>)"
  using assms by (rule unix_notification_run)

theorem unix_notification_witness:
  "\<exists>s'. handle_unix_socket_activity ((saying outage_bytes)\<lparr>unix_accepted := Some 9\<rparr>) 6 True idle =
     Inr ((), s') \<and> outputs s' = [Close 9]"
proof -
  have "benign ((saying outage_bytes)\<lparr>unix_accepted := Some 9\<rparr>)"
    using sample_benign [of outage_bytes] by (simp add: benign_def)
  from unix_notification [OF idle_ok this, of 9 outage_bytes 6] show ?thesis
    by (auto simp: sample_bytes)
qed

section \<open>Requests over UDP\<close>

text \<open>The sender is registered first, unless the registry refuses it; nothing else changes.\<close>

lemma add_udp_client_run:
  assumes s: "server_ok s" and os: "benign os"
  obtains u ls where "add_udp_client os c s = Inr ((), s\<lparr>udp_clients := u, logs := logs s @ ls\<rparr>)"
    "server_ok (s\<lparr>udp_clients := u, logs := logs s @ ls\<rparr>)"
    "known u = (if (\<forall>x \<in> set (known (udp_clients s)). \<not> same_peer x c) \<and>
        length (known (udp_clients s)) < MAX_CLIENTS then known (udp_clients s) @ [c]
      else known (udp_clients s))"
proof -
  obtain r u where r: "udp_add c (udp_clients s) = Inr (r, u)"
    and u: "known u = (if (\<forall>x \<in> set (known (udp_clients s)). \<not> same_peer x c) \<and>
        length (known (udp_clients s)) < MAX_CLIENTS then known (udp_clients s) @ [c]
      else known (udp_clients s))"
    using udp_add_ok [OF server_okD(2) [OF s], of c] by (auto simp: wp_def split: sum.splits)
  let ?s = "s\<lparr>udp_clients := u, logs := logs s @ (if r then
      log_lines os (snprintf BUFFER_256 (''Added UDP client. Total cached: '' @
        snprintf 10 (show_int (int (num_udp_clients u))))) else [])\<rparr>"
  have run: "add_udp_client os c s = Inr ((), ?s)"
    using r os by (simp add: add_udp_client_def on_udp_def log_total_def log_message_run benignD run)
  then have "server_ok ?s"
    using safeD [OF keeps_add_udp_client [OF os, of c] s] by (simp add: wp_def)
  then show thesis by (rule that [OF run _ u])
qed

lemma check_udp_request:
  assumes s: "server_ok s" and os: "benign os" and r: "received_datagram os = Some (Some json, addr, len)"
    and add: "add_udp_client os \<lparr>sockfd = fd, client_addr = addr, addr_len = len, family = None\<rparr> s =
      Inr ((), s')"
  shows "check_udp_clients_messages os fd s =
    (case (text_member json ''message'', text_member json ''hostname'') of
       (Some m, Some h) \<Rightarrow>
         (case udp_request os fd addr len (udp_ip addr) json m h s' of
            Inl e \<Rightarrow> Inl e | Inr (_, t) \<Rightarrow> Inr (True, t))
     | _ \<Rightarrow> Inr (False, s'))"
  using r add receive_udp_json_run [OF os server_ok_heap [OF s]]
    filled_udp [OF received_datagram_props(1) [OF os r]]
    text_fieldsD [OF received_datagram_props(2) [OF os r]]
  by (auto simp: check_udp_clients_messages_def run text_member_def split: option.splits sum.splits)

lemma admin_update_run:
  assumes s: "server_ok s" and os: "benign os" and r: "received_datagram os = Some (Some json, addr, len)"
    and m: "text_member json ''message'' = Some ''update''" "text_member json ''hostname'' = Some ADMIN_USER"
    and seg: "segments s = \<lparr>food_segment = Some f, medicine_segment = Some d\<rparr>"
    and fits: "update_fits (Some json) f d"
  shows "\<exists>u ls. check_udp_clients_messages os fd s =
      Inr (True, s\<lparr>udp_clients := u, logs := logs s @ ls,
        segments := \<lparr>food_segment = Some (food_after (Some json) f),
                     medicine_segment = Some (medicine_after (Some json) d)\<rparr>\<rparr>)"
proof -
  obtain u ls where a: "add_udp_client os
        \<lparr>sockfd = fd, client_addr = addr, addr_len = len, family = None\<rparr> s =
      Inr ((), s\<lparr>udp_clients := u, logs := logs s @ ls\<rparr>)"
    and ok: "server_ok (s\<lparr>udp_clients := u, logs := logs s @ ls\<rparr>)"
    by (rule add_udp_client_run [OF s os])
  let ?s = "s\<lparr>udp_clients := u, logs := logs s @ ls\<rparr>"
  have seg': "segments ?s = \<lparr>food_segment = Some f, medicine_segment = Some d\<rparr>" by (simp add: seg)
  have "check_udp_clients_messages os fd s = Inr (True, s\<lparr>udp_clients := u,
      logs := logs s @ ls @ log_lines os (snprintf BUFFER_256
        (''Update request from authenticated UDP client '' @ udp_ip addr)),
      segments := \<lparr>food_segment = Some (food_after (Some json) f),
                   medicine_segment = Some (medicine_after (Some json) d)\<rparr>\<rparr>)"
    using check_udp_request [OF s os r a] m fits os
      update_supplies_run [OF segment_pointers [OF ok os seg'] seg', of "Some json"]
    by (simp add: udp_request_def udp_update_def run log_message_run benignD)
  then show ?thesis by blast
qed

text \<open>
  C5: an update in a datagram whose host name is the administrator's registers the sender and
  adds the amounts of the message to the supplies; nothing is answered.
\<close>

theorem udp_update_applied:
  assumes s: "server_ok s" and os: "benign os" and r: "received_datagram os = Some (Some json, addr, len)"
    and m: "text_member json ''message'' = Some ''update''" "text_member json ''hostname'' = Some ADMIN_USER"
    and seg: "segments s = \<lparr>food_segment = Some f, medicine_segment = Some d\<rparr>"
    and fits: "update_fits (Some json) f d"
  shows "\<exists>u ls. check_udp_clients_messages os fd s =
      Inr (True, s\<lparr>udp_clients := u, logs := logs s @ ls,
        segments := \<lparr>food_segment = Some (food_after (Some json) f),
                     medicine_segment = Some (medicine_after (Some json) d)\<rparr>\<rparr>)"
  by (rule admin_update_run [OF assms])

lemma no_food_watered: "no_food\<lparr>water := 12\<rparr> \<noteq> no_food"
  by (simp add: no_food_def)

lemma mailed_update:
  "received_datagram (mailing update_bytes) =
     Some (Some update_json, Sockaddr_in6 6000 [0, 0, 0, 0] (replicate 15 0 @ [1]), 28)"
  using sample_bytes [of update_bytes]
  by (simp add: received_datagram_def sample_parses upto_nul_id BUFFER_SIZE_def)

theorem udp_update_applied_witness:
  "\<exists>s'. check_udp_clients_messages (mailing update_bytes) 5 idle = Inr (True, s') \<and>
     segments s' = \<lparr>food_segment = Some (no_food\<lparr>water := 12\<rparr>), medicine_segment = Some no_medicine\<rparr>"
proof -
  have "benign (mailing update_bytes)" by (simp add: sample_benign)
  from udp_update_applied [OF idle_ok this mailed_update _ _ idle_fields(1) sample_update(1), of 5]
  show ?thesis by (auto simp: sample_update ADMIN_USER_def)
qed

text \<open>
  C4: over UDP the supplies change only for the administrator. When a datagram changed them,
  its message was an update, its host name was the administrator's, and the supplies are the
  old ones with the amounts of the message added.
\<close>

theorem udp_change_needs_admin:
  assumes s: "server_ok s" and os: "benign os"
    and step: "check_udp_clients_messages os fd s = Inr (ok, s')"
    and seg: "segments s = \<lparr>food_segment = Some f, medicine_segment = Some d\<rparr>"
    and changed: "segments s' \<noteq> segments s"
  shows "\<exists>json addr len. received_datagram os = Some (Some json, addr, len) \<and>
    text_member json ''message'' = Some ''update'' \<and> text_member json ''hostname'' = Some ADMIN_USER \<and>
    segments s' = \<lparr>food_segment = Some (food_after (Some json) f),
                    medicine_segment = Some (medicine_after (Some json) d)\<rparr>"
proof -
  obtain json addr len where r: "received_datagram os = Some (Some json, addr, len)"
    using step changed receive_udp_json_run [OF os server_ok_heap [OF s]]
    by (auto simp: check_udp_clients_messages_def run split: option.splits prod.splits)
  obtain u ls where a: "add_udp_client os
        \<lparr>sockfd = fd, client_addr = addr, addr_len = len, family = None\<rparr> s =
      Inr ((), s\<lparr>udp_clients := u, logs := logs s @ ls\<rparr>)"
    and ok: "server_ok (s\<lparr>udp_clients := u, logs := logs s @ ls\<rparr>)"
    by (rule add_udp_client_run [OF s os])
  let ?s = "s\<lparr>udp_clients := u, logs := logs s @ ls\<rparr>"
  have seg': "segments ?s = \<lparr>food_segment = Some f, medicine_segment = Some d\<rparr>" by (simp add: seg)
  note ptr = segment_pointers [OF ok os seg']
  have request: "request = ''update'' \<and> auth = ADMIN_USER \<and>
      segments s' = \<lparr>food_segment = Some (food_after (Some json) f),
                      medicine_segment = Some (medicine_after (Some json) d)\<rparr>"
    if "udp_request os fd addr len (udp_ip addr) json request auth ?s = Inr ((), s')" for request auth
    using that changed udp_status_run [OF ok os received_datagram_props(1) [OF os r] ptr]
      udp_summary_run [OF ok os received_datagram_props(1) [OF os r] ptr]
      update_supplies_run [OF ptr seg', of "Some json"] os
    by (auto simp: udp_request_def udp_update_def run log_message_run benignD split: if_splits)
  show ?thesis
    using step changed r check_udp_request [OF s os r a]
    by (auto dest!: request split: option.splits sum.splits)
qed

theorem udp_change_needs_admin_witness:
  "\<exists>ok s'. check_udp_clients_messages (mailing update_bytes) 5 idle = Inr (ok, s') \<and>
     segments s' \<noteq> segments idle \<and> text_member update_json ''hostname'' = Some ADMIN_USER"
proof -
  have os: "benign (mailing update_bytes)" by (simp add: sample_benign)
  obtain s' where step: "check_udp_clients_messages (mailing update_bytes) 5 idle = Inr (True, s')"
    and seg: "segments s' \<noteq> segments idle"
    using admin_update_run [OF idle_ok os mailed_update _ _ idle_fields(1) sample_update(1), of 5]
      no_food_watered by (auto simp: sample_update ADMIN_USER_def)
  from udp_change_needs_admin [OF idle_ok os step idle_fields(1) seg] show ?thesis
    using step seg mailed_update by auto
qed

section \<open>What the handlers do not survive\<close>

text \<open>
  C15: a client that has \<open>BUFFER_SIZE\<close> bytes or more under way makes the server write one byte
  behind its buffer, on TCP and on the Unix socket; a datagram of any length is cut to fit.
\<close>

theorem full_buffer_overflows:
  assumes "BUFFER_SIZE \<le> length bytes"
  shows "(incoming os fd = Some bytes \<longrightarrow>
      receive_tcp_json os fd s = Inl (Fault Out_of_bounds) \<and>
      (unix_accepted os = Some fd \<longrightarrow>
        handle_unix_socket_activity os k True s = Inl (Fault Out_of_bounds))) \<and>
    (datagram os = Some (bytes, Sockaddr_in6 port flow a, len) \<longrightarrow>
      (\<exists>r s'. receive_udp_json os s = Inr (r, s')))"
proof -
  have bytes: "take BUFFER_SIZE bytes \<noteq> []" "length (take BUFFER_SIZE bytes) = BUFFER_SIZE"
    using assms by (auto simp: BUFFER_SIZE_def)
  have tcp: "receive_tcp_json os fd s = Inl (Fault Out_of_bounds)" if "incoming os fd = Some bytes"
    using that bytes by (simp add: receive_tcp_json_def Let_def received_string_def run)
  have unix: "handle_unix_socket_activity os k True s = Inl (Fault Out_of_bounds)"
    if "incoming os fd = Some bytes" "unix_accepted os = Some fd"
    using that bytes by (simp add: handle_unix_socket_activity_def Let_def received_string_def run)
  have udp: "\<exists>r s'. receive_udp_json os s = Inr (r, s')"
    if "datagram os = Some (bytes, Sockaddr_in6 port flow a, len)"
  proof -
    let ?text = "upto_nul (take (BUFFER_SIZE - 1) bytes)"
    obtain r h where "cJSON_Parse (nesting_limit os) ?text (heap s) = Inr (r, h)"
      using cJSON_Parse_total by blast
    then show ?thesis using that
      by (simp add: receive_udp_json_def run received_string_def BUFFER_SIZE_def filled_udp with_heap_def)
  qed
  show ?thesis using tcp unix udp by blast
qed

theorem full_buffer_overflows_witness:
  "receive_tcp_json (saying (replicate 1024 CHR ''x'')) 8 idle = Inl (Fault Out_of_bounds)"
  using full_buffer_overflows [of "replicate 1024 CHR ''x''" "saying (replicate 1024 CHR ''x'')" 8 idle]
  by (simp add: BUFFER_SIZE_def)

text \<open>
  C16: a JSON object whose \<open>message\<close> is no string (a number, say) crashes the server: the
  handler compares through the NULL pointer it finds there.
\<close>

theorem message_must_be_text:
  assumes "heap s = []" and "incoming os fd = Some bytes" and "bytes \<noteq> []" and "length bytes < BUFFER_SIZE"
    and "cJSON_Parse (nesting_limit os) (upto_nul bytes) [] = Inr (Some json, [])"
    and "cJSON_GetObjectItem (Some json) ''message'' = Some it" and "valuestring it = None"
  shows "check_tcp_clients_messages os fd s = Inl (Fault Null_deref)"
  using assms
  by (simp add: check_tcp_clients_messages_def receive_tcp_json_def run Let_def received_string_def
      with_heap_def)

theorem message_must_be_text_witness:
  "check_tcp_clients_messages (saying number_bytes) 8 idle = Inl (Fault Null_deref)"
proof (rule message_must_be_text)
  show "cJSON_Parse (nesting_limit (saying number_bytes)) (upto_nul number_bytes) [] = Inr (Some number_json, [])"
    using sample_bytes [of number_bytes] by (simp add: upto_nul_id sample_parses)
  show "cJSON_GetObjectItem (Some number_json) ''message'' = Some (member ''message'' (json_int 5))"
    by (simp add: number_json_def get_object_item_insensitive case_insensitive_strcmp_def)
  show "length number_bytes < BUFFER_SIZE" by (simp add: number_bytes_def BUFFER_SIZE_def)
qed (simp_all add: sample_bytes)

section \<open>The end\<close>

text \<open>
  After both child processes are started, the signal handler stops the loop and kills the
  process of the alerts only: the other process's id was kept in a local variable, and the
  global one is still 0.
\<close>

theorem sigint_kills_alerts_only:
  assumes "0 < alerts" and "0 < outage"
  shows "block [create_infection_alerts_process alerts, create_power_outage_alert_process outage,
      sigint_handler] initial_server =
    Inr ((), initial_server\<lparr>alerts_pid := alerts, running := False, outputs := [Kill alerts]\<rparr>)"
  using assms
  by (simp add: create_infection_alerts_process_def create_power_outage_alert_process_def
      sigint_handler_def run emit_def initial_server_def)

theorem sigint_kills_alerts_only_witness:
  "outputs (snd (projr (block [create_infection_alerts_process 71, create_power_outage_alert_process 72,
     sigint_handler] initial_server))) = [Kill 71]"
  by (simp add: sigint_kills_alerts_only)

end
