(* ===== verification/AlertFlow.thy ===== *)
theory AlertFlow
  imports Sensors ServerProps
begin

text \<open>
  From a sensor to the counters: what the server makes of the alerts the child process wrote
  into the FIFO, read one by one and read together.
\<close>

definition entries :: "(string \<times> string) list" where
  "entries = [(''NORTH ENTRY'', ''NORTH''), (''SOUTH ENTRY'', ''SOUTH''), (''WEST ENTRY'', ''WEST''),
              (''EAST ENTRY'', ''EAST'')]"

lemma digit_not_letter:
  "is_digit c \<Longrightarrow> c \<notin> {CHR ''N'', CHR ''S'', CHR ''W'', CHR ''E'', NUL}"
  by (auto simp: is_digit_def byte_def)

lemma strstr_step: "strstr (c # hay) needle \<longleftrightarrow> prefix needle (c # hay) \<or> strstr hay needle"
  by (simp add: strstr_def sublist_Cons_right)

lemma strstr_Nil: "strstr [] needle \<longleftrightarrow> needle = []"
  by (simp add: strstr_def)

lemma detect_alert_form:
  assumes "a \<notin> {CHR ''N'', CHR ''S'', CHR ''W'', CHR ''E'', NUL}"
    and "b \<notin> {CHR ''N'', CHR ''S'', CHR ''W'', CHR ''E'', NUL}"
    and "c \<notin> {CHR ''N'', CHR ''S'', CHR ''W'', CHR ''E'', NUL}"
  shows "detect_entry (''NORTH ENTRY'' @ '', ALERT, '' @ [a, b, CHR ''.'', c, CHR 0xC2, CHR 0xB0] @ ''C '') = Some ''NORTH''"
    "detect_entry (''SOUTH ENTRY'' @ '', ALERT, '' @ [a, b, CHR ''.'', c, CHR 0xC2, CHR 0xB0] @ ''C '') = Some ''SOUTH''"
    "detect_entry (''EAST ENTRY'' @ '', ALERT, '' @ [a, b, CHR ''.'', c, CHR 0xC2, CHR 0xB0] @ ''C '') = Some ''EAST''"
    "detect_entry (''WEST ENTRY'' @ '', ALERT, '' @ [a, b, CHR ''.'', c, CHR 0xC2, CHR 0xB0] @ ''C '') = Some ''WEST''"
  using assms by (simp_all add: detect_entry_def strstr_step strstr_Nil)

lemma detect_alert_text:
  assumes "(e, d) \<in> set entries" and "350 \<le> n" and "n \<le> 430"
  shows "detect_entry (alert_text e (tenths n)) = Some d" "c_string (alert_text e (tenths n))"
    "length (alert_text e (tenths n)) < 100"
proof -
  obtain a b c where form: "alert_text e (tenths n) =
      e @ '', ALERT, '' @ [a, b, CHR ''.'', c, CHR 0xC2, CHR 0xB0] @ ''C ''"
    and dig: "is_digit a" "is_digit b" "is_digit c"
    by (rule alert_text_form [OF assms(2,3)])
  note letters = dig [THEN digit_not_letter]
  show "c_string (alert_text e (tenths n))" "length (alert_text e (tenths n)) < 100"
    unfolding form using assms(1) letters by (auto simp: entries_def)
  show "detect_entry (alert_text e (tenths n)) = Some d"
    unfolding form using assms(1) detect_alert_form [OF letters] by (auto simp: entries_def)
qed

text \<open>
  C22: an alert of a sensor, read from the FIFO by itself, is sent to every registered TCP
  client and every known UDP client, and adds one to the counter of the sensor's entry and to
  no other.
\<close>

theorem sensor_alert_counted:
  assumes "server_ok s" and "benign os" and "fifo_opens os" and "(e, d) \<in> set entries"
    and "350 \<le> n" and "n \<le> 430" and "fifo_data os = Some (alert_text e (tenths n))"
    and "get_alerts_for_entry (entry_alerts_count s) d < INT_MAX"
  shows "\<exists>s'. check_alerts os s = Inr ((), s') \<and>
    (\<forall>e'. get_alerts_for_entry (entry_alerts_count s') e' =
       get_alerts_for_entry (entry_alerts_count s) e' + (if e' = d then 1 else 0)) \<and>
    outputs s' = outputs s @ map (\<lambda>fd. Send fd (alert_text e (tenths n))) (connected (tcp_clients s)) @
      map (\<lambda>u. Sendto (sockfd u) (client_addr u) (addr_len u) (alert_text e (tenths n)))
        (known (udp_clients s))"
proof -
  note alert = detect_alert_text [OF assms(4-6)]
  obtain c where run: "check_alerts os s =
      Inr ((), noted os (alert_text e (tenths n)) s
        \<lparr>outputs := outputs s @ map (\<lambda>fd. Send fd (alert_text e (tenths n))) (connected (tcp_clients s)) @
           map (\<lambda>u. Sendto (sockfd u) (client_addr u) (addr_len u) (alert_text e (tenths n)))
             (known (udp_clients s)),
         logs := logs s @ log_lines os (alert_text e (tenths n)) @
            log_lines os ''Sent alert notification to all connected clients'',
         entry_alerts_count := c\<rparr>)"
    and c: "\<forall>e'. get_alerts_for_entry c e' = get_alerts_for_entry (entry_alerts_count s) e' +
       (if detect_entry (alert_text e (tenths n)) = Some e' then 1 else 0)"
    using alert_broadcast_run [OF assms(1) benignD(1,13) [OF assms(2)] assms(3,7), of "alert_text e (tenths n)"]
      alert assms(8)
    by (auto simp: upto_nul_id alert_text_def BUFFER_SIZE_def)
  show ?thesis unfolding run using c alert(1) by auto
qed

theorem sensor_alert_counted_witness:
  "\<exists>s'. check_alerts (quiet_os\<lparr>fifo_data := Some (alert_text ''WEST ENTRY'' (tenths 385))\<rparr>) idle = Inr ((), s') \<and>
     get_alerts_for_entry (entry_alerts_count s') ''WEST'' = 1"
proof -
  have "length (alert_text ''WEST ENTRY'' (tenths 385)) < 100"
    by (rule detect_alert_text [of _ "''WEST''"]) (simp_all add: entries_def)
  then have "benign (quiet_os\<lparr>fifo_data := Some (alert_text ''WEST ENTRY'' (tenths 385))\<rparr>)"
    using quiet_benign by (simp add: benign_def)
  moreover have "get_alerts_for_entry (entry_alerts_count idle) ''WEST'' = 0"
    by (simp add: get_alerts_for_entry_def)
  ultimately show ?thesis
    using sensor_alert_counted [of idle "quiet_os\<lparr>fifo_data := Some (alert_text ''WEST ENTRY'' (tenths 385))\<rparr>"
        "''WEST ENTRY''" "''WEST''" 385]
    by (fastforce simp: entries_def INT_MAX_def simp del: idle_fields)
qed

text \<open>
  Alerts of all four sensors that the server reads at once are one event of 110 bytes, which
  \<open>update_emergency_info\<close> stores without a terminator: only one of the four entries is
  counted, and the next summary request reads behind the array.
\<close>

theorem coalesced_alerts:
  assumes "server_ok s" and "benign os" and "fifo_opens os"
    and "\<forall>n \<in> {k, l, m, n}. 350 \<le> n \<and> n \<le> 430"
    and os'_def: "os' = os\<lparr>fifo_data := Some (alert_text ''NORTH ENTRY'' (tenths k) @
      alert_text ''SOUTH ENTRY'' (tenths l) @ alert_text ''WEST ENTRY'' (tenths m) @
      alert_text ''EAST ENTRY'' (tenths n))\<rparr>"
    and "north (entry_alerts_count s) < INT_MAX"
  shows "\<exists>s'. check_alerts os' s = Inr ((), s') \<and>
    entry_alerts_count s' = (entry_alerts_count s)\<lparr>north := north (entry_alerts_count s) + 1\<rparr> \<and>
    summary os' s' = Inl (Fault Unterminated_string)"
proof -
  let ?alert = "alert_text ''NORTH ENTRY'' (tenths k) @ alert_text ''SOUTH ENTRY'' (tenths l) @
      alert_text ''WEST ENTRY'' (tenths m) @ alert_text ''EAST ENTRY'' (tenths n)"
  have ok: "c_string (alert_text ''NORTH ENTRY'' (tenths k))" "c_string (alert_text ''SOUTH ENTRY'' (tenths l))"
    "c_string (alert_text ''WEST ENTRY'' (tenths m))" "c_string (alert_text ''EAST ENTRY'' (tenths n))"
    by (rule detect_alert_text(2); use assms(4) in \<open>simp add: entries_def\<close>)+
  have len: "length ?alert = 110" using assms(4) by (simp add: length_alert_text)
  have cs: "c_string ?alert" using ok by simp
  have "strstr ?alert ''NORTH''"
    unfolding strstr_def by (rule prefix_imp_sublist) (simp add: alert_text_def)
  then have d: "detect_entry ?alert = Some ''NORTH''" by (simp add: detect_entry_def)
  have os': "home os' \<noteq> None" "\<And>fd. \<not> broken_pipe os' fd" "fifo_opens os'" "now os' = now os" "shm_calls os' = shm_calls os"
    using benignD(1,13) [OF assms(2)] assms(3) by (simp_all add: os'_def)
  have data: "fifo_data os' = Some ?alert" by (simp add: os'_def)
  obtain c where check: "check_alerts os' s =
      Inr ((), noted os' ?alert s
        \<lparr>outputs := outputs s @ map (\<lambda>fd. Send fd ?alert) (connected (tcp_clients s)) @
           map (\<lambda>u. Sendto (sockfd u) (client_addr u) (addr_len u) ?alert) (known (udp_clients s)),
         logs := logs s @ log_lines os' ?alert @
            log_lines os' ''Sent alert notification to all connected clients'',
         entry_alerts_count := c\<rparr>)"
    and c: "\<forall>e. get_alerts_for_entry c e = get_alerts_for_entry (entry_alerts_count s) e +
       (if detect_entry ?alert = Some e then 1 else 0)"
    using alert_broadcast_run [OF assms(1) os'(1-3) data, of ?alert] cs len d assms(6)
    by (auto simp: upto_nul_id alert_text_def BUFFER_SIZE_def get_alerts_for_entry_def)
  have c': "c = (entry_alerts_count s)\<lparr>north := north (entry_alerts_count s) + 1\<rparr>"
    using c [rule_format, of "''NORTH''"] c [rule_format, of "''SOUTH''"] c [rule_format, of "''EAST''"]
      c [rule_format, of "''WEST''"] d
    by (cases c; cases "entry_alerts_count s") (simp add: get_alerts_for_entry_def)
  have "counts_ok c" using server_okD(3) [OF assms(1)] assms(6) by (simp add: c' counts_ok_def)
  moreover obtain f b where p: "food_ok f" "medicine_ok b"
      "get_food_supply (shm_calls os) (segments s) = Some f"
      "get_medicine_supply (shm_calls os) (segments s) = Some b"
    using supply_pointers_ok [OF assms(1,2)] by blast
  moreover have "cstr (last_keepalived (update_emergency_info (now os) ?alert (emergency_info s))) = Inr (now os)"
    "cstr (last_event (update_emergency_info (now os) ?alert (emergency_info s))) = Inl (Fault Unterminated_string)"
    using server_okD(4) [OF assms(1)] benignD(2,3) [OF assms(2)] cs len
    by (simp_all add: update_emergency_info_def info_ok_def cstr_strncpy del: append_assoc)
  ultimately have "create_summary_json (shm_calls os) c (segments s)
      (update_emergency_info (now os) ?alert (emergency_info s)) [] = Inl (Fault Unterminated_string)"
    by (rule create_summary_unterminated)
  then show ?thesis unfolding check using os' server_okD(5) [OF assms(1)] c'
    by (simp add: summary_def with_heap_def run noted_def)
qed

theorem coalesced_alerts_witness:
  "\<exists>os s'. check_alerts os idle = Inr ((), s') \<and> summary os s' = Inl (Fault Unterminated_string)"
  using coalesced_alerts [of idle quiet_os 385 389 385 389, OF idle_ok quiet_benign _ _ refl]
  by (simp add: INT_MAX_def) blast

end
