(* ===== verification/SocketSetup.thy ===== *)
theory SocketSetup
  imports Net "HOL-Library.Word"
begin

text \<open>
  The sockets of the server (\<open>lib/socketSetup\<close>) and of the emergency notification
  (\<open>lib/emergNotif\<close>). The calls a function makes are recorded in order; what each call
  returns is up to the system. A negative result ends the process as the code does.
\<close>

section \<open>Calls\<close>

datatype domain = AF_INET | AF_INET6 | AF_UNIX
datatype socket_type = SOCK_STREAM | SOCK_DGRAM
datatype socket_option = SO_REUSEPORT | SO_REUSEADDR

datatype address =
    Internet sockaddr
  | Local string

datatype call =
    Socket domain socket_type
  | Setsockopt int socket_option int
  | Bind int address
  | Listen int int
  | Getsockname int
  | Connect int address
  | Send_bytes int string
  | Sendto_bytes int address string
  | Close_fd int

record sock_os =
  socket_call :: "domain \<Rightarrow> socket_type \<Rightarrow> int"
  setsockopt_ok :: "int \<Rightarrow> bool"
  bind_ok :: "int \<Rightarrow> address \<Rightarrow> bool"
  listen_ok :: "int \<Rightarrow> bool"
  getsockname_call :: "int \<Rightarrow> sockaddr option"
  connect_ok :: "int \<Rightarrow> bool"

type_synonym 'a sockm = "(call list, 'a) prog"

definition sys :: "call \<Rightarrow> unit sockm" where
  "sys c = modify (\<lambda>cs. cs @ [c])"

text \<open>A call whose failure ends the process with status 1.\<close>

definition must :: "call \<Rightarrow> bool \<Rightarrow> unit sockm" where
  "must c succeeded = andthen (sys c) (\<lambda>_. if succeeded then ret () else halt (Exit 1))"

definition new_socket :: "sock_os \<Rightarrow> domain \<Rightarrow> socket_type \<Rightarrow> int sockm" where
  "new_socket os d t =
     andthen (must (Socket d t) (0 \<le> socket_call os d t)) (\<lambda>_. ret (socket_call os d t))"

text \<open>\<open>htons((uint16_t)port)\<close>, in host order; the wildcard addresses.\<close>

definition port16 :: "int \<Rightarrow> 16 word" where
  "port16 port = word_of_int port"

definition any_ipv4 :: "int \<Rightarrow> address" where
  "any_ipv4 port = Internet (Sockaddr_in (port16 port) (replicate 4 0))"

definition any_ipv6 :: "int \<Rightarrow> address" where
  "any_ipv6 port = Internet (Sockaddr_in6 (port16 port) (replicate 4 0) (replicate 16 0))"

section \<open>The server's sockets\<close>

definition set_tcp_ipv4_socket :: "sock_os \<Rightarrow> int \<Rightarrow> int \<Rightarrow> int sockm" where
  "set_tcp_ipv4_socket os port backlog =
     andthen (new_socket os AF_INET SOCK_STREAM) (\<lambda>fd.
     andthen (sys (Setsockopt fd SO_REUSEPORT 1)) (\<lambda>_.
     andthen (must (Bind fd (any_ipv4 port)) (bind_ok os fd (any_ipv4 port))) (\<lambda>_.
     andthen (must (Listen fd backlog) (listen_ok os fd)) (\<lambda>_.
     ret fd))))"

definition set_tcp_ipv6_socket :: "sock_os \<Rightarrow> int \<Rightarrow> int \<Rightarrow> int sockm" where
  "set_tcp_ipv6_socket os port backlog =
     andthen (new_socket os AF_INET6 SOCK_STREAM) (\<lambda>fd.
     andthen (sys (Setsockopt fd SO_REUSEPORT 1)) (\<lambda>_.
     andthen (must (Bind fd (any_ipv6 port)) (bind_ok os fd (any_ipv6 port))) (\<lambda>_.
     andthen (must (Listen fd backlog) (listen_ok os fd)) (\<lambda>_.
     ret fd))))"

definition set_udp_ipv4_socket :: "sock_os \<Rightarrow> int \<Rightarrow> int sockm" where
  "set_udp_ipv4_socket os port =
     andthen (new_socket os AF_INET SOCK_DGRAM) (\<lambda>fd.
     andthen (must (Setsockopt fd SO_REUSEPORT 1) (setsockopt_ok os fd)) (\<lambda>_.
     andthen (must (Bind fd (any_ipv4 port)) (bind_ok os fd (any_ipv4 port))) (\<lambda>_.
     ret fd)))"

definition set_udp_ipv6_socket :: "sock_os \<Rightarrow> int \<Rightarrow> int sockm" where
  "set_udp_ipv6_socket os port =
     andthen (new_socket os AF_INET6 SOCK_DGRAM) (\<lambda>fd.
     andthen (must (Setsockopt fd SO_REUSEPORT 1) (setsockopt_ok os fd)) (\<lambda>_.
     andthen (must (Bind fd (any_ipv6 port)) (bind_ok os fd (any_ipv6 port))) (\<lambda>_.
     ret fd)))"

text \<open>The path is cut to the 107 bytes that fit with a terminator.\<close>

definition set_unix_socket :: "sock_os \<Rightarrow> string \<Rightarrow> int \<Rightarrow> bool \<Rightarrow> int sockm" where
  "set_unix_socket os socket_path backlog connection_oriented =
     andthen (new_socket os AF_UNIX (if connection_oriented then SOCK_STREAM else SOCK_DGRAM)) (\<lambda>fd.
     let address = Local (take 107 socket_path) in
     andthen (must (Bind fd address) (bind_ok os fd address)) (\<lambda>_.
     andthen (if connection_oriented then must (Listen fd backlog) (listen_ok os fd) else ret ()) (\<lambda>_.
     ret fd)))"

definition set_tcp_socket :: "sock_os \<Rightarrow> int \<Rightarrow> int \<Rightarrow> int sockm" where
  "set_tcp_socket os port backlog =
     andthen (new_socket os AF_INET6 SOCK_STREAM) (\<lambda>sd.
     andthen (must (Setsockopt sd SO_REUSEADDR 1) (setsockopt_ok os sd)) (\<lambda>_.
     andthen (must (Bind sd (any_ipv6 port)) (bind_ok os sd (any_ipv6 port))) (\<lambda>_.
     andthen (must (Getsockname sd) (getsockname_call os sd \<noteq> None)) (\<lambda>_.
     andthen (must (Listen sd backlog) (listen_ok os sd)) (\<lambda>_.
     ret sd)))))"

definition set_udp_socket :: "sock_os \<Rightarrow> int \<Rightarrow> int sockm" where
  "set_udp_socket os port =
     andthen (new_socket os AF_INET6 SOCK_DGRAM) (\<lambda>fd.
     andthen (must (Setsockopt fd SO_REUSEPORT 0) (setsockopt_ok os fd)) (\<lambda>_.
     andthen (must (Bind fd (any_ipv6 port)) (bind_ok os fd (any_ipv6 port))) (\<lambda>_.
     ret fd)))"

section \<open>Ports\<close>

definition get_selected_port :: "sock_os \<Rightarrow> int \<Rightarrow> int sockm" where
  "get_selected_port os fd =
     andthen (sys (Getsockname fd)) (\<lambda>_.
     case getsockname_call os fd of
       None \<Rightarrow> halt (Exit 1)
     | Some addr \<Rightarrow> ret (int (unat (sin_port addr))))"

definition get_available_port :: "sock_os \<Rightarrow> int sockm" where
  "get_available_port os =
     andthen (must (Socket AF_INET SOCK_STREAM) (socket_call os AF_INET SOCK_STREAM \<noteq> - 1)) (\<lambda>_.
     let fd = socket_call os AF_INET SOCK_STREAM in
     andthen (sys (Bind fd (any_ipv4 0))) (\<lambda>_.
     if \<not> bind_ok os fd (any_ipv4 0) then andthen (sys (Close_fd fd)) (\<lambda>_. halt (Exit 1))
     else
       andthen (get_selected_port os fd) (\<lambda>assigned_port.
       andthen (sys (Close_fd fd)) (\<lambda>_.
       ret assigned_port))))"

definition set_ports :: "sock_os \<Rightarrow> int \<Rightarrow> int \<Rightarrow> (int \<times> int) sockm" where
  "set_ports os tcp_port udp_port =
     andthen
       (if tcp_port = - 1 \<and> udp_port \<noteq> - 1 then
          andthen (get_available_port os) (\<lambda>p. ret (p, udp_port))
        else if tcp_port \<noteq> - 1 \<and> udp_port = - 1 then
          andthen (get_available_port os) (\<lambda>p. ret (tcp_port, p))
        else ret (tcp_port, udp_port)) (\<lambda>(tcp_port, udp_port).
     andthen (if tcp_port = - 1 then get_available_port os else ret tcp_port) (\<lambda>tcp_port.
     andthen (if udp_port = - 1 then get_available_port os else ret udp_port) (\<lambda>udp_port.
     ret (tcp_port, udp_port))))"

text \<open>The choice of the ports in \<open>main\<close>.\<close>

definition choose_ports :: "sock_os \<Rightarrow> int \<Rightarrow> int \<Rightarrow> (int \<times> int) sockm" where
  "choose_ports os tcp_port udp_port =
     (if tcp_port = - 1 \<and> udp_port \<noteq> - 1 then
        andthen (get_available_port os) (\<lambda>p. ret (p, udp_port))
      else if tcp_port \<noteq> - 1 \<and> udp_port = - 1 then
        andthen (get_available_port os) (\<lambda>p. ret (tcp_port, p))
      else if tcp_port = - 1 \<and> udp_port = - 1 then
        andthen (get_available_port os) (\<lambda>p.
        andthen (get_available_port os) (\<lambda>p'. ret (p, p')))
      else ret (tcp_port, udp_port))"

section \<open>The emergency notification\<close>

definition SOCK_PATH :: string where
  "SOCK_PATH = ''/tmp/socket''"

definition FIFO_PATH :: string where
  "FIFO_PATH = ''/tmp/alerts_fifo''"

definition FAILURE_MESSAGE :: string where
  "FAILURE_MESSAGE = ''Electricity failure. Disconnecting all clients.''"

definition init_emergency_notification :: "sock_os \<Rightarrow> int sockm" where
  "init_emergency_notification os =
     andthen (must (Socket AF_UNIX SOCK_STREAM) (socket_call os AF_UNIX SOCK_STREAM \<noteq> - 1)) (\<lambda>_.
     let sockfd = socket_call os AF_UNIX SOCK_STREAM in
     andthen (must (Connect sockfd (Local SOCK_PATH)) (connect_ok os sockfd)) (\<lambda>_.
     ret sockfd))"

text \<open>A failed \<open>send\<close> is only printed.\<close>

definition simulate_electricity_failure :: "int \<Rightarrow> unit sockm" where
  "simulate_electricity_failure fd = sys (Send_bytes fd FAILURE_MESSAGE)"

definition get_random_failure_minutes :: "int \<Rightarrow> int" where
  "get_random_failure_minutes rand = rand mod 6 + 5"

text \<open>One turn of the loop of the child process, after its sleep.\<close>

definition outage_cycle :: "sock_os \<Rightarrow> unit sockm" where
  "outage_cycle os =
     andthen (init_emergency_notification os) (\<lambda>fd.
     andthen (simulate_electricity_failure fd) (\<lambda>_.
     sys (Close_fd fd)))"

section \<open>Theorems\<close>

text \<open>
  The TCP socket of the server is made by socket, option, bind, name and listen, in this
  order; it is returned when all of them succeed, and otherwise the process ends with status
  1 right after the first that fails. The port bound is the given one modulo 65536.
\<close>

theorem set_tcp_socket_calls:
  fixes os :: sock_os and port backlog :: int
  defines "fd \<equiv> socket_call os AF_INET6 SOCK_STREAM"
  defines "addr \<equiv> Internet (Sockaddr_in6 (word_of_int (port mod 65536)) (replicate 4 0) (replicate 16 0))"
  shows "set_tcp_socket os port backlog cs =
    (if 0 \<le> fd \<and> setsockopt_ok os fd \<and> bind_ok os fd addr \<and> getsockname_call os fd \<noteq> None \<and> listen_ok os fd
     then Inr (fd, cs @ [Socket AF_INET6 SOCK_STREAM, Setsockopt fd SO_REUSEADDR 1, Bind fd addr,
       Getsockname fd, Listen fd backlog])
     else Inl (Exit 1))"
proof -
  have "(word_of_int (port mod 65536) :: 16 word) = word_of_int port"
    by (simp add: word_of_int_eq_iff take_bit_eq_mod)
  then show ?thesis
    by (auto simp: set_tcp_socket_def new_socket_def must_def sys_def run fd_def addr_def any_ipv6_def
        port16_def split: option.splits)
qed

lemma available_port_not_default:
  assumes "get_available_port os cs = Inr (p, cs')"
  shows "p \<noteq> - 1"
proof -
  have "\<exists>w :: 16 word. p = int (unat w)"
    using assms by (auto simp: get_available_port_def get_selected_port_def must_def sys_def run Let_def
        simp del: of_nat_unat split: if_splits option.splits)
  then have "0 \<le> p" by auto
  then show ?thesis by simp
qed

text \<open>
  The choice of the ports in \<open>main\<close> and the function \<open>set_ports\<close> are the same.
\<close>

theorem set_ports_is_choose_ports:
  "set_ports os tcp_port udp_port = choose_ports os tcp_port udp_port"
proof
  fix cs
  show "set_ports os tcp_port udp_port cs = choose_ports os tcp_port udp_port cs"
    using available_port_not_default [of os]
    by (auto simp: set_ports_def choose_ports_def run split: sum.splits prod.splits)
qed

text \<open>
  A power failure is one connection to the server's Unix socket, one message and the end of
  the connection; without the server the process of the notification ends.
\<close>

theorem outage_cycle_calls:
  "outage_cycle os cs =
    (let fd = socket_call os AF_UNIX SOCK_STREAM in
     if fd \<noteq> - 1 \<and> connect_ok os fd
     then Inr ((), cs @ [Socket AF_UNIX SOCK_STREAM, Connect fd (Local SOCK_PATH),
       Send_bytes fd FAILURE_MESSAGE, Close_fd fd])
     else Inl (Exit 1))"
  by (simp add: outage_cycle_def init_emergency_notification_def simulate_electricity_failure_def
      must_def sys_def run Let_def)

lemma failure_minutes: "5 \<le> get_random_failure_minutes r \<and> get_random_failure_minutes r \<le> 10"
  unfolding get_random_failure_minutes_def by presburger

end
