(* ===== verification/CommandLine.thy ===== *)
theory CommandLine
  imports SocketSetup CDouble
begin

text \<open>
  The command lines of the server and of the clients, and the shared memory through which the
  server tells its ports to clients started without one. The C library's \<open>getopt\<close> is a
  function from the arguments to what its successive calls return; every option of the three
  programs takes an argument.
\<close>

section \<open>Numbers and options of the C library\<close>

definition isspace :: "char \<Rightarrow> bool" where
  "isspace c \<longleftrightarrow> byte c = 32 \<or> 9 \<le> byte c \<and> byte c \<le> 13"

text \<open>White space, a sign and digits, as \<open>strtol\<close> and \<open>scanf("%d")\<close> read them, and what is
  left; \<open>None\<close> when there is no digit. A number that is no \<open>int\<close> is undefined behaviour.\<close>

definition scan_int :: "string \<Rightarrow> (int \<times> string) option" where
  "scan_int s =
     (let (neg, _, r) = strip_sign (dropWhile isspace s);
          ds = takeWhile is_digit r;
          n = int (nat_of_digits 0 ds)
      in if ds = [] then None else Some (if neg then - n else n, dropWhile is_digit r))"

definition atoi :: "string \<Rightarrow> stop + int" where
  "atoi s =
     (case scan_int s of
        None \<Rightarrow> Inr 0
      | Some (n, _) \<Rightarrow> if is_int n then Inr n else Inl (Fault Signed_overflow))"

text \<open>
  The option a call of \<open>getopt\<close> returns, \<open>optarg\<close>, and the arguments from \<open>argv[optind]\<close> on.
  Other arguments are passed over, \<open>--\<close> ends the options, and \<open>?\<close> stands for an unknown
  option or a missing argument; no program here goes on after it.
\<close>

type_synonym option_call = "char \<times> string \<times> string list"

fun getopt :: "char list \<Rightarrow> string list \<Rightarrow> option_call list" where
  "getopt optstring [] = []"
| "getopt optstring (a # argv) =
     (case a of
        d # c # attached \<Rightarrow>
          if d \<noteq> CHR ''-'' then getopt optstring argv
          else if a = ''--'' then []
          else if c \<notin> set optstring then [(CHR ''?'', '''', argv)]
          else if attached \<noteq> [] then (c, attached, argv) # getopt optstring argv
          else
            (case argv of
               [] \<Rightarrow> [(CHR ''?'', '''', argv)]
             | b # rest \<Rightarrow> (c, b, rest) # getopt optstring rest)
      | _ \<Rightarrow> getopt optstring argv)"

section \<open>The server\<close>

fun parse_port_options :: "option_call list \<Rightarrow> int \<times> int \<Rightarrow> stop + int \<times> int" where
  "parse_port_options [] ports = Inr ports"
| "parse_port_options ((opt, optarg, rest) # calls) (tcp_port, udp_port) =
     (if opt = CHR ''p'' then
        if optarg = ''tcp'' then
          (case rest of
             [] \<Rightarrow> Inl (Exit 1)
           | a # _ \<Rightarrow>
               (case atoi a of Inl e \<Rightarrow> Inl e | Inr p \<Rightarrow> parse_port_options calls (p, udp_port)))
        else if optarg = ''udp'' then
          (case rest of
             [] \<Rightarrow> Inl (Exit 1)
           | a # _ \<Rightarrow>
               (case atoi a of Inl e \<Rightarrow> Inl e | Inr p \<Rightarrow> parse_port_options calls (tcp_port, p)))
        else Inl (Exit 1)
      else Inl (Exit 1))"

definition parse_command_line_arguments :: "string list \<Rightarrow> int \<times> int \<Rightarrow> stop + int \<times> int" where
  "parse_command_line_arguments argv ports = parse_port_options (getopt ''p'' argv) ports"

text \<open>The region \<open>/port_shared_memory\<close>; \<open>None\<close> when the name does not exist.\<close>

record PortInfo =
  info_tcp_port :: int
  info_udp_port :: int

record region_os =
  shm_open_ok :: bool
  ftruncate_ok :: bool
  mmap_ok :: bool

definition share_ports_shared_memory ::
    "region_os \<Rightarrow> int \<Rightarrow> int \<Rightarrow> PortInfo option \<Rightarrow> PortInfo option" where
  "share_ports_shared_memory os tcp_port udp_port region =
     (if \<not> shm_open_ok os then region
      else if \<not> ftruncate_ok os then None
      else if \<not> mmap_ok os then None
      else Some \<lparr>info_tcp_port = tcp_port, info_udp_port = udp_port\<rparr>)"

section \<open>The clients\<close>

record client_args =
  arg_port :: int
  arg_ipv6 :: bool
  arg_ip_address :: "string option"

fun parse_client_options :: "option_call list \<Rightarrow> bool \<Rightarrow> client_args \<Rightarrow> stop + client_args" where
  "parse_client_options [] address_flag a = Inr a"
| "parse_client_options ((opt, optarg, _) # calls) address_flag a =
     (if opt = CHR ''p'' then
        (case atoi optarg of
           Inl e \<Rightarrow> Inl e
         | Inr p \<Rightarrow> parse_client_options calls address_flag (a\<lparr>arg_port := p\<rparr>))
      else if opt = CHR ''a'' then
        parse_client_options calls True
          (a\<lparr>arg_ipv6 := strstr optarg ''::'', arg_ip_address := Some optarg\<rparr>)
      else if opt = CHR ''t'' then
        if address_flag then Inl (Exit 1)
        else if optarg = ''v4'' then parse_client_options calls address_flag (a\<lparr>arg_ipv6 := False\<rparr>)
        else if optarg = ''v6'' then parse_client_options calls address_flag (a\<lparr>arg_ipv6 := True\<rparr>)
        else Inl (Exit 1)
      else Inl (Exit 1))"

text \<open>The address is a global, which the function leaves alone without \<open>-a\<close>.\<close>

definition parse_command_line_args :: "string list \<Rightarrow> string option \<Rightarrow> stop + client_args" where
  "parse_command_line_args argv ip =
     parse_client_options (getopt ''pat'' argv) False
       \<lparr>arg_port = - 1, arg_ipv6 = False, arg_ip_address = ip\<rparr>"

definition get_port_whith_shared_mem :: "region_os \<Rightarrow> (PortInfo \<Rightarrow> int) \<Rightarrow> PortInfo option \<Rightarrow> int" where
  "get_port_whith_shared_mem os field region =
     (case region of
        None \<Rightarrow> - 1
      | Some info \<Rightarrow> if \<not> shm_open_ok os then - 1 else if \<not> mmap_ok os then - 1 else field info)"

definition tcp_get_port :: "region_os \<Rightarrow> PortInfo option \<Rightarrow> int \<Rightarrow> stop + int" where
  "tcp_get_port os region port =
     (if port = - 1 then
        (let p = get_port_whith_shared_mem os info_tcp_port region in
         if p = - 1 then Inl (Exit 1) else Inr p)
      else Inr port)"

text \<open>The UDP client parses its command line in \<open>get_port\<close>; without \<open>-a\<close> its address stays NULL.\<close>

definition udp_get_port :: "region_os \<Rightarrow> PortInfo option \<Rightarrow> string list \<Rightarrow> stop + int \<times> client_args" where
  "udp_get_port os region argv =
     (case parse_command_line_args argv None of
        Inl e \<Rightarrow> Inl e
      | Inr a \<Rightarrow>
          if arg_port a = - 1 then
            (let p = get_port_whith_shared_mem os info_udp_port region in
             if p = - 1 then Inl (Exit 1) else Inr (p, a))
          else Inr (arg_port a, a))"

section \<open>Theorems\<close>

lemma not_space_digit: "is_digit c \<Longrightarrow> \<not> isspace c"
  by (auto simp: is_digit_def isspace_def)

lemma dropWhile_space_show [simp]: "dropWhile isspace (show_int i @ r) = show_int i @ r"
proof (cases "i < 0")
  case True
  then show ?thesis by (simp add: show_int_def isspace_def byte_def)
next
  case False
  obtain c cs where "show_nat (nat i) = c # cs" "is_digit c" using hd_show_nat by blast
  then show ?thesis using False by (simp add: show_int_def not_space_digit)
qed

lemma digits_show_append [simp]:
  assumes "r = [] \<or> \<not> is_digit (hd r)"
  shows "takeWhile is_digit (show_nat n @ r) = show_nat n" "dropWhile is_digit (show_nat n @ r) = r"
proof -
  have "takeWhile is_digit r = []" "dropWhile is_digit r = r" using assms by (cases r; simp)+
  moreover have "\<And>c. c \<in> set (show_nat n) \<Longrightarrow> is_digit c" by (rule show_nat_digits)
  ultimately show "takeWhile is_digit (show_nat n @ r) = show_nat n"
    "dropWhile is_digit (show_nat n @ r) = r"
    by (simp_all add: takeWhile_append2 dropWhile_append2)
qed

lemma scan_show_int:
  assumes "r = [] \<or> \<not> is_digit (hd r)"
  shows "scan_int (show_int i @ r) = Some (i, r)"
proof (cases "i < 0")
  case True
  then have "strip_sign (show_int i @ r) = (True, 1, show_nat (nat (- i)) @ r)"
    by (simp add: show_int_def strip_sign_def)
  then show ?thesis using True assms by (simp add: scan_int_def)
next
  case False
  obtain c cs where c: "show_nat (nat i) = c # cs" "is_digit c" using hd_show_nat by blast
  then have "strip_sign (show_int i @ r) = (False, 0, show_nat (nat i) @ r)"
    using False by (auto simp: show_int_def strip_sign_def is_digit_def byte_def)
  then show ?thesis using False assms by (simp add: scan_int_def)
qed

lemma atoi_show_int [simp]: "is_int i \<Longrightarrow> atoi (show_int i) = Inr i"
  using scan_show_int [of "[]" i] by (simp add: atoi_def)

lemma getopt_number:
  assumes "\<forall>c \<in> set opts. \<not> is_digit c"
  shows "getopt opts (show_int i # argv) =
    (if 0 \<le> i then getopt opts argv else [(CHR ''?'', '''', argv)])"
proof (cases "i < 0")
  case True
  obtain d ds where d: "show_nat (nat (- i)) = d # ds" "is_digit d" using hd_show_nat by blast
  then have "d \<notin> set opts" "d \<noteq> CHR ''-''" using assms by (auto simp: is_digit_def byte_def)
  then show ?thesis using True d by (simp add: show_int_def)
next
  case False
  obtain d ds where d: "show_nat (nat i) = d # ds" "is_digit d" using hd_show_nat by blast
  then have "d \<noteq> CHR ''-''" by (auto simp: is_digit_def byte_def)
  then show ?thesis using False d by (cases ds) (simp_all add: show_int_def)
qed

lemma getopt_port: "getopt ''p'' (''-p'' # a # argv) = (CHR ''p'', a, argv) # getopt ''p'' argv"
  by simp

text \<open>
  The two ports of a full command line are the ones the server uses; a negative number is
  taken for an option and ends the program, also when it is the default \<open>-1\<close>.
\<close>

theorem command_line_ports:
  assumes "is_int t" and "is_int u"
  shows "parse_command_line_arguments [''-p'', ''tcp'', show_int t, ''-p'', ''udp'', show_int u] ports =
    (if 0 \<le> t \<and> 0 \<le> u then Inr (t, u) else Inl (Exit 1))"
proof -
  have g: "getopt ''p'' (show_int i # argv) =
      (if 0 \<le> i then getopt ''p'' argv else [(CHR ''?'', '''', argv)])" for i argv
    by (rule getopt_number) (simp add: is_digit_def byte_def)
  show ?thesis
    by (cases ports)
      (simp add: parse_command_line_arguments_def getopt_port g assms del: getopt.simps(2))
qed

theorem command_line_ports_witness:
  "parse_command_line_arguments [''-p'', ''tcp'', show_int 8080, ''-p'', ''udp'', show_int 9090] (- 1, - 1) =
    Inr (8080, 9090)"
  using command_line_ports [of 8080 9090 "(- 1, - 1)"] by (simp add: int_bounds)

lemma chosen_ports:
  assumes "choose_ports os tcp_port udp_port cs = Inr ((t, u), cs')"
  shows "t \<noteq> - 1 \<and> u \<noteq> - 1"
  using assms by (auto simp: choose_ports_def run split: if_splits sum.splits
      dest: available_port_not_default)

definition working_sockets :: sock_os where
  "working_sockets = \<lparr>socket_call = (\<lambda>_ _. 3), setsockopt_ok = (\<lambda>_. True), bind_ok = (\<lambda>_ _. True),
     listen_ok = (\<lambda>_. True), getsockname_call = (\<lambda>_. Some (Sockaddr_in 40000 [0, 0, 0, 0])),
     connect_ok = (\<lambda>_. True)\<rparr>"

definition working_region :: region_os where
  "working_region = \<lparr>shm_open_ok = True, ftruncate_ok = True, mmap_ok = True\<rparr>"

end
