(* ===== verification/ClientText.thy ===== *)
theory ClientText
  imports CommandLine World
begin

text \<open>
  What the TCP and the UDP client share: reading lines, the operating system's id out of
  \<open>/etc/os-release\<close>, and what \<open>encode_utf8\<close> makes of it, which is the host name a client sends. The
  functions have the same text in both programs; their lines are given for the TCP client.
\<close>

unbundle bit_operations_syntax

section \<open>Lines and tokens\<close>

abbreviation LF :: char where
  "LF \<equiv> CHR 0x0A"

text \<open>\<open>fgets\<close> into \<open>n\<close> bytes: a line with its newline, or its first \<open>n - 1\<close> bytes; \<open>None\<close>
  at the end of the stream. The bytes not read come second.\<close>

fun line_of :: "nat \<Rightarrow> string \<Rightarrow> string \<times> string" where
  "line_of 0 s = ([], s)"
| "line_of (Suc k) [] = ([], [])"
| "line_of (Suc k) (c # s) =
     (if c = LF then ([c], s) else (let (l, r) = line_of k s in (c # l, r)))"

definition fgets :: "nat \<Rightarrow> string \<Rightarrow> (string \<times> string) option" where
  "fgets n s = (if s = [] then None else Some (line_of (n - 1) s))"

text \<open>A call of \<open>strtok\<close> on a string, and where the next call with NULL goes on.\<close>

definition strtok :: "char list \<Rightarrow> string \<Rightarrow> string option \<times> string" where
  "strtok delimiters s =
     (let t = dropWhile (\<lambda>c. c \<in> set delimiters) s
      in if t = [] then (None, [])
         else (Some (takeWhile (\<lambda>c. c \<notin> set delimiters) t),
               drop 1 (dropWhile (\<lambda>c. c \<notin> set delimiters) t)))"

section \<open>The id of the operating system\<close>

text \<open>The last call continues the second when that returned NULL.\<close>

definition extract_value :: "string \<Rightarrow> string option" where
  "extract_value line =
     (let (_, saved) = strtok ''='' line;
          (token, saved) = strtok ''='' saved
      in fst (strtok [LF] (case token of None \<Rightarrow> saved | Some t \<Rightarrow> t)))"

lemma length_line_of: "line_of k s = (l, r) \<Longrightarrow> length l + length r = length s"
  by (induction k s arbitrary: l r rule: line_of.induct) (auto split: if_splits prod.splits)

lemma line_of_shorter: "s \<noteq> [] \<Longrightarrow> line_of (Suc k) s = (l, r) \<Longrightarrow> length r < length s"
  by (cases s) (auto split: if_splits prod.splits dest: length_line_of)

function find_id :: "string \<Rightarrow> string option" where
  "find_id file =
     (case fgets BUFFER_SIZE file of
        None \<Rightarrow> None
      | Some (line, rest) \<Rightarrow>
          if take 3 line = ''ID='' then extract_value (upto_nul line) else find_id rest)"
  by auto

termination find_id
proof (relation "measure length")
  fix f x line rest
  assume "fgets BUFFER_SIZE f = Some x" "(line, rest) = x"
  then show "(rest, f) \<in> measure length"
    using line_of_shorter [of f "BUFFER_SIZE - 2" line rest]
    by (auto simp: fgets_def BUFFER_SIZE_def numeral_eq_Suc split: if_splits)
qed simp

declare find_id.simps [simp del]

text \<open>\<open>None\<close> for the file is that it cannot be opened, for the id the NULL pointer.\<close>

definition get_os_id :: "string option \<Rightarrow> stop + string option" where
  "get_os_id os_release =
     (case os_release of None \<Rightarrow> Inl (Exit 1) | Some file \<Rightarrow> Inr (find_id file))"

section \<open>UTF-8\<close>

text \<open>\<open>char\<close> is signed: a byte from 128 on is a negative number when it is shifted.\<close>

definition signed_char :: "char \<Rightarrow> int" where
  "signed_char c = (if byte c < 128 then int (byte c) else int (byte c) - 256)"

definition to_char :: "int \<Rightarrow> char" where
  "to_char v = char_of (nat (v mod 256))"

definition utf8_bytes :: "char \<Rightarrow> string" where
  "utf8_bytes c =
     (let v = signed_char c
      in if v AND 0x80 = 0 then [c]
         else if v AND 0xE0 = 0xC0 then
           [to_char (0xC0 OR (drop_bit 6 v AND 0x1F)), to_char (0x80 OR (v AND 0x3F))]
         else if v AND 0xF0 = 0xE0 then
           [to_char (0xE0 OR (drop_bit 12 v AND 0x0F)), to_char (0x80 OR (v AND 0x3F)),
            to_char (0x80 OR (v AND 0x3F))]
         else [])"

text \<open>The loop that fills the \<open>capacity\<close> bytes of the new string, and its terminator.\<close>

fun encode_loop :: "nat \<Rightarrow> string \<Rightarrow> string \<Rightarrow> stop + string" where
  "encode_loop capacity [] utf8_str =
     (if length utf8_str < capacity then Inr utf8_str else Inl (Fault Out_of_bounds))"
| "encode_loop capacity (c # input) utf8_str =
     (if length utf8_str + length (utf8_bytes c) \<le> capacity
      then encode_loop capacity input (utf8_str @ utf8_bytes c)
      else Inl (Fault Out_of_bounds))"

definition encode_utf8 :: "string option \<Rightarrow> string heapm" where
  "encode_utf8 input =
     andthen (deref input) (\<lambda>s.
     andthen alloc (\<lambda>ok.
     if ok then lift (encode_loop (length s * 2 + 1) s []) else halt (Exit 1)))"

text \<open>The host name of a client: \<open>encode_utf8(get_os_id())\<close>.\<close>

definition client_hostname :: "string option \<Rightarrow> string heapm" where
  "client_hostname os_release = andthen (lift (get_os_id os_release)) encode_utf8"

section \<open>Theorems\<close>

lemma encode_loop_result:
  "length out \<le> capacity \<Longrightarrow> encode_loop capacity s out =
    (if length (out @ concat (map utf8_bytes s)) < capacity
     then Inr (out @ concat (map utf8_bytes s)) else Inl (Fault Out_of_bounds))"
  by (induction s arbitrary: out) auto

lemma signed_char_ascii: "byte c < 128 \<Longrightarrow> utf8_bytes c = [c]"
proof -
  assume "byte c < 128"
  then have "0 \<le> signed_char c" "signed_char c < 2 ^ 7" by (auto simp: signed_char_def)
  then have "\<not> bit (signed_char c) 7"
    using bit_take_bit_iff [of 7 "signed_char c" 7] by (simp add: take_bit_int_eq_self)
  then have "signed_char c AND 0x80 = 0"
    using and_exp_eq_0_iff_not_bit [of "signed_char c" 7] by simp
  then show "utf8_bytes c = [c]" by (simp add: utf8_bytes_def)
qed

text \<open>What becomes of a byte. The head of a longer form has all its bits set, since the shifted
  byte is negative, and each byte is its own continuation, twice in the three-byte form.\<close>

definition utf8_form :: "char \<Rightarrow> string" where
  "utf8_form c =
     (let b = byte c; continuation = char_of (128 + b mod 64)
      in if b < 128 then [c]
         else if b < 192 then []
         else if b < 224 then [CHR 0xDF, continuation]
         else if b < 240 then [CHR 0xEF, continuation, continuation]
         else [])"

text \<open>The masks of the branches, for every byte from 128 on.\<close>

lemma utf8_masks:
  "\<forall>n \<in> set [128..<256]. let v = int n - 256 in
     v AND 0x80 \<noteq> 0 \<and> (v AND 0xE0 = 0xC0) = (192 \<le> n \<and> n < 224) \<and>
     (v AND 0xF0 = 0xE0) = (224 \<le> n \<and> n < 240) \<and>
     (192 \<le> n \<longrightarrow> 0xC0 OR (drop_bit 6 v AND 0x1F) = 0xDF \<and> 0xE0 OR (drop_bit 12 v AND 0x0F) = 0xEF)"
  by code_simp

lemma utf8_continuation: "0x80 OR (v AND 0x3F) = 128 + v mod (64 :: int)"
proof -
  have "v AND 0x3F = take_bit 6 v"
    using take_bit_eq_mask [of 6 v] by (simp add: mask_eq_exp_minus_1)
  moreover have "2 ^ 7 OR take_bit 6 v = 2 ^ 7 + take_bit 6 v"
    by (rule disjunctive_add [symmetric]) (unfold bit_take_bit_iff bit_exp_iff, auto)
  ultimately show ?thesis by (simp add: take_bit_eq_mod)
qed

lemma utf8_bytes_form: "utf8_bytes c = utf8_form c"
proof (cases "byte c < 128")
  case True
  then show ?thesis by (simp add: signed_char_ascii utf8_form_def)
next
  case False
  have "byte c < 256" by (simp add: byte_def)
  then have b: "byte c \<in> set [128..<256]" using False by (simp del: upt_rec_numeral)
  have "(int (byte c) - 256) mod 64 = int (byte c mod 64)"
    by (simp add: zmod_int mod_diff_eq [symmetric, of _ 256])
  then have "to_char (0x80 OR ((int (byte c) - 256) AND 0x3F)) = char_of (128 + byte c mod 64)"
    by (simp add: utf8_continuation to_char_def nat_add_distrib nat_mod_distrib)
  moreover have "char_of (0xDF :: nat) = CHR 0xDF" "char_of (0xEF :: nat) = CHR 0xEF"
    by code_simp+
  ultimately show ?thesis
    using bspec [OF utf8_masks b] False
    by (simp add: utf8_bytes_def utf8_form_def signed_char_def Let_def to_char_def)
qed

lemma encode_utf8_run:
  "encode_utf8 (Some s) [] =
    (let out = concat (map utf8_form s)
     in if length out \<le> 2 * length s then Inr (out, []) else Inl (Fault Out_of_bounds))"
  by (simp add: encode_utf8_def run encode_loop_result utf8_bytes_form [abs_def] less_Suc_eq_le
      mult.commute Let_def)

lemma ascii_form: "\<forall>c \<in> set s. byte c < 128 \<Longrightarrow> concat (map utf8_form s) = s"
  by (induction s) (simp_all add: utf8_form_def)

text \<open>
  C31: what \<open>encode_utf8\<close> makes of a host name, byte by byte. ASCII stays as it is; a byte
  \<open>0xC0\<close> to \<open>0xDF\<close> becomes \<open>0xDF\<close> and a continuation with its low six bits, a byte \<open>0xE0\<close> to
  \<open>0xEF\<close> becomes \<open>0xEF\<close> and twice that continuation, and all other bytes are dropped: the name
  is not converted to UTF-8, and a UTF-8 name is not kept. The result is returned as long as it
  is at most twice as long as the name; from then on \<open>encode_utf8\<close> writes behind its buffer,
  which three-byte forms make happen.
\<close>

theorem encode_utf8_result:
  "encode_utf8 (Some s) [] =
    (let out = if \<forall>c \<in> set s. byte c < 128 then s else concat (map utf8_form s)
     in if length out \<le> 2 * length s then Inr (out, []) else Inl (Fault Out_of_bounds))"
  by (simp add: encode_utf8_run ascii_form Let_def)

theorem encode_utf8_result_witness:
  "encode_utf8 (Some ''ubuntu'') [] = Inr (''ubuntu'', []) \<and>
   encode_utf8 (Some [CHR 0xC3, CHR 0xA9, CHR 0xE3, CHR ''x'', CHR 0xF0]) [] =
     Inr ([CHR 0xDF, CHR 0x83, CHR 0xEF, CHR 0xA3, CHR 0xA3, CHR ''x''], []) \<and>
   encode_utf8 (Some [CHR 0xE3]) [] = Inl (Fault Out_of_bounds)"
proof -
  have "utf8_form (CHR 0xC3) = [CHR 0xDF, CHR 0x83]" "utf8_form (CHR 0xA9) = []"
    "utf8_form (CHR 0xE3) = [CHR 0xEF, CHR 0xA3, CHR 0xA3]" "utf8_form (CHR ''x'') = ''x''"
    "utf8_form (CHR 0xF0) = []" by code_simp+
  then show ?thesis
    using encode_utf8_result [of "''ubuntu''"] encode_utf8_result [of "[CHR 0xE3]"]
      encode_utf8_result [of "[CHR 0xC3, CHR 0xA9, CHR 0xE3, CHR ''x'', CHR 0xF0]"]
    by (simp add: byte_def)
qed

lemma line_of_line:
  assumes "LF \<notin> set l" and "length l < n"
  shows "line_of n (l @ LF # s) = (l @ [LF], s)"
  using assms
proof (induction l arbitrary: n)
  case Nil
  then show ?case by (cases n) auto
next
  case (Cons c l)
  then show ?case by (cases n) auto
qed

lemma fgets_line:
  assumes "LF \<notin> set l" and "Suc (length l) < n"
  shows "fgets n (l @ LF # s) = Some (l @ [LF], s)"
  using assms by (simp add: fgets_def line_of_line)

text \<open>The lines before the one the client looks for.\<close>

definition other_line :: "string \<Rightarrow> bool" where
  "other_line l \<longleftrightarrow> LF \<notin> set l \<and> Suc (length l) < BUFFER_SIZE \<and> take 3 l \<noteq> ''ID=''"

definition lines :: "string list \<Rightarrow> string" where
  "lines ls = concat (map (\<lambda>l. l @ [LF]) ls)"

lemma find_id_skip:
  assumes "other_line l"
  shows "find_id (l @ LF # s) = find_id s"
proof -
  have "take 3 (l @ [LF]) \<noteq> ''ID=''"
    using assms by (cases l rule: remdups_adj.cases) (auto simp: other_line_def numeral_eq_Suc take_Cons')
  then show ?thesis
    using assms by (subst find_id.simps) (simp add: fgets_line other_line_def)
qed

lemma find_id_lines: "\<forall>l \<in> set ls. other_line l \<Longrightarrow> find_id (lines ls @ s) = find_id s"
  by (induction ls) (simp_all add: lines_def find_id_skip)

lemma strtok_token:
  assumes "a \<noteq> []" and "\<forall>c \<in> set a. c \<notin> set ds" and "d \<in> set ds"
  shows "strtok ds (a @ d # s) = (Some a, s)"
proof -
  obtain x a' where "a = x # a'" using assms(1) by (cases a) auto
  then have "dropWhile (\<lambda>c. c \<in> set ds) (a @ d # s) = a @ d # s" using assms(2) by simp
  moreover have "takeWhile (\<lambda>c. c \<notin> set ds) (a @ d # s) = a"
    "dropWhile (\<lambda>c. c \<notin> set ds) (a @ d # s) = d # s"
    using assms(2, 3) by (simp_all add: takeWhile_append2 dropWhile_append2)
  ultimately show ?thesis using assms(1) by (simp add: strtok_def Let_def)
qed

lemma strtok_last:
  assumes "a \<noteq> []" and "\<forall>c \<in> set a. c \<notin> set ds"
  shows "strtok ds a = (Some a, [])"
proof -
  obtain x a' where "a = x # a'" using assms(1) by (cases a) auto
  then have "dropWhile (\<lambda>c. c \<in> set ds) a = a" using assms(2) by simp
  moreover have "takeWhile (\<lambda>c. c \<notin> set ds) a = a" "dropWhile (\<lambda>c. c \<notin> set ds) a = []"
    using assms(2) by (simp_all add: takeWhile_eq_all_conv dropWhile_eq_Nil_conv)
  ultimately show ?thesis using assms(1) by (simp add: strtok_def Let_def del: dropWhile_eq_Nil_conv)
qed

lemma extract_value_id:
  assumes "v \<noteq> []" and "CHR ''='' \<notin> set v" and "LF \<notin> set v"
  shows "extract_value (''ID='' @ v @ [LF]) = Some v"
proof -
  have "strtok ''='' (''ID'' @ CHR ''='' # v @ [LF]) = (Some ''ID'', v @ [LF])"
    by (rule strtok_token) auto
  moreover have "strtok ''='' (v @ [LF]) = (Some (v @ [LF]), [])"
    by (rule strtok_last) (use assms in auto)
  moreover have "strtok [LF] (v @ LF # []) = (Some v, [])"
    by (rule strtok_token) (use assms in auto)
  ultimately show ?thesis by (simp add: extract_value_def)
qed

text \<open>What may stand behind \<open>ID=\<close> for the client to find it.\<close>

definition id_value :: "string \<Rightarrow> bool" where
  "id_value v \<longleftrightarrow> v \<noteq> [] \<and> length v + 4 < BUFFER_SIZE \<and>
     (\<forall>c \<in> set v. c \<noteq> NUL \<and> c \<noteq> LF \<and> c \<noteq> CHR ''='' \<and> byte c < 128)"

lemma find_id_value:
  assumes "id_value v"
  shows "find_id (''ID='' @ v @ LF # s) = Some v"
proof -
  have "fgets BUFFER_SIZE ((''ID='' @ v) @ LF # s) = Some ((''ID='' @ v) @ [LF], s)"
    by (rule fgets_line) (use assms in \<open>auto simp: id_value_def\<close>)
  moreover have "upto_nul (''ID='' @ v @ [LF]) = ''ID='' @ v @ [LF]"
    by (rule upto_nul_id) (use assms in \<open>auto simp: id_value_def c_string_def\<close>)
  moreover have "extract_value (''ID='' @ v @ [LF]) = Some v"
    by (rule extract_value_id) (use assms in \<open>auto simp: id_value_def\<close>)
  ultimately show ?thesis by (subst find_id.simps) simp
qed

text \<open>
  A client gives as its host name the value of the \<open>ID\<close> line of \<open>/etc/os-release\<close>,
  whatever lines stand around it; when no line is an \<open>ID\<close> line it goes through a NULL pointer,
  and without the file it ends.
\<close>

theorem client_hostname_is_id:
  assumes "\<forall>l \<in> set ls. other_line l" and "id_value v"
  shows "client_hostname (Some (lines ls @ ''ID='' @ v @ LF # s)) [] = Inr (v, []) \<and>
    client_hostname (Some (lines ls)) [] = Inl (Fault Null_deref) \<and>
    client_hostname None [] = Inl (Exit 1)"
proof -
  have "find_id (lines ls @ ''ID='' @ v @ LF # s) = Some v"
    using assms by (simp add: find_id_lines find_id_value del: append.simps)
  moreover have "find_id (lines ls) = None"
    using find_id_lines [OF assms(1), of "[]"] by (simp add: find_id.simps fgets_def)
  moreover have "encode_loop (length v * 2 + 1) v [] = Inr v"
    using assms(2) by (simp add: encode_loop_result utf8_bytes_form [abs_def] ascii_form id_value_def)
  ultimately show ?thesis
    by (simp add: client_hostname_def get_os_id_def encode_utf8_def run)
qed

definition sample_release :: string where
  "sample_release = lines [''NAME=Ubuntu''] @ ''ID='' @ ''ubuntu'' @ LF # lines [''ID_LIKE=debian'']"

theorem client_hostname_is_id_witness:
  "client_hostname (Some sample_release) [] = Inr (''ubuntu'', [])"
  unfolding sample_release_def
  using client_hostname_is_id [of "[''NAME=Ubuntu'']" "''ubuntu''" "lines [''ID_LIKE=debian'']"]
  by (simp add: other_line_def id_value_def BUFFER_SIZE_def byte_def)

end
