(* ===== verification/TcpClient.thy ===== *)
theory TcpClient
  imports ClientText
begin

text \<open>
  The TCP client (\<open>src/clients/tcp_client.c\<close>). Its parent process turns what the user types
  into requests, its child process reads the server's messages; each has its copy of the
  globals. Standard input is the string of bytes still to come. A function that can call
  \<open>exit\<close> after it has sent something returns the status of that call, so that what was sent
  is part of its result.
\<close>

section \<open>State\<close>

record client =
  client_connected :: bool
  authenticated :: bool
  pid_child :: int
  pid_parent :: int
  stdin :: string
  client_heap :: "bool list"
  calls :: "call list"
  effects :: "effect list"

type_synonym 'a clientm = "(client, 'a) prog"

text \<open>The globals at the start, with the process id of the parent and its input.\<close>

definition fresh_client :: "string \<Rightarrow> client" where
  "fresh_client input =
     \<lparr>client_connected = True, authenticated = False, pid_child = 0, pid_parent = 200, stdin = input,
      client_heap = [], calls = [], effects = []\<rparr>"

definition on_heap :: "'a heapm \<Rightarrow> 'a clientm" where
  "on_heap = zoom client_heap (\<lambda>h s. s\<lparr>client_heap := h\<rparr>)"

definition on_calls :: "'a sockm \<Rightarrow> 'a clientm" where
  "on_calls = zoom calls (\<lambda>c s. s\<lparr>calls := c\<rparr>)"

definition act :: "effect \<Rightarrow> unit clientm" where
  "act x = modify (\<lambda>s. s\<lparr>effects := effects s @ [x]\<rparr>)"

text \<open>How a turn of a loop ends: it goes on (after \<open>continue\<close> or its last statement), the
  function returns, or \<open>exit\<close> was called.\<close>

datatype turn = Again | Returns | Exits int

section \<open>Input\<close>

text \<open>\<open>fgets(input, BUFFER_SIZE, stdin)\<close>, the line as a string; \<open>scanf("%d")\<close>; \<open>getchar()\<close>.\<close>

definition input_line :: "string option clientm" where
  "input_line =
     andthen (gets stdin) (\<lambda>s.
     case fgets BUFFER_SIZE s of
       None \<Rightarrow> ret None
     | Some (line, rest) \<Rightarrow>
         andthen (modify (\<lambda>s. s\<lparr>stdin := rest\<rparr>)) (\<lambda>_. ret (Some (upto_nul line))))"

definition scan_amount :: "int option clientm" where
  "scan_amount =
     andthen (gets stdin) (\<lambda>s.
     case scan_int s of
       None \<Rightarrow> ret None
     | Some (v, rest) \<Rightarrow>
         if is_int v then andthen (modify (\<lambda>s. s\<lparr>stdin := rest\<rparr>)) (\<lambda>_. ret (Some v))
         else fault Signed_overflow)"

definition getchar :: "unit clientm" where
  "getchar = modify (\<lambda>s. s\<lparr>stdin := drop 1 (stdin s)\<rparr>)"

text \<open>What a numbered line of a menu stands for.\<close>

definition menu_lines :: "string list" where
  "menu_lines = [''1'' @ [LF], ''2'' @ [LF], ''3'' @ [LF], ''4'' @ [LF]]"

definition menu_item :: "string list \<Rightarrow> string \<Rightarrow> string option" where
  "menu_item keys input = map_of (zip menu_lines keys) input"

section \<open>Requests\<close>

definition send_json :: "int \<Rightarrow> cJSON option \<Rightarrow> unit clientm" where
  "send_json fd json =
     andthen (on_heap (cJSON_Print json)) (\<lambda>json_string.
     andthen (deref json_string) (\<lambda>s. act (Send fd s)))"

text \<open>
  The dialogue about one kind of resource: the choice, the amount, and the member with both in
  the message. The TCP client allocates the new object before it reads the choice (\<open>early\<close>),
  the UDP client after. \<open>None\<close> is a message not to be sent, with how the turn ends.
\<close>

definition add_amount :: "string \<Rightarrow> string list \<Rightarrow> cJSON option \<Rightarrow> cJSON option \<Rightarrow> string \<Rightarrow>
    (cJSON option + turn) clientm" where
  "add_amount field keys json amounts input =
     andthen scan_amount (\<lambda>amount.
     case amount of
       None \<Rightarrow> ret (Inr Returns)
     | Some v \<Rightarrow>
         andthen getchar (\<lambda>_.
         case menu_item keys input of
           None \<Rightarrow> ret (Inr Again)
         | Some key \<Rightarrow>
             andthen (on_heap (cJSON_AddNumberToObject amounts key (double_of_int v))) (\<lambda>(_, amounts).
             andthen (on_heap (cJSON_AddItemToObject json field amounts)) (\<lambda>(_, json).
             ret (Inl json)))))"

definition ask_amount ::
    "bool \<Rightarrow> string \<Rightarrow> string list \<Rightarrow> cJSON option \<Rightarrow> (cJSON option + turn) clientm" where
  "ask_amount early field keys json =
     andthen (if early then on_heap cJSON_CreateObject else ret None) (\<lambda>before.
     andthen input_line (\<lambda>line.
     case line of
       None \<Rightarrow> ret (Inr Returns)
     | Some input \<Rightarrow>
         andthen (if early then ret before else on_heap cJSON_CreateObject) (\<lambda>amounts.
         add_amount field keys json amounts input)))"

definition food_keys :: "string list" where
  "food_keys = [''meat'', ''vegetables'', ''fruits'', ''water'']"

definition medicine_keys :: "string list" where
  "medicine_keys = [''antibiotics'', ''analgesics'', ''bandages'']"

definition ask_update :: "bool \<Rightarrow> cJSON option heapm \<Rightarrow> (cJSON option + turn) clientm" where
  "ask_update early request =
     andthen input_line (\<lambda>line.
     case line of
       None \<Rightarrow> ret (Inr Returns)
     | Some input \<Rightarrow>
         andthen (on_heap request) (\<lambda>json.
         if input = ''1'' @ [LF] then ask_amount early ''food'' food_keys json
         else if input = ''2'' @ [LF] then ask_amount early ''medicine'' medicine_keys json
         else ret (Inr Again)))"

text \<open>A turn of \<open>handle_user_input\<close>. In the parent the child's process id is not 0.\<close>

definition disconnect :: "int \<Rightarrow> turn clientm" where
  "disconnect fd = andthen (act (Close fd)) (\<lambda>_. ret (Exits 0))"

text \<open>The handler of SIGINT, the same in both clients.\<close>

definition handle_sigint :: "unit clientm" where
  "handle_sigint = andthen (modify (\<lambda>s. s\<lparr>client_connected := False\<rparr>)) (\<lambda>_. halt (Exit 0))"

definition tcp_choice :: "int \<Rightarrow> string \<Rightarrow> turn clientm" where
  "tcp_choice fd input =
     (if input = ''1'' @ [LF] then
        andthen (on_heap (message_object ''status'')) (\<lambda>json.
        andthen (send_json fd json) (\<lambda>_. ret Again))
      else if input = ''2'' @ [LF] then
        andthen (gets authenticated) (\<lambda>ok.
        if \<not> ok then ret Again
        else
          andthen (ask_update True (message_object ''update'')) (\<lambda>r.
          case r of
            Inr t \<Rightarrow> ret t
          | Inl json \<Rightarrow> andthen (send_json fd json) (\<lambda>_. ret Again)))
      else if input = ''3'' @ [LF] then
        andthen (on_heap (message_object ''summary'')) (\<lambda>json.
        andthen (send_json fd json) (\<lambda>_. ret Again))
      else if input = ''4'' @ [LF] then
        andthen (gets pid_child) (\<lambda>pid.
        andthen (if pid \<noteq> 0 then act (Kill pid) else ret ()) (\<lambda>_.
        andthen (modify (\<lambda>s. s\<lparr>client_connected := False\<rparr>)) (\<lambda>_.
        disconnect fd)))
      else ret Again)"

text \<open>The loop; a turn reads a byte or ends it, so the length of the input is enough fuel.\<close>

primrec input_loop :: "(string \<Rightarrow> turn clientm) \<Rightarrow> nat \<Rightarrow> turn clientm" where
  "input_loop choice 0 = halt Out_of_fuel"
| "input_loop choice (Suc fuel) =
     andthen (gets client_connected) (\<lambda>on.
     if \<not> on then ret Returns
     else
       andthen input_line (\<lambda>line.
       case line of
         None \<Rightarrow> ret Returns
       | Some input \<Rightarrow>
           andthen (choice input) (\<lambda>t.
           case t of Again \<Rightarrow> input_loop choice fuel | _ \<Rightarrow> ret t)))"

definition handle_user_input :: "int \<Rightarrow> turn clientm" where
  "handle_user_input fd =
     andthen (gets stdin) (\<lambda>s. input_loop (tcp_choice fd) (Suc (length s)))"

section \<open>Messages of the server\<close>

text \<open>
  \<open>receive_json\<close> in the child process; the buffer is cleared before. What \<open>printf\<close> prints of a
  JSON text that could not be allocated is its own affair.
\<close>

definition receive_json :: "int \<Rightarrow> nat \<Rightarrow> string option \<Rightarrow> turn clientm" where
  "receive_json fd limit received =
     (case received of
        None \<Rightarrow> ret Again
      | Some available \<Rightarrow>
          let bytes = take BUFFER_SIZE available in
          if bytes = [] then disconnect fd
          else
            andthen (lift (cstr (bytes @ replicate (BUFFER_SIZE - length bytes) NUL))) (\<lambda>buffer.
            andthen (on_heap (cJSON_Parse limit buffer)) (\<lambda>json.
            if json = None then ret Again
            else
              andthen (on_heap (cJSON_Print json)) (\<lambda>_.
              case cJSON_GetObjectItem json ''message'' of
                None \<Rightarrow> ret Again
              | Some message \<Rightarrow>
                  andthen (deref (valuestring message)) (\<lambda>message_value.
                  if message_value = ''auth_success'' then
                    andthen (modify (\<lambda>s. s\<lparr>authenticated := True\<rparr>)) (\<lambda>_. ret Again)
                  else if message_value = ''auth_failure'' then ret Again
                  else if message_value = ''disconnect'' then
                    andthen (gets pid_parent) (\<lambda>pid.
                    andthen (act (Kill pid)) (\<lambda>_. ret (Exits 0)))
                  else andthen (on_heap (cJSON_Print json)) (\<lambda>_. ret Again))))))"

text \<open>The loop of the child over what the calls of \<open>recv\<close> return; at the end of the list the
  child waits in the next call.\<close>

primrec handle_server_messages :: "int \<Rightarrow> nat \<Rightarrow> string option list \<Rightarrow> turn clientm" where
  "handle_server_messages fd limit [] = ret Again"
| "handle_server_messages fd limit (r # rs) =
     andthen (gets client_connected) (\<lambda>on.
     if \<not> on then disconnect fd
     else
       andthen (receive_json fd limit r) (\<lambda>t.
       case t of Again \<Rightarrow> handle_server_messages fd limit rs | _ \<Rightarrow> ret t))"

section \<open>Connecting and starting\<close>

text \<open>The message is built after the host name is known.\<close>

definition authentication_object :: "string \<Rightarrow> cJSON option heapm" where
  "authentication_object hostname =
     andthen (message_object ''authenticateme'') (\<lambda>json.
     andthen (cJSON_AddStringToObject json ''hostname'' (Some hostname)) (\<lambda>(_, json).
     ret json))"

definition tcp_client_authenticate :: "int \<Rightarrow> string option \<Rightarrow> unit clientm" where
  "tcp_client_authenticate fd os_release =
     andthen (on_heap (client_hostname os_release)) (\<lambda>utf8_os_id.
     andthen (on_heap (authentication_object utf8_os_id)) (\<lambda>json.
     send_json fd json))"

text \<open>An address \<open>getaddrinfo\<close> found, with what \<open>socket\<close> and \<open>connect\<close> answer for it.\<close>

record attempt =
  family_type :: "domain \<times> socket_type"
  target :: address
  got_socket :: int
  connects :: bool

fun try_addresses :: "attempt list \<Rightarrow> int sockm" where
  "try_addresses [] = halt (Exit 1)"
| "try_addresses (rp # rest) =
     andthen (sys (Socket (fst (family_type rp)) (snd (family_type rp)))) (\<lambda>_.
     let sfd = got_socket rp in
     if sfd = - 1 then try_addresses rest
     else
       andthen (sys (Connect sfd (target rp))) (\<lambda>_.
       if connects rp then ret sfd
       else andthen (sys (Close_fd sfd)) (\<lambda>_. try_addresses rest)))"

type_synonym resolver = "string \<Rightarrow> string \<Rightarrow> attempt list option"

definition do_connect :: "resolver \<Rightarrow> string \<Rightarrow> string \<Rightarrow> int sockm" where
  "do_connect getaddrinfo host port =
     (case getaddrinfo host port of None \<Rightarrow> halt (Exit 1) | Some result \<Rightarrow> try_addresses result)"

definition establish_connection :: "resolver \<Rightarrow> string \<Rightarrow> int \<Rightarrow> int sockm" where
  "establish_connection getaddrinfo ip_address port =
     do_connect getaddrinfo ip_address (snprintf 6 (show_int port))"

definition SERVER_IP_V4_LOOP :: string where "SERVER_IP_V4_LOOP = ''127.0.0.1''"
definition SERVER_IP_V6_LOOP :: string where "SERVER_IP_V6_LOOP = ''::1''"

text \<open>What a client finds on its machine: the shared memory of the server, the name service,
  the file with the system's name.\<close>

record machine =
  region_calls :: region_os
  ports_region :: "PortInfo option"
  getaddrinfo :: resolver
  os_release_file :: "string option"

text \<open>\<open>main\<close> up to the two processes, with the result of \<open>fork\<close>; both go on with the socket.\<close>

definition tcp_client_start :: "machine \<Rightarrow> int \<Rightarrow> string list \<Rightarrow> int clientm" where
  "tcp_client_start m forked argv =
     andthen (lift (parse_command_line_args argv None)) (\<lambda>a.
     andthen (lift (tcp_get_port (region_calls m) (ports_region m) (arg_port a))) (\<lambda>port.
     let ip_address = (case arg_ip_address a of
         None \<Rightarrow> if arg_ipv6 a then SERVER_IP_V6_LOOP else SERVER_IP_V4_LOOP
       | Some ip \<Rightarrow> ip) in
     andthen (on_calls (establish_connection (getaddrinfo m) ip_address port)) (\<lambda>fd.
     andthen (gets authenticated) (\<lambda>ok.
     andthen
       (if ok then ret ()
        else
          andthen (tcp_client_authenticate fd (os_release_file m)) (\<lambda>_.
          modify (\<lambda>s. s\<lparr>authenticated := True\<rparr>))) (\<lambda>_.
     andthen (modify (\<lambda>s. s\<lparr>pid_child := forked\<rparr>)) (\<lambda>_.
     if forked = - 1 then halt (Exit 1) else ret fd))))))"

definition tcp_client_parent :: "machine \<Rightarrow> int \<Rightarrow> string list \<Rightarrow> turn clientm" where
  "tcp_client_parent m forked argv = andthen (tcp_client_start m forked argv) handle_user_input"

end
