(* ===== verification/UdpClient.thy ===== *)
theory UdpClient
  imports TcpClient
begin

text \<open>
  The UDP client (\<open>src/clients/udp_client.c\<close>). Its dialogue with the user is that of the TCP
  client but for the host name in every message, which the client works out once, and for
  the end of the session; the state is the same record, without the connection.
\<close>

section \<open>The server's address\<close>

text \<open>
  \<open>pton\<close> is the conversion of a numeric address; a text it does not accept leaves the zeros of
  the static structure. Without the option \<open>-a\<close> there is no text at all.
\<close>

definition set_server_addr ::
    "(string \<Rightarrow> 8 word list option) \<Rightarrow> int \<Rightarrow> bool \<Rightarrow> string option \<Rightarrow> stop + sockaddr" where
  "set_server_addr pton port ipv6 ip_address =
     (case ip_address of
        None \<Rightarrow> Inl (Fault Null_deref)
      | Some ip \<Rightarrow>
          Inr (if ipv6
               then Sockaddr_in6 (port16 port) (replicate 4 0)
                      (case pton ip of None \<Rightarrow> replicate 16 0 | Some a \<Rightarrow> a)
               else Sockaddr_in (port16 port)
                      (case pton ip of None \<Rightarrow> replicate 4 0 | Some a \<Rightarrow> a)))"

definition udp_establish_connection :: "(string \<Rightarrow> 8 word list option) \<Rightarrow> (domain \<Rightarrow> int) \<Rightarrow>
    int \<Rightarrow> bool \<Rightarrow> string option \<Rightarrow> (int \<times> sockaddr) sockm" where
  "udp_establish_connection pton new_fd port ipv6 ip_address =
     (let d = (if ipv6 then AF_INET6 else AF_INET) in
      andthen (must (Socket d SOCK_DGRAM) (0 \<le> new_fd d)) (\<lambda>_.
      andthen (lift (set_server_addr pton port ipv6 ip_address)) (\<lambda>addr.
      ret (new_fd d, addr))))"

section \<open>Sending\<close>

definition addr_size :: "sockaddr \<Rightarrow> nat" where
  "addr_size addr = (case addr of Sockaddr_in _ _ \<Rightarrow> 16 | _ \<Rightarrow> 28)"

text \<open>The message has to fit into a buffer with its terminator. The effect is the call of
  \<open>sendto\<close>: whether it succeeds only decides what the functions of the two families print.\<close>

definition send_to_server_v4 :: "int \<Rightarrow> string \<Rightarrow> sockaddr \<Rightarrow> unit clientm" where
  "send_to_server_v4 fd message server_addr =
     (if BUFFER_SIZE \<le> length message then ret ()
      else act (Sendto fd server_addr (addr_size server_addr) message))"

definition send_to_server_v6 :: "int \<Rightarrow> string \<Rightarrow> sockaddr \<Rightarrow> unit clientm" where
  "send_to_server_v6 fd message server_addr =
     (if BUFFER_SIZE \<le> length message then ret ()
      else act (Sendto fd server_addr (addr_size server_addr) message))"

definition sendJson_v4 :: "int \<Rightarrow> cJSON option \<Rightarrow> sockaddr \<Rightarrow> unit clientm" where
  "sendJson_v4 fd json server_addr =
     andthen (on_heap (cJSON_Print json)) (\<lambda>json_string.
     case json_string of
       None \<Rightarrow> ret ()
     | Some s \<Rightarrow> send_to_server_v4 fd s server_addr)"

definition sendJson_v6 :: "int \<Rightarrow> cJSON option \<Rightarrow> sockaddr \<Rightarrow> unit clientm" where
  "sendJson_v6 fd json server_addr =
     andthen (on_heap (cJSON_Print json)) (\<lambda>json_string.
     case json_string of
       None \<Rightarrow> ret ()
     | Some s \<Rightarrow> send_to_server_v6 fd s server_addr)"

text \<open>The choice between the two, which the client makes wherever it sends.\<close>

definition sendJson :: "bool \<Rightarrow> int \<Rightarrow> cJSON option \<Rightarrow> sockaddr \<Rightarrow> unit clientm" where
  "sendJson ipv6 fd json server_addr =
     (if ipv6 then sendJson_v6 fd json server_addr else sendJson_v4 fd json server_addr)"

section \<open>The user's dialogue\<close>

definition host_message :: "string \<Rightarrow> string \<Rightarrow> cJSON option heapm" where
  "host_message hostname text =
     andthen cJSON_CreateObject (\<lambda>json.
     andthen (cJSON_AddStringToObject json ''hostname'' (Some hostname)) (\<lambda>(_, json).
     andthen (cJSON_AddStringToObject json ''message'' (Some text)) (\<lambda>(_, json).
     ret json)))"

text \<open>\<open>disconnect\<close> only closes the socket here; after \<open>4\<close> the loop ends by its condition.\<close>

definition udp_disconnect :: "int \<Rightarrow> unit clientm" where
  "udp_disconnect fd = act (Close fd)"

declare udp_disconnect_def [simp]

definition udp_choice :: "bool \<Rightarrow> int \<Rightarrow> sockaddr \<Rightarrow> string \<Rightarrow> string \<Rightarrow> turn clientm" where
  "udp_choice ipv6 fd server_addr hostname input =
     (if input = ''1'' @ [LF] then
        andthen (on_heap (host_message hostname ''status'')) (\<lambda>json.
        andthen (sendJson ipv6 fd json server_addr) (\<lambda>_. ret Again))
      else if input = ''2'' @ [LF] then
        andthen (ask_update False (host_message hostname ''update'')) (\<lambda>r.
        case r of
          Inr t \<Rightarrow> ret t
        | Inl json \<Rightarrow> andthen (sendJson ipv6 fd json server_addr) (\<lambda>_. ret Again))
      else if input = ''3'' @ [LF] then
        andthen (on_heap (host_message hostname ''summary'')) (\<lambda>json.
        andthen (sendJson ipv6 fd json server_addr) (\<lambda>_. ret Again))
      else if input = ''4'' @ [LF] then
        andthen (gets pid_child) (\<lambda>pid.
        andthen (if pid \<noteq> 0 then act (Kill pid) else ret ()) (\<lambda>_.
        andthen (modify (\<lambda>s. s\<lparr>client_connected := False\<rparr>)) (\<lambda>_.
        andthen (udp_disconnect fd) (\<lambda>_. ret Again))))
      else ret Again)"

definition udp_handle_user_input ::
    "bool \<Rightarrow> int \<Rightarrow> sockaddr \<Rightarrow> string option \<Rightarrow> turn clientm" where
  "udp_handle_user_input ipv6 fd server_addr os_release =
     andthen (on_heap (client_hostname os_release)) (\<lambda>utf8_os_id.
     andthen (gets stdin) (\<lambda>s.
     input_loop (udp_choice ipv6 fd server_addr utf8_os_id) (Suc (length s))))"

section \<open>Messages of the server\<close>

definition handle_received_json :: "nat \<Rightarrow> string \<Rightarrow> unit clientm" where
  "handle_received_json limit text =
     andthen (on_heap (cJSON_Parse limit text)) (\<lambda>json.
     if json = None then ret () else andthen (on_heap (cJSON_Print json)) (\<lambda>_. ret ()))"

definition receive_and_handle_json :: "nat \<Rightarrow> string option \<Rightarrow> unit clientm" where
  "receive_and_handle_json limit received =
     (case received of
        None \<Rightarrow> ret ()
      | Some available \<Rightarrow>
          let bytes = take BUFFER_SIZE available in
          if bytes = [] then ret ()
          else andthen (lift (received_string BUFFER_SIZE bytes)) (handle_received_json limit))"

text \<open>The loop of the child over what the calls of \<open>recvfrom\<close> return; at the end of the list
  the child waits in the next call.\<close>

primrec udp_handle_server_messages :: "int \<Rightarrow> nat \<Rightarrow> string option list \<Rightarrow> unit clientm" where
  "udp_handle_server_messages fd limit [] = ret ()"
| "udp_handle_server_messages fd limit (r # rs) =
     andthen (gets client_connected) (\<lambda>on.
     if \<not> on then udp_disconnect fd
     else
       andthen (receive_and_handle_json limit r) (\<lambda>_. udp_handle_server_messages fd limit rs))"

section \<open>The start\<close>

definition udp_client_start ::
    "machine \<Rightarrow> (string \<Rightarrow> 8 word list option) \<Rightarrow> (domain \<Rightarrow> int) \<Rightarrow> int \<Rightarrow> string list \<Rightarrow>
     (bool \<times> int \<times> sockaddr) clientm" where
  "udp_client_start m pton new_fd forked argv =
     andthen (lift (udp_get_port (region_calls m) (ports_region m) argv)) (\<lambda>(port, a).
     andthen (on_calls (udp_establish_connection pton new_fd port (arg_ipv6 a) (arg_ip_address a))) (\<lambda>(fd, addr).
     andthen (modify (\<lambda>s. s\<lparr>pid_child := forked\<rparr>)) (\<lambda>_.
     if forked = - 1 then halt (Exit 1) else ret (arg_ipv6 a, fd, addr))))"

definition udp_client_parent ::
    "machine \<Rightarrow> (string \<Rightarrow> 8 word list option) \<Rightarrow> (domain \<Rightarrow> int) \<Rightarrow> int \<Rightarrow> string list \<Rightarrow>
     turn clientm" where
  "udp_client_parent m pton new_fd forked argv =
     andthen (udp_client_start m pton new_fd forked argv) (\<lambda>(ipv6, fd, addr).
     udp_handle_user_input ipv6 fd addr (os_release_file m))"

section \<open>Theorems\<close>

text \<open>
  A UDP client that is not given the server's address with \<open>-a\<close> never gets to its menu:
  its default address is the NULL pointer.
\<close>

theorem udp_client_needs_address:
  assumes "udp_get_port (region_calls m) (ports_region m) argv = Inr (port, a)"
    and "arg_ip_address a = None" and "0 \<le> new_fd (if arg_ipv6 a then AF_INET6 else AF_INET)"
  shows "udp_client_parent m pton new_fd forked argv s = Inl (Fault Null_deref)"
  using assms by (simp add: udp_client_parent_def udp_client_start_def run on_calls_def Let_def
      udp_establish_connection_def must_def sys_def set_server_addr_def)

theorem udp_client_needs_address_witness:
  "udp_client_parent \<lparr>region_calls = working_region,
       ports_region = Some \<lparr>info_tcp_port = 8080, info_udp_port = 9090\<rparr>,
       getaddrinfo = (\<lambda>_ _. None), os_release_file = Some sample_release\<rparr>
     (\<lambda>_. None) (\<lambda>_. 3) 100 [] (fresh_client ''1'') = Inl (Fault Null_deref)"
  by (rule udp_client_needs_address
      [where port = 9090 and a = "\<lparr>arg_port = - 1, arg_ipv6 = False, arg_ip_address = None\<rparr>"])
    (simp_all add: udp_get_port_def parse_command_line_args_def get_port_whith_shared_mem_def
      working_region_def)

end
