(* ===== verification/ClientFacts.thy ===== *)
theory ClientFacts
  imports UdpClient WorldFacts RoundTrip
begin

text \<open>
  The sessions of the two clients: what the user types as a list of commands, the messages the
  commands stand for, and that the loops send exactly these. A client's loop always ends, by
  the end of its input at the latest.
\<close>

section \<open>Commands and their messages\<close>

text \<open>An update is a kind of resource (food or not), a number in its menu and an amount.\<close>

datatype command = Status | Summary | Update bool nat int

definition keys :: "bool \<Rightarrow> string list" where
  "keys food = (if food then food_keys else medicine_keys)"

definition part :: "bool \<Rightarrow> string" where
  "part food = (if food then ''food'' else ''medicine'')"

fun valid :: "command \<Rightarrow> bool" where
  "valid (Update food i v) \<longleftrightarrow> i < length (keys food) \<and> is_int v"
| "valid _ \<longleftrightarrow> True"

fun typed :: "command \<Rightarrow> string" where
  "typed Status = ''1'' @ [LF]"
| "typed Summary = ''3'' @ [LF]"
| "typed (Update food i v) =
     (''2'' @ [LF]) @ ((if food then ''1'' else ''2'') @ [LF]) @ menu_lines ! i @ show_int v @ [LF]"

fun request_text :: "command \<Rightarrow> string" where
  "request_text Status = ''status''"
| "request_text Summary = ''summary''"
| "request_text (Update _ _ _) = ''update''"

fun amounts :: "command \<Rightarrow> cJSON list" where
  "amounts (Update food i v) =
     [member (part food) (json_object [member (keys food ! i) (json_int v)])]"
| "amounts _ = []"

definition tcp_message :: "command \<Rightarrow> cJSON" where
  "tcp_message c = json_object (member ''message'' (json_string (request_text c)) # amounts c)"

definition udp_message :: "string \<Rightarrow> command \<Rightarrow> cJSON" where
  "udp_message hostname c =
     json_object (member ''hostname'' (json_string hostname) #
       member ''message'' (json_string (request_text c)) # amounts c)"

section \<open>Reading the input\<close>

lemma on_heap_run: "client_heap s = [] \<Longrightarrow> m [] = Inr (x, []) \<Longrightarrow> on_heap m s = Inr (x, s)"
  by (simp add: on_heap_def run)

lemma input_line_run:
  assumes "stdin s = l @ LF # r" and "LF \<notin> set l" and "NUL \<notin> set l" and "length l < 100"
  shows "input_line s = Inr (Some (l @ [LF]), s\<lparr>stdin := r\<rparr>)"
proof -
  have "fgets BUFFER_SIZE (stdin s) = Some (l @ [LF], r)"
    unfolding assms(1) by (rule fgets_line) (use assms in \<open>simp_all add: BUFFER_SIZE_def\<close>)
  moreover have "upto_nul (l @ [LF]) = l @ [LF]"
    by (rule upto_nul_id) (use assms in \<open>auto simp: c_string_def\<close>)
  ultimately show ?thesis by (simp add: input_line_def run)
qed

lemma scan_amount_run:
  "stdin s = show_int v @ LF # r \<Longrightarrow> is_int v \<Longrightarrow> scan_amount s = Inr (Some v, s\<lparr>stdin := LF # r\<rparr>)"
  using scan_show_int [of "LF # r" v]
  by (simp add: scan_amount_def run is_digit_def byte_def)

lemma menu_line:
  assumes "i < 4"
  shows "\<exists>l. menu_lines ! i = l @ [LF] \<and> LF \<notin> set l \<and> NUL \<notin> set l \<and> length l < 100"
proof -
  have "i \<in> {0, 1, 2, 3}" using assms by auto
  then show ?thesis
    by (elim insertE emptyE)
      (rule exI [of _ "''1''"] exI [of _ "''2''"] exI [of _ "''3''"] exI [of _ "''4''"],
        simp add: menu_lines_def)+
qed

lemma keys_length: "length (keys food) = (if food then 4 else 3)"
  by (simp add: keys_def food_keys_def medicine_keys_def)

lemma menu_item_line: "i < length (keys food) \<Longrightarrow> menu_item (keys food) (menu_lines ! i) = Some (keys food ! i)"
  by (cases food; auto simp: menu_item_def menu_lines_def keys_def food_keys_def medicine_keys_def
      less_Suc_eq)

text \<open>The dialogue of an update adds the amount to the message.\<close>

lemma ask_amount_run:
  assumes h: "client_heap s = []" and v: "i < length (keys food)" "is_int v"
    and typed: "stdin s = menu_lines ! i @ show_int v @ LF # r"
  shows "ask_amount early (part food) (keys food) (Some (json_object ms)) s =
    Inr (Inl (Some (json_object (ms @
      [member (part food) (json_object [member (keys food ! i) (json_int v)])]))), s\<lparr>stdin := r\<rparr>)"
proof -
  have "i < 4" using v(1) keys_length [of food] by (auto split: if_splits)
  then obtain l where l: "menu_lines ! i = l @ [LF]" "LF \<notin> set l" "NUL \<notin> set l" "length l < 100"
    using menu_line by blast
  have "input_line s = Inr (Some (menu_lines ! i), s\<lparr>stdin := show_int v @ LF # r\<rparr>)"
    using input_line_run [of s l "show_int v @ LF # r"] l typed by simp
  then show ?thesis
    using h v scan_amount_run [of "s\<lparr>stdin := show_int v @ LF # r\<rparr>" v r] menu_item_line [OF v(1)]
    by (simp add: ask_amount_def add_amount_def run on_heap_run getchar_def)
qed

lemma ask_update_run:
  assumes h: "client_heap s = []" and v: "i < length (keys food)" "is_int v"
    and req: "request [] = Inr (Some (json_object ms), [])"
    and typed: "stdin s = ((if food then ''1'' else ''2'') @ [LF]) @ menu_lines ! i @ show_int v @ LF # r"
  shows "ask_update early request s =
    Inr (Inl (Some (json_object (ms @
      [member (part food) (json_object [member (keys food ! i) (json_int v)])]))), s\<lparr>stdin := r\<rparr>)"
proof -
  let ?c = "if food then ''1'' else ''2''"
  let ?s = "s\<lparr>stdin := menu_lines ! i @ show_int v @ LF # r\<rparr>"
  have "input_line s = Inr (Some (?c @ [LF]), ?s)"
    by (rule input_line_run) (use typed in auto)
  moreover have "ask_amount early (part food) (keys food) (Some (json_object ms)) ?s =
    Inr (Inl (Some (json_object (ms @
      [member (part food) (json_object [member (keys food ! i) (json_int v)])]))), s\<lparr>stdin := r\<rparr>)"
    using ask_amount_run [of ?s i food v r early ms] h v by simp
  ultimately show ?thesis
    using h req by (cases food) (simp_all add: ask_update_def run on_heap_run part_def keys_def)
qed

section \<open>Building and sending the messages\<close>

lemma host_message_Nil:
  "host_message h text [] = Inr (Some (json_object
    [member ''hostname'' (json_string h), member ''message'' (json_string text)]), [])"
  by (simp add: host_message_def run)

lemma keys_text: "i < length (keys food) \<Longrightarrow> c_string (keys food ! i) \<and> length (keys food ! i) \<le> 11"
  by (cases food; auto simp: keys_def food_keys_def medicine_keys_def less_Suc_eq)

lemma short_amounts:
  assumes "valid (Update food i v)"
  shows "short_text (json_object [member (keys food ! i) (json_int v)]) 1 100"
  by (rule short_object [where ms = "[(keys food ! i, json_int v, 11)]"])
    (use assms keys_text [of i food] in \<open>simp_all add: short_int\<close>)

lemma short_requests [simp]:
  "short_text (json_string ''status'') d 50" "short_text (json_string ''summary'') d 50"
  "short_text (json_string ''update'') d 50"
  by (simp_all add: short_string)

lemma short_tcp_message:
  assumes "valid c"
  shows "short_text (tcp_message c) 0 300"
proof -
  have "short_text (json_object [member ''message'' (json_string t)]) 0 300"
    if "t \<in> {''status'', ''summary''}" for t
    by (rule short_object [where ms = "[(''message'', json_string t, 50)]"]) (use that in auto)
  moreover have "short_text (json_object [member ''message'' (json_string ''update''),
      member (part food) (json_object [member (keys food ! i) (json_int v)])]) 0 300"
    if "valid (Update food i v)" for food i v
    by (rule short_object [where ms = "[(''message'', json_string ''update'', 50),
        (part food, json_object [member (keys food ! i) (json_int v)], 100)]"])
      (use short_amounts [OF that] in \<open>simp_all add: part_def\<close>)
  ultimately show ?thesis using assms by (cases c) (auto simp: tcp_message_def)
qed

lemma short_udp_message:
  assumes "valid c" and h: "c_string h" "length h \<le> 80"
  shows "short_text (udp_message h c) 0 900"
proof -
  have "short_text (json_object [member ''hostname'' (json_string h), member ''message'' (json_string t)]) 0 900"
    if "t \<in> {''status'', ''summary''}" for t
    by (rule short_object [where ms = "[(''hostname'', json_string h, 482), (''message'', json_string t, 50)]"])
      (use that h in \<open>auto simp: short_string\<close>)
  moreover have "short_text (json_object [member ''hostname'' (json_string h),
      member ''message'' (json_string ''update''),
      member (part food) (json_object [member (keys food ! i) (json_int v)])]) 0 900"
    if "valid (Update food i v)" for food i v
    by (rule short_object [where ms = "[(''hostname'', json_string h, 482), (''message'', json_string ''update'', 50),
        (part food, json_object [member (keys food ! i) (json_int v)], 100)]"])
      (use short_amounts [OF that] h in \<open>simp_all add: part_def short_string\<close>)
  ultimately show ?thesis using assms by (cases c) (auto simp: udp_message_def)
qed

text \<open>The messages are read back by a parser as what they are.\<close>

lemma parse_text_of:
  assumes "plain t" and "name t = None" and "nesting t \<le> limit" and "r = [] \<or> \<not> number_char (hd r)"
  shows "cJSON_Parse limit (text_of t @ r) [] = Inr (Some t, [])"
proof -
  obtain s where "render True 0 t = Some s" using plain_renders [OF assms(1)] by blast
  then show ?thesis using parse_rendered_prefix [OF assms(1, 2) _ assms(3, 4)] by (simp add: text_of_def)
qed

lemma c_string_text_of:
  assumes "plain t" and "name t = None"
  shows "c_string (text_of t)"
proof -
  obtain s where "render True 0 t = Some s" using plain_renders [OF assms(1)] by blast
  then show ?thesis using c_string_render [OF plain_printable] assms by (simp add: text_of_def)
qed

lemma text_of_nonempty: "plain t \<Longrightarrow> text_of t \<noteq> []"
  using plain_renders [of t True 0] value_read [of t True 0 "text_of t" "length (text_of t)" 0 "nesting t"]
  by (auto simp: text_of_def opens_def)

lemma send_json_short:
  "client_heap s = [] \<Longrightarrow> short_text it 0 n \<Longrightarrow> n \<le> 5000 \<Longrightarrow>
   send_json fd (Some it) s = Inr ((), s\<lparr>effects := effects s @ [Send fd (text_of it)]\<rparr>)"
  by (simp add: send_json_def run on_heap_run cJSON_Print_short act_def)

text \<open>The call of \<open>sendto\<close> for a text.\<close>

definition datagrams :: "int \<Rightarrow> sockaddr \<Rightarrow> string \<Rightarrow> effect list" where
  "datagrams fd addr text = [Sendto fd addr (addr_size addr) text]"

lemma text_of_length: "short_text it 0 n \<Longrightarrow> length (text_of it) \<le> n"
  by (auto simp: short_text_def text_of_def)

lemma sendJson_short:
  "client_heap s = [] \<Longrightarrow> short_text it 0 n \<Longrightarrow> n < BUFFER_SIZE \<Longrightarrow>
   sendJson ipv6 fd (Some it) addr s =
     Inr ((), s\<lparr>effects := effects s @ datagrams fd addr (text_of it)\<rparr>)"
  using text_of_length [of it n]
  by (simp add: sendJson_def run on_heap_run cJSON_Print_short BUFFER_SIZE_def sendJson_v4_def
      sendJson_v6_def send_to_server_v4_def send_to_server_v6_def act_def datagrams_def)

section \<open>Sessions\<close>

text \<open>
  What the loop needs of a client: the turn of a valid command does nothing but read it and
  send its message; and any line read leaves the client ready, without reading backwards.
\<close>

definition shrinks :: "nat \<Rightarrow> ('a \<Rightarrow> client \<Rightarrow> bool) \<Rightarrow> 'a clientm \<Rightarrow> client \<Rightarrow> bool" where
  "shrinks n Q m s \<longleftrightarrow> wp m (\<lambda>r s'. length (stdin s') \<le> n \<and> Q r s') (\<lambda>e. e = Fault Signed_overflow) s"

locale dialogue =
  fixes choice :: "string \<Rightarrow> turn clientm"
    and ready :: "client \<Rightarrow> bool"
    and sends :: "command \<Rightarrow> effect list"
  assumes turn: "ready s \<Longrightarrow> valid c \<Longrightarrow> stdin s = typed c @ r \<Longrightarrow>
      \<exists>l s1. input_line s = Inr (Some l, s1) \<and>
        choice l s1 = Inr (Again, s\<lparr>stdin := r, effects := effects s @ sends c\<rparr>)"
    and connected_client: "ready s \<Longrightarrow> client_connected s"
    and frame: "ready s \<Longrightarrow> ready (s\<lparr>stdin := r, effects := e\<rparr>)"
    and any_line: "client_heap s = [] \<Longrightarrow>
      shrinks (length (stdin s)) (\<lambda>_ s'. client_heap s' = []) (choice l) s"
begin

lemma one_command:
  "ready s \<Longrightarrow> valid c \<Longrightarrow> stdin s = typed c @ r \<Longrightarrow>
   input_loop choice (Suc n) s = input_loop choice n (s\<lparr>stdin := r, effects := effects s @ sends c\<rparr>)"
  using turn [of s c r] by (auto simp: run connected_client)

lemma session:
  assumes "ready s" and "\<forall>c \<in> set cs. valid c" and "stdin s = concat (map typed cs) @ r"
  shows "input_loop choice (length cs + n) s =
    input_loop choice n (s\<lparr>stdin := r, effects := effects s @ concat (map sends cs)\<rparr>)"
  using assms
proof (induction cs arbitrary: s)
  case (Cons c cs)
  let ?s = "s\<lparr>stdin := concat (map typed cs) @ r, effects := effects s @ sends c\<rparr>"
  have "input_loop choice (Suc (length cs + n)) s = input_loop choice (length cs + n) ?s"
    by (rule one_command) (use Cons.prems in auto)
  also have "\<dots> = input_loop choice n (?s\<lparr>stdin := r, effects := effects ?s @ concat (map sends cs)\<rparr>)"
    by (rule Cons.IH) (use Cons.prems in \<open>auto intro: frame\<close>)
  finally show ?case by simp
next
  case Nil
  then show ?case by (cases s) simp
qed

lemma ends:
  assumes "client_heap s = []" and "length (stdin s) < n"
  shows "wp (input_loop choice n) (\<lambda>t s'. t \<noteq> Again \<and> client_heap s' = []) (\<lambda>e. e = Fault Signed_overflow) s"
  using assms
proof (induction n arbitrary: s)
  case (Suc n)
  show ?case
  proof (cases "fgets BUFFER_SIZE (stdin s)")
    case None
    then show ?thesis using Suc.prems(1) by (simp add: input_line_def)
  next
    case (Some lr)
    obtain l r where lr: "lr = (l, r)" by force
    have "stdin s \<noteq> []" "length r < length (stdin s)"
      using Some lr line_of_shorter [of "stdin s" "BUFFER_SIZE - 2" l r]
      by (auto simp: fgets_def BUFFER_SIZE_def numeral_eq_Suc split: if_splits)
    then have "length r < n" using Suc.prems(2) by simp
    let ?s = "s\<lparr>stdin := r\<rparr>"
    have "wp (choice (upto_nul l)) (\<lambda>t s'. length (stdin s') \<le> length r \<and> client_heap s' = [])
        (\<lambda>e. e = Fault Signed_overflow) ?s"
      using any_line [of ?s "upto_nul l"] Suc.prems(1) by (simp add: shrinks_def)
    then have "wp (choice (upto_nul l))
        (\<lambda>t. wp (case t of Again \<Rightarrow> input_loop choice n | _ \<Rightarrow> ret t)
          (\<lambda>t s'. t \<noteq> Again \<and> client_heap s' = []) (\<lambda>e. e = Fault Signed_overflow))
        (\<lambda>e. e = Fault Signed_overflow) ?s"
      by (rule wp_mono) (use Suc.IH \<open>length r < n\<close> in \<open>auto split: turn.splits\<close>)
    then show ?thesis
      using Some lr Suc.prems(1) by (simp add: input_line_def)
  qed
qed simp

end

section \<open>Any input\<close>

lemma shrinks_input_line:
  assumes "length (stdin s) \<le> n" and "client_heap s = []"
  shows "shrinks n (\<lambda>_ s'. client_heap s' = []) input_line s"
proof (cases "fgets BUFFER_SIZE (stdin s)")
  case None
  then show ?thesis using assms by (simp add: shrinks_def input_line_def)
next
  case (Some lr)
  obtain l r where lr: "lr = (l, r)" by force
  then have "length r \<le> length (stdin s)"
    using Some length_line_of [of "BUFFER_SIZE - 1" "stdin s" l r] by (auto simp: fgets_def split: if_splits)
  then show ?thesis using Some lr assms by (simp add: shrinks_def input_line_def)
qed

lemma scan_int_length: "scan_int s = Some (v, r) \<Longrightarrow> length r \<le> length s"
proof -
  assume s: "scan_int s = Some (v, r)"
  obtain neg k t where t: "strip_sign (dropWhile isspace s) = (neg, k, t)" by (metis prod_cases3)
  have "length (dropWhile isspace s) \<le> length s" by (rule length_dropWhile_le)
  moreover have "length (dropWhile is_digit t) \<le> length t" by (rule length_dropWhile_le)
  ultimately show ?thesis
    using s strip_sign_length [OF t] by (auto simp: scan_int_def t Let_def split: if_splits)
qed

lemma shrinks_then:
  assumes "shrinks n Q m s" and "\<And>x t. length (stdin t) \<le> n \<Longrightarrow> Q x t \<Longrightarrow> shrinks n R (f x) t"
  shows "shrinks n R (andthen m f) s"
  using assms unfolding shrinks_def by (auto intro: wp_mono)

lemma shrinks_run: "m s = Inr (x, t) \<Longrightarrow> length (stdin t) \<le> n \<Longrightarrow> Q x t \<Longrightarrow> shrinks n Q m s"
  by (simp add: shrinks_def wp_run)

lemma shrinks_scan_amount:
  assumes "length (stdin s) \<le> n" and "client_heap s = []"
  shows "shrinks n (\<lambda>a s'. client_heap s' = [] \<and> (\<forall>v. a = Some v \<longrightarrow> is_int v)) scan_amount s"
proof (cases "scan_int (stdin s)")
  case (Some vr)
  then show ?thesis using assms scan_int_length [of "stdin s" "fst vr" "snd vr"]
    by (cases vr) (simp add: shrinks_def scan_amount_def)
qed (use assms in \<open>simp add: shrinks_def scan_amount_def\<close>)

lemma menu_item_key: "menu_item ks l = Some key \<Longrightarrow> \<exists>i < length ks. key = ks ! i"
  unfolding menu_item_def by (drule map_of_SomeD) (auto simp: set_zip)

text \<open>The message of an update, when the dialogue comes to one, is that of a valid command.\<close>

definition update_or_turn :: "cJSON list \<Rightarrow> cJSON option + turn \<Rightarrow> client \<Rightarrow> bool" where
  "update_or_turn ms r s \<longleftrightarrow> client_heap s = [] \<and>
     (\<forall>j. r = Inl j \<longrightarrow> (\<exists>food i v. valid (Update food i v) \<and>
        j = Some (json_object (ms @ amounts (Update food i v)))))"

lemma shrinks_add_amount:
  assumes "length (stdin s) \<le> n" and "client_heap s = []"
  shows "shrinks n (update_or_turn ms)
    (add_amount (part food) (keys food) (Some (json_object ms)) (Some (json_object [])) input) s"
  unfolding add_amount_def
proof (rule shrinks_then [OF shrinks_scan_amount [OF assms]])
  fix a and t :: client
  assume t: "length (stdin t) \<le> n" "client_heap t = [] \<and> (\<forall>v. a = Some v \<longrightarrow> is_int v)"
  have "update_or_turn ms (Inl (Some (json_object
      (ms @ [member (part food) (json_object [member (keys food ! i) (json_int v)])])))) u"
    if "i < length (keys food)" "is_int v" "client_heap u = []" for i v u
    unfolding update_or_turn_def
    by (auto intro!: exI [of _ food] exI [of _ i] exI [of _ v] simp: that)
  then show "shrinks n (update_or_turn ms) (case a of None \<Rightarrow> ret (Inr Returns)
     | Some v \<Rightarrow> andthen getchar (\<lambda>_. case menu_item (keys food) input of None \<Rightarrow> ret (Inr Again)
       | Some key \<Rightarrow> andthen (on_heap (cJSON_AddNumberToObject (Some (json_object [])) key (double_of_int v))) (\<lambda>(_, am).
           andthen (on_heap (cJSON_AddItemToObject (Some (json_object ms)) (part food) am)) (\<lambda>(_, json).
           ret (Inl json))))) t"
    using t menu_item_key [of "keys food" input]
    by (cases a; cases "menu_item (keys food) input")
      (auto simp: shrinks_def wp_def run getchar_def on_heap_run update_or_turn_def)
qed

lemma shrinks_create:
  assumes "length (stdin s) \<le> n" and "client_heap s = []"
  shows "shrinks n (\<lambda>b s'. client_heap s' = [] \<and> (c \<longrightarrow> b = Some (json_object [])))
    (if c then on_heap cJSON_CreateObject else ret None) s"
  using assms by (cases c) (simp_all add: shrinks_def wp_def on_heap_run run)

lemma shrinks_ask_amount:
  assumes "length (stdin s) \<le> n" and "client_heap s = []"
  shows "shrinks n (update_or_turn ms) (ask_amount early (part food) (keys food) (Some (json_object ms))) s"
  unfolding ask_amount_def
proof (rule shrinks_then [OF shrinks_create [OF assms]])
  fix b and t :: client
  assume t: "length (stdin t) \<le> n"
    and b: "client_heap t = [] \<and> (early \<longrightarrow> b = Some (json_object []))"
  have "shrinks n (update_or_turn ms) (andthen (if early then ret b else on_heap cJSON_CreateObject)
      (\<lambda>am. add_amount (part food) (keys food) (Some (json_object ms)) am l)) u"
    if u: "length (stdin u) \<le> n" "client_heap u = []" for l and u :: client
    using shrinks_add_amount [OF u] u b
    by (cases early) (simp_all add: shrinks_def wp_def run on_heap_run)
  then show "shrinks n (update_or_turn ms) (andthen input_line (\<lambda>line. case line of
       None \<Rightarrow> ret (Inr Returns)
     | Some input \<Rightarrow> andthen (if early then ret b else on_heap cJSON_CreateObject)
         (\<lambda>am. add_amount (part food) (keys food) (Some (json_object ms)) am input))) t"
    by (intro shrinks_then [OF shrinks_input_line])
      (use t b in \<open>auto split: option.splits simp: shrinks_def update_or_turn_def\<close>)
qed

lemma shrinks_ask_update:
  assumes "client_heap s = []" and "request [] = Inr (Some (json_object ms), [])"
  shows "shrinks (length (stdin s)) (update_or_turn ms) (ask_update early request) s"
  unfolding ask_update_def
proof (rule shrinks_then [OF shrinks_input_line])
  fix line and t :: client
  assume t: "length (stdin t) \<le> length (stdin s)" "client_heap t = []"
  show "shrinks (length (stdin s)) (update_or_turn ms) (case line of None \<Rightarrow> ret (Inr Returns)
     | Some input \<Rightarrow> andthen (on_heap request) (\<lambda>json.
         if input = ''1'' @ [LF] then ask_amount early ''food'' food_keys json
         else if input = ''2'' @ [LF] then ask_amount early ''medicine'' medicine_keys json
         else ret (Inr Again))) t"
    using shrinks_ask_amount [OF t, of ms early True] shrinks_ask_amount [OF t, of ms early False] t assms
    by (cases line) (auto simp: shrinks_def wp_def run on_heap_run part_def keys_def update_or_turn_def)
qed (use assms in auto)

section \<open>The two clients\<close>

definition tcp_ready :: "client \<Rightarrow> bool" where
  "tcp_ready s \<longleftrightarrow> client_heap s = [] \<and> client_connected s \<and> authenticated s"

definition udp_ready :: "client \<Rightarrow> bool" where
  "udp_ready s \<longleftrightarrow> client_heap s = [] \<and> client_connected s"

lemma digit_line:
  "stdin s = (d # [LF]) @ r \<Longrightarrow> d \<noteq> LF \<Longrightarrow> d \<noteq> NUL \<Longrightarrow>
   input_line s = Inr (Some (d # [LF]), s\<lparr>stdin := r\<rparr>)"
  using input_line_run [of s "[d]" r] by simp

lemma send_tcp:
  "client_heap s = [] \<Longrightarrow> valid c \<Longrightarrow>
   send_json fd (Some (tcp_message c)) s =
     Inr ((), s\<lparr>effects := effects s @ [Send fd (text_of (tcp_message c))]\<rparr>)"
  by (rule send_json_short [OF _ short_tcp_message]) simp_all

lemma send_udp:
  "client_heap s = [] \<Longrightarrow> valid c \<Longrightarrow> c_string h \<Longrightarrow> length h \<le> 80 \<Longrightarrow>
   sendJson ipv6 fd (Some (udp_message h c)) addr s =
     Inr ((), s\<lparr>effects := effects s @ datagrams fd addr (text_of (udp_message h c))\<rparr>)"
  by (rule sendJson_short [OF _ short_udp_message]) (simp_all add: BUFFER_SIZE_def)

lemma tcp_turn:
  assumes "tcp_ready s" and "valid c" and "stdin s = typed c @ r"
  shows "\<exists>l s1. input_line s = Inr (Some l, s1) \<and> tcp_choice fd l s1 =
    Inr (Again, s\<lparr>stdin := r, effects := effects s @ [Send fd (text_of (tcp_message c))]\<rparr>)"
proof (cases c)
  case Status
  then have "input_line s = Inr (Some (''1'' @ [LF]), s\<lparr>stdin := r\<rparr>)"
    using digit_line [of s "CHR ''1''" r] assms(3) by simp
  then show ?thesis
    using assms send_tcp [of "s\<lparr>stdin := r\<rparr>" c fd] Status
    by (simp add: tcp_choice_def run on_heap_run message_object_Nil tcp_ready_def tcp_message_def)
next
  case Summary
  then have "input_line s = Inr (Some (''3'' @ [LF]), s\<lparr>stdin := r\<rparr>)"
    using digit_line [of s "CHR ''3''" r] assms(3) by simp
  then show ?thesis
    using assms send_tcp [of "s\<lparr>stdin := r\<rparr>" c fd] Summary
    by (simp add: tcp_choice_def run on_heap_run message_object_Nil tcp_ready_def tcp_message_def)
next
  case (Update food i v)
  let ?r = "((if food then ''1'' else ''2'') @ [LF]) @ menu_lines ! i @ show_int v @ LF # r"
  have l: "input_line s = Inr (Some (''2'' @ [LF]), s\<lparr>stdin := ?r\<rparr>)"
    using digit_line [of s "CHR ''2''" ?r] assms(3) Update by simp
  have "ask_update True (message_object ''update'') (s\<lparr>stdin := ?r\<rparr>) =
      Inr (Inl (Some (tcp_message c)), s\<lparr>stdin := r\<rparr>)"
    using ask_update_run [of "s\<lparr>stdin := ?r\<rparr>" i food v "message_object ''update''"
        "[member ''message'' (json_string ''update'')]" r True] assms Update
    by (simp add: message_object_Nil tcp_ready_def tcp_message_def)
  then show ?thesis
    using assms send_tcp [of "s\<lparr>stdin := r\<rparr>" c fd] l by (simp add: tcp_choice_def run tcp_ready_def)
qed

lemma udp_turn:
  assumes "udp_ready s" and "valid c" and "stdin s = typed c @ r" and h: "c_string h" "length h \<le> 80"
  shows "\<exists>l s1. input_line s = Inr (Some l, s1) \<and> udp_choice ipv6 fd addr h l s1 =
    Inr (Again, s\<lparr>stdin := r, effects := effects s @ datagrams fd addr (text_of (udp_message h c))\<rparr>)"
proof (cases c)
  case Status
  then have "input_line s = Inr (Some (''1'' @ [LF]), s\<lparr>stdin := r\<rparr>)"
    using digit_line [of s "CHR ''1''" r] assms(3) by simp
  then show ?thesis
    using assms send_udp [of "s\<lparr>stdin := r\<rparr>" c h ipv6 fd addr] Status
    by (simp add: udp_choice_def run on_heap_run host_message_Nil udp_ready_def udp_message_def)
next
  case Summary
  then have "input_line s = Inr (Some (''3'' @ [LF]), s\<lparr>stdin := r\<rparr>)"
    using digit_line [of s "CHR ''3''" r] assms(3) by simp
  then show ?thesis
    using assms send_udp [of "s\<lparr>stdin := r\<rparr>" c h ipv6 fd addr] Summary
    by (simp add: udp_choice_def run on_heap_run host_message_Nil udp_ready_def udp_message_def)
next
  case (Update food i v)
  let ?r = "((if food then ''1'' else ''2'') @ [LF]) @ menu_lines ! i @ show_int v @ LF # r"
  have l: "input_line s = Inr (Some (''2'' @ [LF]), s\<lparr>stdin := ?r\<rparr>)"
    using digit_line [of s "CHR ''2''" ?r] assms(3) Update by simp
  have "ask_update False (host_message h ''update'') (s\<lparr>stdin := ?r\<rparr>) =
      Inr (Inl (Some (udp_message h c)), s\<lparr>stdin := r\<rparr>)"
    using ask_update_run [of "s\<lparr>stdin := ?r\<rparr>" i food v "host_message h ''update''"
        "[member ''hostname'' (json_string h), member ''message'' (json_string ''update'')]" r False] assms Update
    by (simp add: host_message_Nil udp_ready_def udp_message_def)
  then show ?thesis
    using assms send_udp [of "s\<lparr>stdin := r\<rparr>" c h ipv6 fd addr] l
    by (simp add: udp_choice_def run udp_ready_def)
qed

lemma update_json_message:
  "json_object ([member ''message'' (json_string ''update'')] @ amounts (Update food i v)) =
     tcp_message (Update food i v)"
  "json_object ([member ''hostname'' (json_string h), member ''message'' (json_string ''update'')] @
     amounts (Update food i v)) = udp_message h (Update food i v)"
  by (simp_all add: tcp_message_def udp_message_def)

lemma update_then_send:
  assumes s: "client_heap s = []" and req: "request [] = Inr (Some (json_object ms), [])"
    and send: "\<And>food i v t. valid (Update food i v) \<Longrightarrow> client_heap t = [] \<Longrightarrow>
      \<exists>e. send (Some (json_object (ms @ amounts (Update food i v)))) t =
        Inr ((), t\<lparr>effects := effects t @ e\<rparr>)"
  shows "shrinks (length (stdin s)) (\<lambda>_ s'. client_heap s' = [])
    (andthen (ask_update early request) (\<lambda>r. case r of Inr t \<Rightarrow> ret t
      | Inl json \<Rightarrow> andthen (send json) (\<lambda>_. ret Again))) s"
proof (rule shrinks_then, rule shrinks_ask_update, rule s, rule req)
  fix x and t :: client
  assume t: "length (stdin t) \<le> length (stdin s)" and x: "update_or_turn ms x t"
  show "shrinks (length (stdin s)) (\<lambda>_ s'. client_heap s' = [])
    (case x of Inr t \<Rightarrow> ret t | Inl json \<Rightarrow> andthen (send json) (\<lambda>_. ret Again)) t"
  proof (cases x)
    case (Inl j)
    then obtain food i v where v: "valid (Update food i v)"
        "j = Some (json_object (ms @ amounts (Update food i v)))" and h: "client_heap t = []"
      using x by (auto simp: update_or_turn_def simp del: valid.simps amounts.simps)
    then obtain e where "send j t = Inr ((), t\<lparr>effects := effects t @ e\<rparr>)"
      using send [OF v(1) h] by auto
    then show ?thesis using Inl t h by (simp add: shrinks_def wp_def run)
  qed (use t x in \<open>simp add: shrinks_def update_or_turn_def\<close>)
qed

lemma tcp_any_line:
  assumes "client_heap s = []"
  shows "shrinks (length (stdin s)) (\<lambda>_ s'. client_heap s' = []) (tcp_choice fd l) s"
proof -
  have m: "on_heap (message_object t) s = Inr (Some (json_object [member ''message'' (json_string t)]), s)" for t
    using assms by (simp add: on_heap_run message_object_Nil)
  have "shrinks (length (stdin s)) (\<lambda>_ s'. client_heap s' = [])
    (andthen (ask_update True (message_object ''update'')) (\<lambda>r. case r of Inr t \<Rightarrow> ret t
      | Inl json \<Rightarrow> andthen (send_json fd json) (\<lambda>_. ret Again))) s"
    by (rule update_then_send, rule assms, rule message_object_Nil, unfold update_json_message)
      (use send_tcp in blast)
  then show ?thesis
    using assms m [of "''status''"] m [of "''summary''"]
      send_tcp [of s Status fd] send_tcp [of s Summary fd]
    by (auto simp: tcp_choice_def shrinks_def disconnect_def act_def wp_def run tcp_message_def
        split: sum.splits)
qed

lemma udp_any_line:
  assumes "client_heap s = []" and h: "c_string h" "length h \<le> 80"
  shows "shrinks (length (stdin s)) (\<lambda>_ s'. client_heap s' = []) (udp_choice ipv6 fd addr h l) s"
proof -
  have m: "on_heap (host_message h t) s = Inr (Some (json_object
      [member ''hostname'' (json_string h), member ''message'' (json_string t)]), s)" for t
    using assms by (simp add: on_heap_run host_message_Nil)
  have "shrinks (length (stdin s)) (\<lambda>_ s'. client_heap s' = [])
    (andthen (ask_update False (host_message h ''update'')) (\<lambda>r. case r of Inr t \<Rightarrow> ret t
      | Inl json \<Rightarrow> andthen (sendJson ipv6 fd json addr) (\<lambda>_. ret Again))) s"
    by (rule update_then_send, rule assms(1), rule host_message_Nil, unfold update_json_message)
      (use send_udp h in blast)
  then show ?thesis
    using assms m [of "''status''"] m [of "''summary''"]
      send_udp [of s Status h ipv6 fd addr] send_udp [of s Summary h ipv6 fd addr]
    by (auto simp: udp_choice_def shrinks_def act_def wp_def run udp_message_def split: sum.splits)
qed

interpretation tcp: dialogue "tcp_choice fd" tcp_ready "\<lambda>c. [Send fd (text_of (tcp_message c))]" for fd
  by unfold_locales (auto simp: tcp_ready_def intro: tcp_turn [unfolded tcp_ready_def] tcp_any_line)

text \<open>A host name that fits is at most 80 bytes long; with another one the second client is none.\<close>

definition good_name :: "string \<Rightarrow> string" where
  "good_name h = (if c_string h \<and> length h \<le> 80 then h else [])"

interpretation udp: dialogue "udp_choice ipv6 fd addr (good_name h)" udp_ready
    "\<lambda>c. datagrams fd addr (text_of (udp_message (good_name h) c))" for ipv6 fd addr h
proof unfold_locales
  have g: "c_string (good_name h)" "length (good_name h) \<le> 80" by (simp_all add: good_name_def)
  fix s c r l
  show "udp_ready s \<Longrightarrow> valid c \<Longrightarrow> stdin s = typed c @ r \<Longrightarrow>
    \<exists>l s1. input_line s = Inr (Some l, s1) \<and> udp_choice ipv6 fd addr (good_name h) l s1 =
      Inr (Again, s\<lparr>stdin := r, effects := effects s @
        datagrams fd addr (text_of (udp_message (good_name h) c))\<rparr>)"
    using udp_turn g by blast
  show "client_heap s = [] \<Longrightarrow> shrinks (length (stdin s)) (\<lambda>_ s'. client_heap s' = [])
      (udp_choice ipv6 fd addr (good_name h) l) s"
    using udp_any_line g by blast
qed (auto simp: udp_ready_def)

end
