(* ===== verification/ClientProps.thy ===== *)
theory ClientProps
  imports ClientFacts
begin

text \<open>
  What a user of the clients can rely on: the messages of a session, the end of every session,
  the authentication message and the answers of the server, and the inputs the clients do not
  survive.
\<close>

section \<open>Sessions\<close>

lemma typed_length: "length cs \<le> length (concat (map typed cs) @ r)"
proof (induction cs)
  case (Cons c cs)
  then show ?case by (cases c) auto
qed simp

lemma exit_typed:
  assumes "stdin s = ''4'' @ LF # r"
  shows "input_line s = Inr (Some (''4'' @ [LF]), s\<lparr>stdin := r\<rparr>)"
  using digit_line [of s "CHR ''4''" r] assms by simp

lemma tcp_session_run:
  assumes "client_heap s = []" and "client_connected s" and "authenticated s" and "pid_child s \<noteq> 0"
    and "\<forall>c \<in> set cs. valid c" and "stdin s = concat (map typed cs) @ ''4'' @ LF # r"
  shows "handle_user_input fd s = Inr (Exits 0, s\<lparr>stdin := r, client_connected := False,
    effects := effects s @ map (\<lambda>c. Send fd (text_of (tcp_message c))) cs @
      [Kill (pid_child s), Close fd]\<rparr>)"
proof -
  let ?s = "s\<lparr>stdin := ''4'' @ LF # r,
      effects := effects s @ map (\<lambda>c. Send fd (text_of (tcp_message c))) cs\<rparr>"
  obtain n where n: "Suc (length (stdin s)) = length cs + Suc n"
    using typed_length [of cs "''4'' @ LF # r"] assms(6)
    by (metis add_Suc_right le_Suc_ex)
  have "handle_user_input fd s = input_loop (tcp_choice fd) (length cs + Suc n) s"
    by (simp only: handle_user_input_def andthen_apply gets_apply sum.case prod.case n)
  also have "\<dots> = input_loop (tcp_choice fd) (Suc n) ?s"
    using tcp.session [OF _ assms(5, 6), of fd "Suc n"] assms(1-3)
    by (simp add: tcp_ready_def concat_map_singleton)
  also have "\<dots> = Inr (Exits 0, s\<lparr>stdin := r, client_connected := False,
      effects := effects s @ map (\<lambda>c. Send fd (text_of (tcp_message c))) cs @
        [Kill (pid_child s), Close fd]\<rparr>)"
    using exit_typed [of ?s r] assms(2, 4) by (simp add: run tcp_choice_def disconnect_def act_def)
  finally show ?thesis .
qed

text \<open>
  C27: a session of the TCP client. For every sequence of commands typed into the menu, ended by
  its option 4, the client sends the message of each command, once and in order, then stops its
  child process, closes the connection and exits with status 0; nothing else is sent.
\<close>

theorem tcp_session:
  assumes "client_heap s = []" and "client_connected s" and "authenticated s" and "pid_child s \<noteq> 0"
    and "\<forall>c \<in> set cs. valid c" and "stdin s = concat (map typed cs) @ ''4'' @ LF # r"
  shows "handle_user_input fd s = Inr (Exits 0, s\<lparr>stdin := r, client_connected := False,
    effects := effects s @ map (\<lambda>c. Send fd (text_of (tcp_message c))) cs @
      [Kill (pid_child s), Close fd]\<rparr>)"
  using assms by (rule tcp_session_run)

definition sample_input :: string where
  "sample_input = concat (map typed [Status, Update True 3 12]) @ ''4'' @ LF # []"

definition tcp_user :: "string \<Rightarrow> client" where
  "tcp_user input = (fresh_client input)\<lparr>authenticated := True, pid_child := 201\<rparr>"

lemma tcp_user_sel [simp]:
  "client_heap (tcp_user i) = []" "client_connected (tcp_user i)" "authenticated (tcp_user i)"
  "pid_child (tcp_user i) = 201" "stdin (tcp_user i) = i" "effects (tcp_user i) = []"
  by (simp_all add: tcp_user_def fresh_client_def)

theorem tcp_session_witness:
  "\<exists>s'. handle_user_input 7 (tcp_user sample_input) = Inr (Exits 0, s') \<and>
    effects s' = [Send 7 (text_of (tcp_message Status)), Send 7 (text_of (tcp_message (Update True 3 12))),
      Kill 201, Close 7]"
  using tcp_session [of "tcp_user sample_input" "[Status, Update True 3 12]" "[]" 7]
  by (simp add: sample_input_def keys_def food_keys_def int_bounds)

text \<open>
  C28: a session of the UDP client hands one datagram with the host name to \<open>sendto\<close> for each
  command, whatever those calls return, then stops the child process, closes the socket and
  returns.
\<close>

theorem udp_session:
  assumes "client_heap s = []" and "client_connected s" and "pid_child s \<noteq> 0"
    and "client_hostname os_release [] = Inr (h, [])" and "c_string h" and "length h \<le> 80"
    and "\<forall>c \<in> set cs. valid c" and "stdin s = concat (map typed cs) @ ''4'' @ LF # r"
  shows "udp_handle_user_input ipv6 fd addr os_release s = Inr (Returns, s\<lparr>stdin := r, client_connected := False,
    effects := effects s @ concat (map (\<lambda>c. datagrams fd addr (text_of (udp_message h c))) cs) @
      [Kill (pid_child s), Close fd]\<rparr>)"
proof -
  let ?s = "s\<lparr>stdin := ''4'' @ LF # r,
      effects := effects s @ concat (map (\<lambda>c. datagrams fd addr (text_of (udp_message h c))) cs)\<rparr>"
  have h: "good_name h = h" using assms(5, 6) by (simp add: good_name_def)
  have "length cs + 2 \<le> Suc (length (stdin s))"
    using typed_length [of cs "[]"] assms(8) by simp
  then obtain n where "Suc (length (stdin s)) = length cs + 2 + n" by (rule nat_le_iff_add [THEN iffD1, THEN exE])
  then have n: "Suc (length (stdin s)) = length cs + Suc (Suc n)" by simp
  have "udp_handle_user_input ipv6 fd addr os_release s =
      input_loop (udp_choice ipv6 fd addr h) (length cs + Suc (Suc n)) s"
    by (simp only: udp_handle_user_input_def andthen_apply gets_apply sum.case prod.case
        on_heap_run [where m = "client_hostname os_release", OF assms(1, 4)] n)
  also have "\<dots> = input_loop (udp_choice ipv6 fd addr h) (Suc (Suc n)) ?s"
    using udp.session [OF _ assms(7, 8), of ipv6 fd addr h "Suc (Suc n)"] assms(1, 2)
    by (simp add: udp_ready_def h)
  also have "\<dots> = Inr (Returns, s\<lparr>stdin := r, client_connected := False,
      effects := effects s @ concat (map (\<lambda>c. datagrams fd addr (text_of (udp_message h c))) cs) @
        [Kill (pid_child s), Close fd]\<rparr>)"
    using exit_typed [of ?s r] assms(2, 3) by (simp add: run udp_choice_def act_def)
  finally show ?thesis .
qed

lemma sample_hostname: "client_hostname (Some sample_release) [] = Inr (''ubuntu'', [])"
proof -
  have "\<forall>l \<in> set [''NAME=Ubuntu'']. other_line l" "id_value ''ubuntu''"
    by (simp_all add: other_line_def id_value_def BUFFER_SIZE_def byte_def)
  then have "find_id sample_release = Some ''ubuntu''"
    unfolding sample_release_def by (simp add: find_id_lines find_id_value del: append.simps lines_def)
  then show ?thesis
    by (simp add: client_hostname_def get_os_id_def encode_utf8_def run encode_loop_result signed_char_ascii byte_def)
qed

theorem udp_session_witness:
  "\<exists>s'. udp_handle_user_input False 7 (Sockaddr_in 9090 [127, 0, 0, 1]) (Some sample_release)
      (tcp_user sample_input) = Inr (Returns, s') \<and>
    effects s' = [Sendto 7 (Sockaddr_in 9090 [127, 0, 0, 1]) 16 (text_of (udp_message ''ubuntu'' Status)),
      Sendto 7 (Sockaddr_in 9090 [127, 0, 0, 1]) 16 (text_of (udp_message ''ubuntu'' (Update True 3 12))),
      Kill 201, Close 7]"
  using udp_session [of "tcp_user sample_input" "Some sample_release" "''ubuntu''"
      "[Status, Update True 3 12]" "[]" False 7 "Sockaddr_in 9090 [127, 0, 0, 1]"]
  by (simp add: sample_input_def keys_def food_keys_def int_bounds sample_hostname datagrams_def addr_size_def)

text \<open>
  C29: whatever bytes come in on standard input, the loop of the TCP client ends: it returns or
  exits, and the only way it can go wrong is an amount that is no \<open>int\<close>. It neither reads nor
  writes outside its buffer, dereferences no NULL pointer and sends no message but those of
  valid commands.
\<close>

theorem tcp_input_ends:
  assumes "client_heap s = []"
  shows "(\<exists>t s'. handle_user_input fd s = Inr (t, s') \<and> t \<noteq> Again) \<or>
    handle_user_input fd s = Inl (Fault Signed_overflow)"
proof -
  have "handle_user_input fd s = input_loop (tcp_choice fd) (Suc (length (stdin s))) s"
    by (simp only: handle_user_input_def andthen_apply gets_apply sum.case prod.case)
  then show ?thesis
    using tcp.ends [OF assms, of "Suc (length (stdin s))" fd]
    by (auto simp: wp_def simp del: input_loop.simps split: sum.splits)
qed

theorem tcp_input_ends_witness:
  "(\<exists>t s'. handle_user_input 7 (tcp_user (''2'' @ [LF, CHR ''1'', LF])) = Inr (t, s') \<and> t \<noteq> Again) \<or>
    handle_user_input 7 (tcp_user (''2'' @ [LF, CHR ''1'', LF])) = Inl (Fault Signed_overflow)"
  by (rule tcp_input_ends) simp

section \<open>Messages from the server\<close>

text \<open>
  What the child process of the TCP client makes of a message: the loss of the connection ends
  it, the message disconnect ends it and its parent, a successful authentication is noted,
  anything else is only printed.
\<close>

lemma message_received_run:
  assumes "client_heap s = []" and "length bytes < BUFFER_SIZE" and "c_string bytes" and "bytes \<noteq> []"
    and "cJSON_Parse limit bytes [] = Inr (Some json, [])" and "short_text json 0 5000"
    and "cJSON_GetObjectItem (Some json) ''message'' = Some item" and "valuestring item = Some m"
  shows "receive_json fd limit (Some bytes) s =
    (if m = ''disconnect'' then Inr (Exits 0, s\<lparr>effects := effects s @ [Kill (pid_parent s)]\<rparr>)
     else if m = ''auth_success'' then Inr (Again, s\<lparr>authenticated := True\<rparr>)
     else Inr (Again, s)) \<and>
   receive_json fd limit (Some []) s = Inr (Exits 0, s\<lparr>effects := effects s @ [Close fd]\<rparr>)"
proof -
  obtain k where k: "BUFFER_SIZE - length bytes = Suc k"
    using assms(2) by (metis Suc_diff_Suc)
  have "cstr (bytes @ replicate (BUFFER_SIZE - length bytes) NUL) = Inr bytes"
    using assms(3) by (simp add: k)
  moreover have "cJSON_Print (Some json) [] = Inr (Some (text_of json), [])"
    using cJSON_Print_short [OF assms(6)] by simp
  ultimately show ?thesis
    using assms by (simp add: receive_json_def run on_heap_run Let_def disconnect_def act_def)
qed

end
