(* ===== verification/ClientServer.thy ===== *)
theory ClientServer
  imports ClientProps AlertFlow
begin

text \<open>
  Clients and server together: what is typed into a client arrives at the server as the message
  it stands for and has its effect there, and what the server answers or broadcasts has its
  effect in the client.
\<close>

section \<open>Messages under way\<close>

text \<open>A pass of the server's loop in which a client's bytes are found by \<open>recv\<close>.\<close>

definition delivering :: "string \<Rightarrow> os \<Rightarrow> os" where
  "delivering bytes os = os\<lparr>incoming := (\<lambda>_. Some bytes)\<rparr>"

text \<open>The string members that a message needs.\<close>

lemma plain_tcp_message:
  assumes "valid c"
  shows "plain (tcp_message c)" "name (tcp_message c) = None" "nesting (tcp_message c) \<le> 2"
proof -
  have "c_string (request_text c)" by (cases c) simp_all
  then show "plain (tcp_message c)"
    using assms keys_text by (cases c) (auto simp: tcp_message_def part_def)
  show "nesting (tcp_message c) \<le> 2" by (cases c) (simp_all add: tcp_message_def)
qed (simp add: tcp_message_def)

lemma find_message [simp]:
  "cJSON_GetObjectItem (Some (tcp_message c)) ''message'' =
     Some (member ''message'' (json_string (request_text c)))"
  by (simp add: get_object_item_insensitive tcp_message_def case_insensitive_strcmp_def)

lemma tcp_message_members: "text_member (tcp_message c) ''message'' = Some (request_text c)"
  by (simp add: text_member_def)

lemma tcp_message_hostname: "cJSON_GetObjectItem (Some (tcp_message c)) ''hostname'' = None"
  by (cases c) (simp_all add: get_object_item_insensitive tcp_message_def case_insensitive_strcmp_def
      part_def tolower_def byte_def)

lemma text_fields_tcp_message: "text_fields (tcp_message c)"
  by (simp add: text_fields_def tcp_message_hostname)

lemma delivered_text:
  assumes "benign os" and "plain it" and "name it = None" and "nesting it \<le> nesting_limit os"
    and "text_fields it" and "short_text it 0 n"
    and "r = [] \<or> \<not> number_char (hd r)" and "c_string r" and "n + length r < BUFFER_SIZE"
  shows "benign (delivering (text_of it @ r) os)"
    and "received (delivering (text_of it @ r) os) fd = Some it"
proof -
  let ?t = "text_of it @ r"
  have len: "length ?t < BUFFER_SIZE"
    using text_of_length [OF assms(6)] assms(9) by simp
  have up: "upto_nul ?t = ?t"
    by (rule upto_nul_id) (use c_string_text_of [OF assms(2,3)] assms(8) in simp)
  have parse: "cJSON_Parse (nesting_limit os) ?t [] = Inr (Some it, [])"
    by (rule parse_text_of [OF assms(2-4,7)])
  have "text_message (nesting_limit os) ?t"
    by (simp add: text_message_def up parse assms(5))
  then show "benign (delivering ?t os)"
    unfolding delivering_def by (rule benign_incoming [OF assms(1) len])
  show "received (delivering ?t os) fd = Some it"
    using text_of_nonempty [OF assms(2)] by (simp add: received_def delivering_def up parse)
qed

lemma delivered_message:
  assumes "benign os" and "valid c" and "2 \<le> nesting_limit os"
    and "r = [] \<or> \<not> number_char (hd r)" and "c_string r" and "length r < 700"
  shows "benign (delivering (text_of (tcp_message c) @ r) os)"
    and "received (delivering (text_of (tcp_message c) @ r) os) fd = Some (tcp_message c)"
proof -
  note p = plain_tcp_message [OF assms(2)]
  have n: "nesting (tcp_message c) \<le> nesting_limit os" using p(3) assms(3) by simp
  have len: "300 + length r < BUFFER_SIZE" using assms(6) by (simp add: BUFFER_SIZE_def)
  note d = delivered_text [OF assms(1) p(1,2) n text_fields_tcp_message short_tcp_message [OF assms(2)] assms(4,5) len]
  show "benign (delivering (text_of (tcp_message c) @ r) os)"
    "received (delivering (text_of (tcp_message c) @ r) os) fd = Some (tcp_message c)"
    by (rule d)+
qed

section \<open>Updates\<close>

text \<open>The quantities of one kind, in the order of the client's menu.\<close>

definition stock :: "bool \<Rightarrow> FoodSupply \<Rightarrow> MedicineSupply \<Rightarrow> int list" where
  "stock food f d =
     (if food then [meat f, vegetables f, fruits f, water f]
      else [antibiotics d, analgesics d, bandages d])"

lemma keys_nth: "i < length (keys food) \<Longrightarrow>
   (food \<longrightarrow> i = 0 \<or> i = 1 \<or> i = 2 \<or> i = 3) \<and> (\<not> food \<longrightarrow> i = 0 \<or> i = 1 \<or> i = 2)"
  using keys_length [of food] by (auto split: if_splits)

lemma requested_update:
  assumes "i < length (keys food)"
  shows "requested (Some (tcp_message (Update food i v))) (part food') (keys food' ! j) =
    (if food' = food \<and> ci_diff (keys food' ! j) (keys food ! i) = 0 then v else 0)"
  by (cases food; cases food')
    (simp_all add: requested_def tcp_message_def get_object_item_insensitive case_insensitive_strcmp_def
      part_def tolower_def byte_def)

text \<open>The quantities a server holds, and what a command does to them.\<close>

definition holdings :: "server \<Rightarrow> bool \<Rightarrow> int list" where
  "holdings s food =
     (case (food_segment (segments s), medicine_segment (segments s)) of
        (Some f, Some d) \<Rightarrow> stock food f d
      | _ \<Rightarrow> [])"

fun applied :: "command \<Rightarrow> (bool \<Rightarrow> int list) \<Rightarrow> bool \<Rightarrow> int list" where
  "applied (Update food i v) a = a(food := (a food)[i := max 0 (a food ! i + v)])"
| "applied _ a = a"

fun fits :: "command \<Rightarrow> (bool \<Rightarrow> int list) \<Rightarrow> bool" where
  "fits (Update food i v) a \<longleftrightarrow> is_int (a food ! i + v)"
| "fits _ a \<longleftrightarrow> True"

lemma keys_differ:
  assumes "i < length (keys food)" and "j < length (keys food)"
  shows "ci_diff (keys food ! j) (keys food ! i) = 0 \<longleftrightarrow> j = i"
  using keys_nth [OF assms(1)] keys_nth [OF assms(2)]
  by (cases food) (auto simp: keys_def food_keys_def medicine_keys_def tolower_def byte_def)

lemma requested_key:
  assumes "i < length (keys food)" and "j < length (keys food')"
  shows "requested (Some (tcp_message (Update food i v))) (part food') (keys food' ! j) =
    (if food' = food \<and> j = i then v else 0)"
  using requested_update [OF assms(1), of v food' j] keys_differ [OF assms(1)] assms(2) by auto

lemma stock_nth:
  "stock True f d ! 0 = meat f" "stock True f d ! 1 = vegetables f" "stock True f d ! Suc 0 = vegetables f"
  "stock True f d ! 2 = fruits f"
  "stock True f d ! 3 = water f" "stock False f d ! 0 = antibiotics d" "stock False f d ! 1 = analgesics d"
  "stock False f d ! Suc 0 = analgesics d"
  "stock False f d ! 2 = bandages d" "length (stock food f d) = length (keys food)"
  by (simp_all add: stock_def keys_def food_keys_def medicine_keys_def numeral_nat)

lemma keys_parts:
  "part True = ''food''" "part False = ''medicine''"
  "keys True ! 0 = ''meat''" "keys True ! 1 = ''vegetables''" "keys True ! 2 = ''fruits''" "keys True ! 3 = ''water''"
  "keys False ! 0 = ''antibiotics''" "keys False ! 1 = ''analgesics''" "keys False ! 2 = ''bandages''"
  by (simp_all add: part_def keys_def food_keys_def medicine_keys_def)

lemma stock_after:
  assumes "j < length (keys food)"
  shows "stock food (food_after json f) (medicine_after json d) ! j =
    max 0 (stock food f d ! j + requested json (part food) (keys food ! j))"
  using keys_nth [OF assms]
  by (cases food) (auto simp: stock_nth food_after_def medicine_after_def keys_parts keys_parts [simplified])

lemma update_fits_iff:
  "update_fits json f d \<longleftrightarrow>
     (\<forall>food. \<forall>j < length (keys food). is_int (stock food f d ! j + requested json (part food) (keys food ! j)))"
proof -
  have "(\<forall>j < length (keys True). P j) \<longleftrightarrow> P 0 \<and> P 1 \<and> P 2 \<and> P 3"
    "(\<forall>j < length (keys False). P j) \<longleftrightarrow> P 0 \<and> P 1 \<and> P 2" for P
    by (auto simp: keys_length less_Suc_eq numeral_nat)
  note four = this
  have "(\<forall>food. Q food) \<longleftrightarrow> Q True \<and> Q False" for Q by (metis (full_types))
  note both = this [of "\<lambda>food. \<forall>j < length (keys food). is_int (stock food f d ! j + requested json (part food) (keys food ! j))"]
  show ?thesis
    unfolding both four stock_nth keys_parts update_fits_def by blast
qed

section \<open>Commands at the server\<close>

lemma holdings_of:
  "segments s = \<lparr>food_segment = Some f, medicine_segment = Some d\<rparr> \<Longrightarrow> holdings s = (\<lambda>food. stock food f d)"
  by (simp add: holdings_def fun_eq_iff)

lemma stock_ok:
  "food_ok f \<Longrightarrow> medicine_ok d \<Longrightarrow> j < length (keys food) \<Longrightarrow>
   0 \<le> stock food f d ! j \<and> is_int (stock food f d ! j)"
  using keys_nth [of j food]
  by (cases food) (auto simp: stock_nth food_ok_def medicine_ok_def int_bounds)

lemma update_applied:
  assumes "i < length (keys food)" and "food_ok f" and "medicine_ok d"
    and "json = Some (tcp_message (Update food i v))"
  shows "(\<lambda>part. stock part (food_after json f) (medicine_after json d)) =
      applied (Update food i v) (\<lambda>part. stock part f d)"
    and "update_fits json f d \<longleftrightarrow> fits (Update food i v) (\<lambda>part. stock part f d)"
proof -
  have req: "requested json (part p) (keys p ! j) = (if p = food \<and> j = i then v else 0)"
    if "j < length (keys p)" for p j
    unfolding assms(4) by (rule requested_key [OF assms(1) that])
  show "(\<lambda>part. stock part (food_after json f) (medicine_after json d)) =
      applied (Update food i v) (\<lambda>part. stock part f d)"
  proof
    fix p
    show "stock p (food_after json f) (medicine_after json d) =
        applied (Update food i v) (\<lambda>part. stock part f d) p"
    proof (rule nth_equalityI)
      fix j
      assume "j < length (stock p (food_after json f) (medicine_after json d))"
      then have j: "j < length (keys p)" by (simp add: stock_nth)
      then show "stock p (food_after json f) (medicine_after json d) ! j =
          applied (Update food i v) (\<lambda>part. stock part f d) p ! j"
        using stock_ok [OF assms(2,3) j] assms(1) by (auto simp: stock_after req stock_nth nth_list_update)
    qed (simp add: stock_nth)
  qed
  show "update_fits json f d \<longleftrightarrow> fits (Update food i v) (\<lambda>part. stock part f d)"
    unfolding update_fits_iff using stock_ok [OF assms(2,3)] assms(1) by (auto simp: req)
qed

lemma command_served:
  assumes "server_ok s" and "benign os" and "valid c" and "2 \<le> nesting_limit os"
    and "r = [] \<or> \<not> number_char (hd r)" and "c_string r" and "length r < 700"
  defines "os' \<equiv> delivering (text_of (tcp_message c) @ r) os"
  shows "if fits c (holdings s)
    then \<exists>s'. check_tcp_clients_messages os' fd s = Inr (True, s') \<and> server_ok s' \<and>
      holdings s' = applied c (holdings s)
    else check_tcp_clients_messages os' fd s = Inl (Fault Signed_overflow)"
proof -
  note del = delivered_message [OF assms(2-7), folded os'_def]
  obtain f d where p: "supply_pointers os' s = (Some f, Some d)" "food_ok f" "medicine_ok d"
      "segments s = \<lparr>food_segment = Some f, medicine_segment = Some d\<rparr>"
    using supply_pointers_ok [OF assms(1) del(1)] by blast
  have req: "check_tcp_clients_messages os' fd s =
      (case tcp_request os' fd (tcp_message c) (request_text c) s of Inl e \<Rightarrow> Inl e | Inr (_, s') \<Rightarrow> Inr (True, s'))"
    by (rule check_tcp_request [OF assms(1) del(1) del(2) tcp_message_members]) (cases c; simp)
  have ok: "server_ok s'" if "check_tcp_clients_messages os' fd s = Inr (True, s')" for s'
    using safeD [OF keeps_check_tcp [OF del(1), of fd] assms(1)] that by (simp add: wp_def)
  show ?thesis
  proof (cases c)
    case (Update food i v)
    then have "i < length (keys food)" using assms(3) by simp
    note app = update_applied [OF this p(2,3) refl]
    show ?thesis
      using ok req tcp_update_run [OF assms(1) del(1) p, of fd "tcp_message c"] app
      by (auto simp: Update tcp_request_def holdings_of [OF p(4)] holdings_def fun_eq_iff)
  next
    case Status
    then show ?thesis
      using ok req tcp_status_run [OF assms(1) del(1) p(1-3), of fd]
      by (auto simp: tcp_request_def holdings_def)
  next
    case Summary
    then show ?thesis
      using ok req tcp_summary_run [OF assms(1) del(1) p(1-3), of fd]
      by (auto simp: tcp_request_def holdings_def)
  qed
qed

section \<open>From the keyboard to the supplies\<close>

text \<open>The bytes of each call of \<open>send\<close>, and the server taking each with a call of \<open>recv\<close>.\<close>

definition sent :: "effect list \<Rightarrow> string list" where
  "sent es = concat (map (\<lambda>e. case e of Send _ bytes \<Rightarrow> [bytes] | _ \<Rightarrow> []) es)"

definition hears :: "os \<Rightarrow> int \<Rightarrow> string \<Rightarrow> unit srv" where
  "hears os fd bytes = andthen (check_tcp_clients_messages (delivering bytes os) fd) (\<lambda>_. ret ())"

fun all_fit :: "command list \<Rightarrow> (bool \<Rightarrow> int list) \<Rightarrow> bool" where
  "all_fit [] a \<longleftrightarrow> True"
| "all_fit (c # cs) a \<longleftrightarrow> fits c a \<and> all_fit cs (applied c a)"

lemma commands_heard:
  assumes "server_ok s" and "benign os" and "2 \<le> nesting_limit os" and "\<forall>c \<in> set cs. valid c"
    and "all_fit cs (holdings s)"
  shows "\<exists>s'. block (map (\<lambda>c. hears os fd (text_of (tcp_message c))) cs) s = Inr ((), s') \<and> server_ok s' \<and>
    holdings s' = fold applied cs (holdings s)"
  using assms(1, 4, 5)
proof (induction cs arbitrary: s)
  case (Cons c cs)
  then obtain s1 where s1: "check_tcp_clients_messages (delivering (text_of (tcp_message c)) os) fd s = Inr (True, s1)"
    "server_ok s1" "holdings s1 = applied c (holdings s)"
    using command_served [OF Cons.prems(1) assms(2) _ assms(3), of c "[]" fd] by auto
  obtain s2 where "block (map (\<lambda>c. hears os fd (text_of (tcp_message c))) cs) s1 = Inr ((), s2)" "server_ok s2"
    "holdings s2 = fold applied cs (holdings s1)"
    using Cons.IH [OF s1(2)] Cons.prems(2,3) s1(3) by auto
  moreover have "hears os fd (text_of (tcp_message c)) s = Inr ((), s1)"
    using s1(1) by (simp add: hears_def run)
  ultimately show ?case using s1(3) by (auto simp: run)
qed (simp add: run)

lemma idle_holdings: "holdings idle = (\<lambda>food. if food then [0, 0, 0, 0] else [0, 0, 0])"
  by (simp add: holdings_def stock_def no_food_def no_medicine_def fun_eq_iff)

lemma fourth: "[0, 0, 0, 0] ! 3 = (0 :: int)" "[0, 0, 0, 0][3 := x] = [0, 0, 0, x :: int]"
  by (simp_all add: numeral_nat)

text \<open>
  C23: from the keyboard to the supplies. The commands typed into the TCP client and served one
  by one leave the server with the supplies that the commands, applied in order, give: an
  update adds its amount to the quantity chosen in the menu, which is cut at 0, and to no other,
  and status and summary change none.
\<close>

theorem typed_commands_reach_supplies:
  assumes "client_heap u = []" and "client_connected u" and "authenticated u" and "pid_child u \<noteq> 0"
    and "effects u = []" and "stdin u = concat (map typed cs) @ ''4'' @ LF # r"
    and "server_ok s" and "benign os" and "2 \<le> nesting_limit os" and "\<forall>c \<in> set cs. valid c"
    and "all_fit cs (holdings s)"
  shows "\<exists>u' s'. handle_user_input fd u = Inr (Exits 0, u') \<and>
    block (map (hears os sfd) (sent (effects u'))) s = Inr ((), s') \<and> server_ok s' \<and>
    holdings s' = fold applied cs (holdings s)"
proof -
  have "concat (map (\<lambda>e. case e of Send _ bytes \<Rightarrow> [bytes] | _ \<Rightarrow> [])
      (map (\<lambda>c. Send fd (text_of (tcp_message c))) cs)) = map (\<lambda>c. text_of (tcp_message c)) cs"
    by (induction cs) auto
  then show ?thesis
    using tcp_session_run [OF assms(1-4) assms(10) assms(6), of fd] assms(5)
      commands_heard [OF assms(7-11), of sfd]
    by (simp add: sent_def o_def)
qed

theorem typed_commands_reach_supplies_witness:
  "\<exists>u' s'. handle_user_input 7 (tcp_user sample_input) = Inr (Exits 0, u') \<and>
    block (map (hears quiet_os 8) (sent (effects u'))) idle = Inr ((), s') \<and>
    holdings s' True = [0, 0, 0, 12]"
proof -
  note h = idle_holdings and u = fourth
  have "\<exists>u' s'. handle_user_input 7 (tcp_user sample_input) = Inr (Exits 0, u') \<and>
    block (map (hears quiet_os 8) (sent (effects u'))) idle = Inr ((), s') \<and> server_ok s' \<and>
    holdings s' = fold applied [Status, Update True 3 12] (holdings idle)"
    by (rule typed_commands_reach_supplies [where r = "[]", OF _ _ _ _ _ _ idle_ok quiet_benign])
      (simp_all add: sample_input_def h u keys_def food_keys_def int_bounds)
  then show ?thesis by (auto simp: h u)
qed

text \<open>
  C26: requests sent together. When two messages of a client are found by one call of \<open>recv\<close>,
  only the first is served: the parser leaves what follows the first text unread, and the second
  command is lost.
\<close>

theorem second_request_lost:
  assumes "server_ok s" and "benign os" and "2 \<le> nesting_limit os" and "valid c" and "valid c'"
    and "fits c (holdings s)"
  shows "\<exists>s'. check_tcp_clients_messages (delivering (text_of (tcp_message c) @ text_of (tcp_message c')) os) fd s =
      Inr (True, s') \<and> server_ok s' \<and> holdings s' = applied c (holdings s)"
proof -
  note p = plain_tcp_message [OF assms(5)]
  obtain t where "render True 0 (tcp_message c') = Some t" using plain_renders [OF p(1)] by blast
  then have "hd (text_of (tcp_message c')) = CHR ''{''"
    unfolding render.simps [of True 0 "tcp_message c'"]
    by (auto simp: text_of_def tcp_message_def render.simps [of True 0 "json_object x" for x])
  then have "\<not> number_char (hd (text_of (tcp_message c')))" by (simp add: number_char_def is_digit_def byte_def)
  moreover have "length (text_of (tcp_message c')) < 700"
    using text_of_length [OF short_tcp_message [OF assms(5)]] by simp
  ultimately show ?thesis
    using command_served [OF assms(1,2,4,3) _ c_string_text_of [OF p(1,2)], of fd] assms(6) by simp
qed

theorem second_request_lost_witness:
  "\<exists>s'. check_tcp_clients_messages
      (delivering (text_of (tcp_message (Update True 3 12)) @ text_of (tcp_message (Update True 0 5))) quiet_os) 8 idle =
      Inr (True, s') \<and> holdings s' True = [0, 0, 0, 12]"
proof -
  note h = idle_holdings and u = fourth
  show ?thesis
    using second_request_lost [OF idle_ok quiet_benign, of "Update True 3 12" "Update True 0 5" 8]
    by (auto simp: h u keys_def food_keys_def int_bounds quiet_os_def)
qed

section \<open>Authentication\<close>

definition authentication_message :: "string \<Rightarrow> cJSON" where
  "authentication_message h =
     json_object [member ''message'' (json_string ''authenticateme''), member ''hostname'' (json_string h)]"

lemma short_authentication: "c_string h \<Longrightarrow> length h \<le> 80 \<Longrightarrow> short_text (authentication_message h) 0 700"
  unfolding authentication_message_def
  by (rule short_object [where ms = "[(''message'', json_string ''authenticateme'', 100), (''hostname'', json_string h, 482)]"]) (auto simp: short_string)

lemma plain_authentication:
  "c_string h \<Longrightarrow> plain (authentication_message h)" "name (authentication_message h) = None"
  "nesting (authentication_message h) \<le> 2" "text_fields (authentication_message h)"
  "text_member (authentication_message h) ''message'' = Some ''authenticateme''"
  "text_member (authentication_message h) ''hostname'' = Some h"
  by (simp_all add: authentication_message_def text_fields_def text_member_def get_object_item_insensitive
      case_insensitive_strcmp_def tolower_def byte_def)

lemma authentication_sent:
  assumes "client_heap u = []" and "client_hostname os_release [] = Inr (h, [])" and "c_string h" and "length h \<le> 80"
  shows "tcp_client_authenticate fd os_release u =
    Inr ((), u\<lparr>effects := effects u @ [Send fd (text_of (authentication_message h))]\<rparr>)"
proof -
  have "authentication_object h [] = Inr (Some (authentication_message h), [])"
    by (simp add: authentication_object_def authentication_message_def run message_object_Nil)
  then show ?thesis
    using assms send_json_short [OF assms(1) short_authentication [OF assms(3,4)], of fd]
    by (simp add: tcp_client_authenticate_def run on_heap_run)
qed

section \<open>Messages of the server\<close>

definition notice :: "string \<Rightarrow> cJSON" where
  "notice m = json_object [member ''message'' (json_string m)]"

lemma notice_received:
  assumes "client_heap k = []" and "2 \<le> limit" and "c_string m" and "length m \<le> 20"
  shows "cJSON_Print (Some (notice m)) [] = Inr (Some (text_of (notice m)), [])"
    and "receive_json fd limit (Some (text_of (notice m))) k =
      (if m = ''disconnect'' then Inr (Exits 0, k\<lparr>effects := effects k @ [Kill (pid_parent k)]\<rparr>)
       else if m = ''auth_success'' then Inr (Again, k\<lparr>authenticated := True\<rparr>) else Inr (Again, k))"
proof -
  have short: "short_text (notice m) 0 200" unfolding notice_def by (rule short_message [OF assms(3,4)])
  then have short': "short_text (notice m) 0 5000" by (auto simp: short_text_def)
  then show "cJSON_Print (Some (notice m)) [] = Inr (Some (text_of (notice m)), [])"
    by (rule cJSON_Print_short) simp
  have p: "plain (notice m)" "name (notice m) = None" "nesting (notice m) \<le> limit"
    using assms(2,3) by (simp_all add: notice_def)
  have parse: "cJSON_Parse limit (text_of (notice m)) [] = Inr (Some (notice m), [])"
    using parse_text_of [OF p, of "[]"] by simp
  have len: "length (text_of (notice m)) < BUFFER_SIZE"
    using text_of_length [OF short] by (simp add: BUFFER_SIZE_def)
  have item: "cJSON_GetObjectItem (Some (notice m)) ''message'' = Some (member ''message'' (json_string m))"
    by (simp add: notice_def get_object_item_insensitive case_insensitive_strcmp_def)
  show "receive_json fd limit (Some (text_of (notice m))) k =
      (if m = ''disconnect'' then Inr (Exits 0, k\<lparr>effects := effects k @ [Kill (pid_parent k)]\<rparr>)
       else if m = ''auth_success'' then Inr (Again, k\<lparr>authenticated := True\<rparr>) else Inr (Again, k))"
    using message_received_run [OF assms(1) len c_string_text_of [OF p(1,2)] text_of_nonempty [OF p(1)]
        parse short' item, of m fd] by simp
qed

text \<open>
  C24: authentication. The client names itself by the identifier of its operating system; the
  server answers that the client is authenticated if that is the name of the administrator, and
  only then the child process of the client notes it.
\<close>

theorem authentication_answered:
  assumes "client_heap u = []" and "client_hostname os_release [] = Inr (h, [])" and "c_string h"
    and "length h \<le> 80" and "server_ok s" and "benign os" and "2 \<le> nesting_limit os"
    and "client_heap k = []" and "2 \<le> limit"
  shows "\<exists>request answer s'.
    tcp_client_authenticate fd os_release u = Inr ((), u\<lparr>effects := effects u @ [Send fd request]\<rparr>) \<and>
    check_tcp_clients_messages (delivering request os) sfd s = Inr (h = ADMIN_USER, s') \<and>
    outputs s' = outputs s @ [Send sfd answer] \<and>
    receive_json fd limit (Some answer) k =
      Inr (Again, k\<lparr>authenticated := (h = ADMIN_USER \<or> authenticated k)\<rparr>)"
proof -
  have n: "nesting (authentication_message h) \<le> nesting_limit os"
    using plain_authentication(3) [of h] assms(7) by simp
  note d = delivered_text [OF assms(6) plain_authentication(1) [OF assms(3)] plain_authentication(2) n plain_authentication(4)
      short_authentication [OF assms(3,4)], of "[]", simplified]
  let ?request = "text_of (authentication_message h)"
  let ?m = "if h = ADMIN_USER then ''auth_success'' else ''auth_failure''"
  obtain answer s' where a: "cJSON_Print (Some (notice ?m)) [] = Inr (Some answer, [])"
    "check_tcp_clients_messages (delivering ?request os) sfd s = Inr (h = ADMIN_USER, s')"
    "outputs s' = outputs s @ [Send sfd answer]"
    using tcp_authentication_run [OF assms(5) d plain_authentication(5,6), of sfd]
    by (auto simp: BUFFER_SIZE_def notice_def)
  note r = notice_received(1) [OF assms(8,9), of ?m] notice_received(2) [OF assms(8,9), of ?m fd]
  have "answer = text_of (notice ?m)" using a(1) r(1) by auto
  moreover have "k\<lparr>authenticated := authenticated k\<rparr> = k" by simp
  ultimately have "receive_json fd limit (Some answer) k =
      Inr (Again, k\<lparr>authenticated := (h = ADMIN_USER \<or> authenticated k)\<rparr>)"
    using r(2) by auto
  then show ?thesis
    using authentication_sent [OF assms(1-4)] a(2,3) by blast
qed

theorem authentication_answered_witness:
  "\<exists>request answer s'.
    tcp_client_authenticate 7 (Some sample_release) (tcp_user []) =
      Inr ((), (tcp_user [])\<lparr>effects := [Send 7 request]\<rparr>) \<and>
    check_tcp_clients_messages (delivering request quiet_os) 8 idle = Inr (True, s') \<and>
    outputs s' = [Send 8 answer]"
  using authentication_answered [OF _ sample_hostname _ _ idle_ok quiet_benign, of "tcp_user []" "tcp_user []" 1000 7 8]
  by (simp add: ADMIN_USER_def quiet_os_def) blast

text \<open>
  C25: a power failure ends the clients. When the notification reaches the server, each
  registered client is sent a message that makes its child process kill the parent and exit.
\<close>

theorem outage_ends_clients:
  assumes "server_ok s" and "benign os" and "unix_accepted os = Some c" and "incoming os c = Some bytes"
    and "bytes \<noteq> []" and "client_heap k = []" and "2 \<le> limit"
  shows "\<exists>message s'. handle_unix_socket_activity os fd True s = Inr ((), s') \<and>
    outputs s' = outputs s @ map (\<lambda>x. Send x message) (connected (tcp_clients s)) @ [Close c] \<and>
    receive_json cfd limit (Some message) k =
      Inr (Exits 0, k\<lparr>effects := effects k @ [Kill (pid_parent k)]\<rparr>)"
proof -
  note r = notice_received(1) [OF assms(6,7), of "''disconnect''"]
    notice_received(2) [OF assms(6,7), of "''disconnect''" cfd]
  obtain m where m: "cJSON_Print (Some (notice ''disconnect'')) [] = Inr (Some m, [])"
    "handle_unix_socket_activity os fd True s =
      Inr ((), s\<lparr>outputs := outputs s @ map (\<lambda>x. Send x m) (connected (tcp_clients s)) @ [Close c],
                 logs := logs s @ log_lines os (upto_nul bytes)\<rparr>)"
    using unix_notification_run [OF assms(1-5), of fd] by (auto simp: notice_def)
  have "m = text_of (notice ''disconnect'')" using m(1) r(1) by simp
  then show ?thesis using m(2) r(2) by (auto intro!: exI [of _ m])
qed

theorem outage_ends_clients_witness:
  "\<exists>message s'. handle_unix_socket_activity ((saying outage_bytes)\<lparr>unix_accepted := Some 9\<rparr>) 6 True idle =
     Inr ((), s') \<and>
    receive_json 7 1000 (Some message) (tcp_user []) =
     Inr (Exits 0, (tcp_user [])\<lparr>effects := [Kill (pid_parent (tcp_user []))]\<rparr>)"
proof -
  have "benign ((saying outage_bytes)\<lparr>unix_accepted := Some 9\<rparr>)"
    using sample_benign [of outage_bytes] by (simp add: benign_def)
  from outage_ends_clients [OF idle_ok this, of 9 outage_bytes "tcp_user []" 1000 6 7] show ?thesis
    by (auto simp: sample_bytes)
qed

end
