(* ===== verification/ServerStart.thy ===== *)
theory ServerStart
  imports ServerSteps CommandLine
begin

text \<open>
  The server process from its command line to its loop: \<open>main\<close> and \<open>start_server\<close> with the
  ports, the two children, the sockets, the FIFO and the shared memory, on a machine with a
  file system in which a path can be left over from an earlier run.
\<close>

section \<open>The machine\<close>

text \<open>Of the file system, the paths of the Unix socket and the FIFO; the calls on sockets; the
  region with the ports; the server process.\<close>

record host =
  paths :: "string set"
  socket_calls :: "call list"
  region :: "PortInfo option"
  server_process :: server

text \<open>\<open>fifo_number\<close> is the descriptor \<open>open\<close> returns for a FIFO that is there, and
  \<open>child_ready\<close> says that the alerts process has made its FIFO while the server sleeps.\<close>

record start_os =
  sock :: sock_os
  shared :: region_os
  unlink_allowed :: "string \<Rightarrow> bool"
  mkfifo_allowed :: bool
  fifo_number :: int
  alerts_fork :: int
  outage_fork :: int
  child_ready :: bool
  world :: os

type_synonym 'a hostm = "(host, 'a) prog"

definition on_sockets :: "'a sockm \<Rightarrow> 'a hostm" where
  "on_sockets = zoom socket_calls (\<lambda>c h. h\<lparr>socket_calls := c\<rparr>)"

definition on_server :: "'a srv \<Rightarrow> 'a hostm" where
  "on_server = zoom server_process (\<lambda>s h. h\<lparr>server_process := s\<rparr>)"

text \<open>\<open>unlink\<close> fails when there is nothing at the path, or for a reason that is only printed.\<close>

definition cleanup_unix_socket :: "start_os \<Rightarrow> string \<Rightarrow> unit hostm" where
  "cleanup_unix_socket os socket_path =
     modify (\<lambda>h. if unlink_allowed os socket_path then h\<lparr>paths := paths h - {socket_path}\<rparr> else h)"

definition cleanup_fifo :: "start_os \<Rightarrow> string \<Rightarrow> unit hostm" where
  "cleanup_fifo os fifo_path =
     modify (\<lambda>h. if unlink_allowed os fifo_path then h\<lparr>paths := paths h - {fifo_path}\<rparr> else h)"

text \<open>\<open>bind\<close> fails for a path that exists, and else makes it.\<close>

definition sockets_with :: "string set \<Rightarrow> sock_os \<Rightarrow> sock_os" where
  "sockets_with ps os = os\<lparr>bind_ok := (\<lambda>fd a. bind_ok os fd a \<and>
     (case a of Local p \<Rightarrow> p \<notin> ps | Internet _ \<Rightarrow> True))\<rparr>"

text \<open>What the alerts process does to the file system before its loop.\<close>

definition alerts_child_start :: "start_os \<Rightarrow> unit hostm" where
  "alerts_child_start os =
     andthen (cleanup_fifo os FIFO_PATH) (\<lambda>_.
     modify (\<lambda>h. if mkfifo_allowed os then h\<lparr>paths := insert FIFO_PATH (paths h)\<rparr> else h))"

section \<open>The server\<close>

definition MAX_CONNECTIONS :: int where
  "MAX_CONNECTIONS = 5"

definition start_server :: "start_os \<Rightarrow> int \<Rightarrow> int \<Rightarrow> sockets hostm" where
  "start_server os tcp_port udp_port =
     andthen (on_server (server_begin (world os))) (\<lambda>_.
     andthen (cleanup_unix_socket os SOCK_PATH) (\<lambda>_.
     andthen (modify (\<lambda>h. h\<lparr>region := share_ports_shared_memory (shared os) tcp_port udp_port (region h)\<rparr>)) (\<lambda>_.
     andthen (on_sockets (set_tcp_socket (sock os) tcp_port MAX_CONNECTIONS)) (\<lambda>tcp_socket_fd.
     andthen (on_sockets (set_udp_socket (sock os) udp_port)) (\<lambda>udp_socket_fd.
     andthen (gets paths) (\<lambda>ps.
     andthen (on_sockets (set_unix_socket (sockets_with ps (sock os)) SOCK_PATH 1 True)) (\<lambda>unix_socket_fd.
     andthen (modify (\<lambda>h. h\<lparr>paths := insert SOCK_PATH (paths h)\<rparr>)) (\<lambda>_.
     andthen (if child_ready os then alerts_child_start os else ret ()) (\<lambda>_.
     andthen (gets paths) (\<lambda>ps.
     let k = \<lparr>tcp_socket_fd = tcp_socket_fd, udp_socket_fd = udp_socket_fd,
              unix_socket_fd = unix_socket_fd,
              fifo_fd = (if FIFO_PATH \<in> ps then fifo_number os else - 1)\<rparr>
     in andthen (on_server (server_watch (world os) k)) (\<lambda>_. ret k)))))))))))"

definition server_main :: "start_os \<Rightarrow> string list \<Rightarrow> sockets hostm" where
  "server_main os argv =
     andthen (lift (parse_command_line_arguments argv (- 1, - 1))) (\<lambda>(tcp_port, udp_port).
     andthen (on_sockets (choose_ports (sock os) tcp_port udp_port)) (\<lambda>(tcp_port, udp_port).
     andthen (on_server (create_infection_alerts_process (alerts_fork os))) (\<lambda>_.
     andthen (on_server (create_power_outage_alert_process (outage_fork os))) (\<lambda>_.
     start_server os tcp_port udp_port))))"

section \<open>Starting\<close>

text \<open>The descriptors of a start, and the system calls that have to succeed.\<close>

definition start_sockets :: "start_os \<Rightarrow> sockets" where
  "start_sockets os =
     \<lparr>tcp_socket_fd = socket_call (sock os) AF_INET6 SOCK_STREAM,
      udp_socket_fd = socket_call (sock os) AF_INET6 SOCK_DGRAM,
      unix_socket_fd = socket_call (sock os) AF_UNIX SOCK_STREAM,
      fifo_fd = fifo_number os\<rparr>"

definition sockets_work :: "sock_os \<Rightarrow> bool" where
  "sockets_work os \<longleftrightarrow> (\<forall>fd. setsockopt_ok os fd) \<and> (\<forall>fd a. bind_ok os fd a) \<and> (\<forall>fd. listen_ok os fd) \<and>
     (\<forall>fd. getsockname_call os fd \<noteq> None) \<and> 0 \<le> socket_call os AF_INET SOCK_STREAM"

text \<open>The paths when the server opens the FIFO.\<close>

definition paths_at_open :: "start_os \<Rightarrow> string set \<Rightarrow> string set" where
  "paths_at_open os ps =
     (let ps1 = insert SOCK_PATH (if unlink_allowed os SOCK_PATH then ps - {SOCK_PATH} else ps);
          ps2 = (if unlink_allowed os FIFO_PATH then ps1 - {FIFO_PATH} else ps1)
      in if child_ready os then if mkfifo_allowed os then insert FIFO_PATH ps2 else ps2 else ps1)"

lemma two_paths [simp]: "SOCK_PATH \<noteq> FIFO_PATH" "FIFO_PATH \<noteq> SOCK_PATH"
  by (simp_all add: SOCK_PATH_def FIFO_PATH_def)

definition listening_calls :: "start_os \<Rightarrow> int \<Rightarrow> int \<Rightarrow> call list" where
  "listening_calls os tcp_port udp_port =
     (let k = start_sockets os in
      [Socket AF_INET6 SOCK_STREAM, Setsockopt (tcp_socket_fd k) SO_REUSEADDR 1,
       Bind (tcp_socket_fd k) (any_ipv6 tcp_port), Getsockname (tcp_socket_fd k), Listen (tcp_socket_fd k) 5,
       Socket AF_INET6 SOCK_DGRAM, Setsockopt (udp_socket_fd k) SO_REUSEPORT 0,
       Bind (udp_socket_fd k) (any_ipv6 udp_port),
       Socket AF_UNIX SOCK_STREAM, Bind (unix_socket_fd k) (Local SOCK_PATH), Listen (unix_socket_fd k) 1])"

definition serving :: "start_os \<Rightarrow> int \<Rightarrow> int \<Rightarrow> host \<Rightarrow> host" where
  "serving os tcp_port udp_port h =
     h\<lparr>paths := paths_at_open os (paths h),
       region := share_ports_shared_memory (shared os) tcp_port udp_port (region h),
       socket_calls := socket_calls h @ listening_calls os tcp_port udp_port,
       server_process := started (world os) (start_sockets os) (server_process h)\<rparr>"

definition starts :: "start_os \<Rightarrow> string set \<Rightarrow> bool" where
  "starts os ps \<longleftrightarrow> (SOCK_PATH \<notin> ps \<or> unlink_allowed os SOCK_PATH) \<and> FIFO_PATH \<in> paths_at_open os ps"

lemma sock_path_fits [simp]: "take 107 SOCK_PATH = SOCK_PATH"
  by (simp add: SOCK_PATH_def)

lemma server_begin_run:
  assumes "benign os"
  shows "server_begin os s = Inr ((), s\<lparr>logs := logs s @ log_lines os ''Server started'',
    entry_alerts_count := \<lparr>north = 0, south = 0, east = 0, west = 0\<rparr>\<rparr>)"
  using assms
  by (cases "entry_alerts_count s") (simp add: server_begin_def run log_event_run benignD initialize_entry_alerts_count_def)

lemma server_watch_run:
  assumes "benign os" and "sockets_ok k"
  shows "server_watch os k (s\<lparr>logs := logs s @ log_lines os ''Server started'',
      entry_alerts_count := \<lparr>north = 0, south = 0, east = 0, west = 0\<rparr>\<rparr>) = Inr ((), started os k s)"
  using start_server_setup_run [OF assms, of s] server_begin_run [OF assms(1), of s]
  by (simp add: start_server_setup_def run split: sum.splits prod.splits)

lemma server_watch_no_fifo: "fifo_fd k < 0 \<Longrightarrow> server_watch os k s = Inl (Exit 1)"
  by (simp add: server_watch_def run)

lemma server_sockets_run:
  assumes "sockets_work os"
  shows "0 \<le> socket_call os AF_INET6 SOCK_STREAM \<Longrightarrow> set_tcp_socket os port backlog cs =
      Inr (socket_call os AF_INET6 SOCK_STREAM, cs @ [Socket AF_INET6 SOCK_STREAM,
        Setsockopt (socket_call os AF_INET6 SOCK_STREAM) SO_REUSEADDR 1,
        Bind (socket_call os AF_INET6 SOCK_STREAM) (any_ipv6 port),
        Getsockname (socket_call os AF_INET6 SOCK_STREAM),
        Listen (socket_call os AF_INET6 SOCK_STREAM) backlog])"
    and "0 \<le> socket_call os AF_INET6 SOCK_DGRAM \<Longrightarrow> set_udp_socket os port cs =
      Inr (socket_call os AF_INET6 SOCK_DGRAM, cs @ [Socket AF_INET6 SOCK_DGRAM,
        Setsockopt (socket_call os AF_INET6 SOCK_DGRAM) SO_REUSEPORT 0,
        Bind (socket_call os AF_INET6 SOCK_DGRAM) (any_ipv6 port)])"
    and "0 \<le> socket_call os AF_UNIX SOCK_STREAM \<Longrightarrow> set_unix_socket (sockets_with ps os) SOCK_PATH b True cs =
      (if SOCK_PATH \<in> ps then Inl (Exit 1)
       else Inr (socket_call os AF_UNIX SOCK_STREAM, cs @ [Socket AF_UNIX SOCK_STREAM,
         Bind (socket_call os AF_UNIX SOCK_STREAM) (Local SOCK_PATH),
         Listen (socket_call os AF_UNIX SOCK_STREAM) b]))"
  using assms
  by (simp_all add: sockets_work_def set_tcp_socket_def set_udp_socket_def set_unix_socket_def new_socket_def
      must_def sys_def run Let_def sockets_with_def)

lemma start_server_run:
  assumes "benign (world os)" and "sockets_ok (start_sockets os)" and "sockets_work (sock os)"
  shows "start_server os tcp_port udp_port h =
    (if starts os (paths h) then Inr (start_sockets os, serving os tcp_port udp_port h) else Inl (Exit 1))"
proof -
  let ?k = "start_sockets os"
  have fds: "0 \<le> socket_call (sock os) AF_INET6 SOCK_STREAM" "0 \<le> socket_call (sock os) AF_INET6 SOCK_DGRAM"
    "0 \<le> socket_call (sock os) AF_UNIX SOCK_STREAM"
    using assms(2) by (simp_all add: sockets_ok_def start_sockets_def)
  note s = server_sockets_run(1) [OF assms(3) fds(1)] server_sockets_run(2) [OF assms(3) fds(2)]
    server_sockets_run(3) [OF assms(3) fds(3)]
  note w = server_watch_run [OF assms(1,2)]
  show ?thesis
  proof (cases "FIFO_PATH \<in> paths_at_open os (paths h)")
    case True
    then show ?thesis
      using w [of "server_process h"]
      by (auto simp: start_server_def run on_server_def on_sockets_def server_begin_run [OF assms(1)] s
          cleanup_unix_socket_def alerts_child_start_def cleanup_fifo_def paths_at_open_def starts_def serving_def
          listening_calls_def start_sockets_def MAX_CONNECTIONS_def Let_def split: if_splits)
  next
    case False
    then show ?thesis
      by (auto simp: start_server_def run on_server_def on_sockets_def server_begin_run [OF assms(1)] s
          cleanup_unix_socket_def alerts_child_start_def cleanup_fifo_def paths_at_open_def starts_def
          server_watch_no_fifo Let_def split: if_splits)
  qed
qed

lemma choose_ports_run:
  assumes "sockets_work os"
  obtains t u cs' where "choose_ports os tcp_port udp_port cs = Inr ((t, u), cs')" "t \<noteq> - 1" "u \<noteq> - 1"
    "tcp_port \<noteq> - 1 \<Longrightarrow> t = tcp_port" "udp_port \<noteq> - 1 \<Longrightarrow> u = udp_port"
proof -
  have "\<exists>p cs'. get_available_port os cs = Inr (p, cs')" for cs
    using assms by (auto simp: sockets_work_def get_available_port_def get_selected_port_def must_def sys_def
        run Let_def split: option.splits)
  then have "\<exists>t u cs'. choose_ports os tcp_port udp_port cs = Inr ((t, u), cs') \<and>
      (tcp_port \<noteq> - 1 \<longrightarrow> t = tcp_port) \<and> (udp_port \<noteq> - 1 \<longrightarrow> u = udp_port)"
    unfolding choose_ports_def by (auto simp: run split: sum.splits prod.splits) (metis Inr_not_Inl sum.exhaust)+
  then show ?thesis using that chosen_ports by metis
qed

text \<open>
  C32: from the command line to the loop. When the system calls succeed, the server starts if
  the socket file of an earlier run can be removed and the FIFO is there in time, and else ends
  with status 1. Its two sockets are bound to the ports of the command line, or to free ones;
  clients started without a port find them in the shared memory; and from then on the process
  is safe, whatever clients send in a benign world (in which no peer resets a connection the
  server sends to, and from the start of which no allocation fails).
\<close>

theorem server_starts:
  assumes "benign (world os)" and "sockets_ok (start_sockets os)" and "sockets_work (sock os)"
    and "0 \<le> alerts_fork os" and "0 \<le> outage_fork os"
    and "shared os = \<lparr>shm_open_ok = True, ftruncate_ok = True, mmap_ok = True\<rparr>"
    and "parse_command_line_arguments argv (- 1, - 1) = Inr (tcp_arg, udp_arg)"
    and "server_process h = initial_server" and "shm_open_ok ros" and "mmap_ok ros"
  shows "if starts os (paths h)
    then \<exists>tcp_port udp_port h'. server_main os argv h = Inr (start_sockets os, h') \<and>
      (tcp_arg \<noteq> - 1 \<longrightarrow> tcp_port = tcp_arg) \<and> (udp_arg \<noteq> - 1 \<longrightarrow> udp_port = udp_arg) \<and>
      {Bind (tcp_socket_fd (start_sockets os)) (any_ipv6 tcp_port),
       Bind (udp_socket_fd (start_sockets os)) (any_ipv6 udp_port)} \<subseteq> set (socket_calls h') \<and>
      tcp_get_port ros (region h') (- 1) = Inr tcp_port \<and>
      map_sum id fst (udp_get_port ros (region h') []) = Inr udp_port \<and>
      (\<forall>p. (server_step (\<lambda>_. benign) (start_sockets os))\<^sup>*\<^sup>* (Up (server_process h')) p \<longrightarrow>
        process_ok server_ok overflow p)
    else server_main os argv h = Inl (Exit 1)"
proof -
  let ?k = "start_sockets os"
  obtain t u cs where c: "choose_ports (sock os) tcp_arg udp_arg (socket_calls h) = Inr ((t, u), cs)"
    "t \<noteq> - 1" "u \<noteq> - 1" "tcp_arg \<noteq> - 1 \<Longrightarrow> t = tcp_arg" "udp_arg \<noteq> - 1 \<Longrightarrow> u = udp_arg"
    using choose_ports_run [OF assms(3)] by blast
  let ?h = "h\<lparr>socket_calls := cs, server_process := initial_server\<lparr>alerts_pid := alerts_fork os\<rparr>\<rparr>"
  have m: "server_main os argv h = start_server os t u ?h"
    using assms(4,5,7,8)
    by (simp add: server_main_def run on_sockets_def on_server_def c(1) create_infection_alerts_process_def
        create_power_outage_alert_process_def)
  note s = start_server_run [OF assms(1-3), of t u ?h]
  show ?thesis
  proof (cases "starts os (paths h)")
    case True
    let ?h' = "serving os t u ?h"
    have safe: "process_ok server_ok overflow p"
      if "(server_step (\<lambda>_. benign) ?k)\<^sup>*\<^sup>* (Up (server_process ?h')) p" for p
    proof (rule reachable_ok [OF _ _ _ that])
      show "process_ok server_ok overflow (Up (server_process ?h'))"
        using started_with_children [OF assms(2)] by (simp add: serving_def)
    qed (auto intro: safeD keeps_loop_step keeps_sigint assms(2))
    have r: "region ?h' = Some \<lparr>info_tcp_port = t, info_udp_port = u\<rparr>"
      by (simp add: serving_def share_ports_shared_memory_def assms(6))
    have "tcp_get_port ros (region ?h') (- 1) = Inr t" "map_sum id fst (udp_get_port ros (region ?h') []) = Inr u"
      using c(2,3) assms(9,10)
      by (simp_all add: tcp_get_port_def udp_get_port_def get_port_whith_shared_mem_def r Let_def
          parse_command_line_args_def)
    moreover have "server_main os argv h = Inr (?k, ?h')"
      using m s True by simp
    moreover have "{Bind (tcp_socket_fd ?k) (any_ipv6 t), Bind (udp_socket_fd ?k) (any_ipv6 u)}
        \<subseteq> set (socket_calls ?h')"
      by (simp add: serving_def listening_calls_def Let_def)
    ultimately show ?thesis using True c(4,5) safe by auto
  next
    case False
    then show ?thesis using m s by simp
  qed
qed

definition starting_os :: start_os where
  "starting_os =
     \<lparr>sock = \<lparr>socket_call = (\<lambda>d t. if d = AF_UNIX then 5 else if t = SOCK_STREAM then 3 else 4),
        setsockopt_ok = (\<lambda>_. True), bind_ok = (\<lambda>_ _. True), listen_ok = (\<lambda>_. True),
        getsockname_call = (\<lambda>_. Some (Sockaddr_in 40000 [0, 0, 0, 0])), connect_ok = (\<lambda>_. True)\<rparr>,
      shared = \<lparr>shm_open_ok = True, ftruncate_ok = True, mmap_ok = True\<rparr>,
      unlink_allowed = (\<lambda>_. True), mkfifo_allowed = True, fifo_number = 6, alerts_fork = 201,
      outage_fork = 202, child_ready = True, world = quiet_os\<rparr>"

text \<open>A server started again after a crash that left both files behind.\<close>

theorem server_starts_witness:
  "\<exists>udp_port h'. server_main starting_os [''-p'', ''tcp'', ''8080'']
      \<lparr>paths = {SOCK_PATH, FIFO_PATH}, socket_calls = [], region = None, server_process = initial_server\<rparr> =
        Inr (start_sockets starting_os, h') \<and>
    tcp_get_port working_region (region h') (- 1) = Inr 8080 \<and>
    Bind 4 (any_ipv6 udp_port) \<in> set (socket_calls h')"
proof -
  let ?h = "\<lparr>paths = {SOCK_PATH, FIFO_PATH}, socket_calls = [], region = None, server_process = initial_server\<rparr>"
  have k: "start_sockets starting_os = \<lparr>tcp_socket_fd = 3, udp_socket_fd = 4, unix_socket_fd = 5, fifo_fd = 6\<rparr>"
    by (simp add: start_sockets_def starting_os_def)
  have a: "parse_command_line_arguments [''-p'', ''tcp'', ''8080''] (- 1, - 1) = Inr (8080, - 1)"
    by (simp add: parse_command_line_arguments_def atoi_def scan_int_def strip_sign_def
        isspace_def is_digit_def byte_def digit_val_def int_bounds)
  have b: "benign (world starting_os)" "sockets_ok (start_sockets starting_os)" "sockets_work (sock starting_os)"
    "0 \<le> alerts_fork starting_os" "0 \<le> outage_fork starting_os"
    "shared starting_os = \<lparr>shm_open_ok = True, ftruncate_ok = True, mmap_ok = True\<rparr>"
    "starts starting_os {SOCK_PATH, FIFO_PATH}"
    unfolding k by (simp_all add: sockets_ok_def sockets_work_def starting_os_def quiet_benign FD_SETSIZE_def
        starts_def paths_at_open_def)
  show ?thesis
    using server_starts [OF b(1-6) a, of ?h working_region] b(7)
    by (auto simp: k working_region_def)
qed

end
