(* ===== verification/Signals.thy ===== *)
theory Signals
  imports ServerSteps
begin

text \<open>
  How the server ends. Nothing but the signal handler clears \<open>running\<close> or kills a child, so
  every end of the process is a state in which it was serving, followed by the signals; the
  entry "Server turned off" is written when a signal comes between two passes, and is not
  when it comes inside \<open>select\<close>, where the server spends its time.
\<close>

section \<open>What only the handler changes\<close>

fun is_kill :: "effect \<Rightarrow> bool" where
  "is_kill (Kill pid) = True"
| "is_kill _ = False"

definition killed :: "server \<Rightarrow> effect list" where
  "killed s = filter is_kill (outputs s)"

text \<open>The loop's flag, the ids of the children, and the signals sent to them so far.\<close>

definition control :: "server \<Rightarrow> bool \<times> int \<times> int \<times> effect list" where
  "control s = (running s, alerts_pid s, power_outage_pid s, killed s)"

lemma control_frame [simp]:
  "control (s\<lparr>logs := l\<rparr>) = control s" "control (s\<lparr>heap := h\<rparr>) = control s"
  "control (s\<lparr>tcp_clients := t\<rparr>) = control s" "control (s\<lparr>udp_clients := u\<rparr>) = control s"
  "control (s\<lparr>emergency_info := i\<rparr>) = control s" "control (s\<lparr>entry_alerts_count := c\<rparr>) = control s"
  "control (s\<lparr>segments := g\<rparr>) = control s" "control (s\<lparr>master_fds := m\<rparr>) = control s"
  "control (s\<lparr>max_fd := x\<rparr>) = control s" "control (store_supplies ps s) = control s"
  "\<not> is_kill e \<Longrightarrow> control (s\<lparr>outputs := outputs s @ [e]\<rparr>) = control s"
  by (simp_all add: control_def killed_def store_supplies_def)

abbreviation steady :: "bool \<times> int \<times> int \<times> effect list \<Rightarrow> 'a srv \<Rightarrow> bool" where
  "steady c \<equiv> safe (\<lambda>s. control s = c) (\<lambda>_. True)"

named_theorems steady_rules

lemma steady_zoom: "(\<And>x t. control (p x t) = control t) \<Longrightarrow> steady c (zoom g p m)"
  by (simp add: safe_def wp_def run split: sum.splits prod.splits)

lemma steady_basics [steady_rules]:
  "steady c (with_heap h)" "steady c (on_tcp t)" "steady c (on_udp u)" "steady c (update_supplies os json)"
  "\<not> is_kill e \<Longrightarrow> steady c (emit e)" "steady c (log_event os m)" "steady c (filled r)"
  "steady c (record_event os m)" "steady c (send_call os fd m)"
  unfolding with_heap_def on_tcp_def on_udp_def update_supplies_def emit_def log_event_def
    get_home_dir_def filled_def record_event_def send_call_def
  by (auto intro!: safe_rules steady_zoom split: option.splits)

lemma steady_messages [steady_rules]:
  "steady c (log_message os m x)" "steady c (log_total os m n)" "steady c (get_tcp_client_ip os fd)"
  "steady c (peer_ip addr)" "steady c (connection_message addr)"
  "steady c (send_json_to_tcp_client os fd json)" "steady c (send_json_to_udp_client os fd addr len json)"
  "steady c (add_tcp_client os fd)" "steady c (remove_tcp_client os fd)" "steady c (add_udp_client os cl)"
  "steady c (send_to_all_tcp_clients os p)" "steady c (send_to_all_udp_clients t)"
  "steady c (receive_tcp_json os fd)" "steady c (receive_udp_json os)" "steady c (summary os)"
  "steady c (fd_set_add fd)" "steady c (fd_set_remove fd)"
  unfolding log_message_def log_total_def get_tcp_client_ip_def peer_ip_def connection_message_def
    send_json_to_tcp_client_def send_json_to_udp_client_def add_tcp_client_def remove_tcp_client_def
    add_udp_client_def send_to_all_tcp_clients_def send_to_all_udp_clients_def receive_tcp_json_def
    receive_udp_json_def summary_def fd_set_add_def fd_set_remove_def
  by (auto intro!: safe_rules steady_rules split: sockaddr.splits option.splits)

lemma steady_requests [steady_rules]:
  "steady c (answer_authentication os fd text reply r)" "steady c (tcp_request os fd json m)"
  "steady c (udp_request os fd addr len ip json m auth)" "steady c (broadcast_alert os a)"
  unfolding answer_authentication_def tcp_request_def tcp_status_def tcp_update_def tcp_summary_def
    tcp_invalid_def udp_request_def udp_update_def udp_status_def udp_summary_def
    broadcast_alert_def Let_def
  by (auto intro!: safe_rules steady_rules steady_zoom split del: if_split)

lemma steady_handlers [steady_rules]:
  "steady c (check_tcp_clients_messages os fd)" "steady c (check_udp_clients_messages os fd)"
  "steady c (check_alerts os)" "steady c (handle_unix_socket_activity os fd b)"
  "steady c (drop_client os fd)" "steady c (accept_tcp_connection os)"
  unfolding check_tcp_clients_messages_def authenticate_def check_udp_clients_messages_def
    check_alerts_def handle_unix_socket_activity_def drop_client_def accept_tcp_connection_def Let_def
  by (auto intro!: safe_rules steady_rules split del: if_split)

lemma steady_dispatch [steady_rules]: "steady c (dispatch os k fd)"
  unfolding dispatch_def handle_tcp_accept_def handle_udp_socket_activity_def
    handle_tcp_socket_activity_def
  by (auto intro!: safe_rules steady_rules split del: if_split)

lemma steady_sweep [steady_rules]: "steady c (sweep fuel os k read_fds fd)"
  by (induction fuel arbitrary: fd) (auto intro!: safe_rules steady_rules)

lemma steady_round: "steady c (server_round os k)"
  unfolding server_round_def by (auto intro!: safe_rules steady_rules)

lemma pass_control: "server_round os k s = Inr (u, s') \<Longrightarrow> control s' = control s"
  using safeD [OF steady_round, of s "control s" os k] by (simp add: wp_def)

section \<open>A signal during a pass\<close>

text \<open>
  A computation that neither reads nor writes \<open>running\<close>: clearing it first or afterwards is the
  same. So a signal that comes while a handler of the pass runs acts as one right after it.
\<close>

definition clear :: "server \<Rightarrow> server" where
  "clear s = s\<lparr>running := False\<rparr>"

definition blind :: "'a srv \<Rightarrow> bool" where
  "blind m \<longleftrightarrow> (\<forall>s. m (clear s) = map_sum id (map_prod id clear) (m s))"

named_theorems blind_rules

lemma clear_frame [simp]:
  "alerts_pid (clear s) = alerts_pid s" "power_outage_pid (clear s) = power_outage_pid s"
  "tcp_clients (clear s) = tcp_clients s" "udp_clients (clear s) = udp_clients s"
  "entry_alerts_count (clear s) = entry_alerts_count s" "emergency_info (clear s) = emergency_info s"
  "segments (clear s) = segments s" "master_fds (clear s) = master_fds s" "max_fd (clear s) = max_fd s"
  "heap (clear s) = heap s" "logs (clear s) = logs s" "outputs (clear s) = outputs s"
  "supply_pointers os (clear s) = supply_pointers os s"
  by (simp_all add: clear_def supply_pointers_def)

lemma clear_update [simp]:
  "clear (s\<lparr>logs := x0\<rparr>) = clear s\<lparr>logs := x0\<rparr>" "clear (s\<lparr>heap := x1\<rparr>) = clear s\<lparr>heap := x1\<rparr>"
  "clear (s\<lparr>tcp_clients := x2\<rparr>) = clear s\<lparr>tcp_clients := x2\<rparr>" "clear (s\<lparr>udp_clients := x3\<rparr>) = clear s\<lparr>udp_clients := x3\<rparr>"
  "clear (s\<lparr>emergency_info := x4\<rparr>) = clear s\<lparr>emergency_info := x4\<rparr>" "clear (s\<lparr>entry_alerts_count := x5\<rparr>) = clear s\<lparr>entry_alerts_count := x5\<rparr>"
  "clear (s\<lparr>segments := x6\<rparr>) = clear s\<lparr>segments := x6\<rparr>" "clear (s\<lparr>master_fds := x7\<rparr>) = clear s\<lparr>master_fds := x7\<rparr>"
  "clear (s\<lparr>max_fd := x8\<rparr>) = clear s\<lparr>max_fd := x8\<rparr>" "clear (s\<lparr>outputs := x9\<rparr>) = clear s\<lparr>outputs := x9\<rparr>"
  "clear (store_supplies ps s) = store_supplies ps (clear s)"
  by (simp_all add: clear_def store_supplies_def cong: option.case_cong)

lemma blind_basic [blind_rules]:
  "blind (ret x)" "blind (halt e)" "blind (lift r)" "blind (deref p)"
  by (simp_all add: blind_def deref_def run split: sum.splits option.splits)

lemma blind_andthen [blind_rules]: "blind m \<Longrightarrow> (\<And>x. blind (f x)) \<Longrightarrow> blind (andthen m f)"
  by (simp add: blind_def run split: sum.splits prod.splits)

lemma blind_block [blind_rules]: "(\<And>m. m \<in> set ms \<Longrightarrow> blind m) \<Longrightarrow> blind (block ms)"
  by (induction ms) (auto simp: block.simps intro: blind_rules)

lemma blind_gets [blind_rules]: "(\<And>s. f (clear s) = f s) \<Longrightarrow> blind (gets f)"
  by (simp add: blind_def run)

lemma blind_modify [blind_rules]: "(\<And>s. f (clear s) = clear (f s)) \<Longrightarrow> blind (modify f)"
  by (simp add: blind_def run)

lemma blind_zoom [blind_rules]:
  "(\<And>s. g (clear s) = g s) \<Longrightarrow> (\<And>x s. p x (clear s) = clear (p x s)) \<Longrightarrow> blind (zoom g p m)"
  by (simp add: blind_def run split: sum.splits)

lemma blind_cases [blind_rules]:
  "(b \<Longrightarrow> blind m) \<Longrightarrow> (\<not> b \<Longrightarrow> blind m') \<Longrightarrow> blind (if b then m else m')"
  "(x = None \<Longrightarrow> blind m) \<Longrightarrow> (\<And>y. x = Some y \<Longrightarrow> blind (f y)) \<Longrightarrow>
    blind (case x of None \<Rightarrow> m | Some y \<Rightarrow> f y)"
  "(\<And>y z. q = (y, z) \<Longrightarrow> blind (h y z)) \<Longrightarrow> blind (case q of (y, z) \<Rightarrow> h y z)"
  by (auto split: option.splits prod.splits)

lemma blind_operations [blind_rules]:
  "blind (with_heap h)" "blind (on_tcp t)" "blind (on_udp u)" "blind (update_supplies os json)"
  "blind (emit e)" "blind (log_event os m)" "blind (filled r)" "blind (record_event os m)"
  "blind (send_call os fd m)" "blind (fd_set_add fd)" "blind (fd_set_remove fd)"
  unfolding with_heap_def on_tcp_def on_udp_def update_supplies_def emit_def log_event_def
    get_home_dir_def filled_def record_event_def send_call_def fd_set_add_def fd_set_remove_def
  by (auto intro!: blind_rules simp: Let_def split: option.splits)

lemma blind_messages [blind_rules]:
  "blind (log_message os m x)" "blind (log_total os m n)" "blind (get_tcp_client_ip os fd)"
  "blind (peer_ip addr)" "blind (connection_message addr)"
  "blind (send_json_to_tcp_client os fd json)" "blind (send_json_to_udp_client os fd addr len json)"
  "blind (add_tcp_client os fd)" "blind (remove_tcp_client os fd)" "blind (add_udp_client os cl)"
  "blind (send_to_all_tcp_clients os p)" "blind (send_to_all_udp_clients t)"
  "blind (receive_tcp_json os fd)" "blind (receive_udp_json os)"
  unfolding log_message_def log_total_def get_tcp_client_ip_def peer_ip_def connection_message_def
    send_json_to_tcp_client_def send_json_to_udp_client_def add_tcp_client_def remove_tcp_client_def
    add_udp_client_def send_to_all_tcp_clients_def send_to_all_udp_clients_def receive_tcp_json_def
    receive_udp_json_def Let_def
  by (auto intro!: blind_rules split: sockaddr.splits option.splits)

lemma blind_summary [blind_rules]: "blind (summary os)"
  by (simp add: blind_def summary_def with_heap_def run split: sum.splits)

lemma blind_requests [blind_rules]:
  "blind (answer_authentication os fd text reply r)" "blind (tcp_request os fd json m)"
  "blind (udp_request os fd addr len ip json m auth)" "blind (broadcast_alert os a)"
  unfolding answer_authentication_def tcp_request_def tcp_status_def tcp_update_def tcp_summary_def
    tcp_invalid_def udp_request_def udp_update_def udp_status_def udp_summary_def
    broadcast_alert_def Let_def
  by (auto intro!: blind_rules split del: if_split)

lemma blind_handlers [blind_rules]:
  "blind (check_tcp_clients_messages os fd)" "blind (check_udp_clients_messages os fd)"
  "blind (check_alerts os)" "blind (handle_unix_socket_activity os fd b)"
  "blind (drop_client os fd)" "blind (accept_tcp_connection os)"
  unfolding check_tcp_clients_messages_def authenticate_def check_udp_clients_messages_def
    check_alerts_def handle_unix_socket_activity_def drop_client_def accept_tcp_connection_def Let_def
  by (auto intro!: blind_rules split del: if_split)

lemma blind_dispatch [blind_rules]: "blind (dispatch os k fd)"
  unfolding dispatch_def handle_tcp_accept_def handle_udp_socket_activity_def
    handle_tcp_socket_activity_def
  by (auto intro!: blind_rules cong: if_cong split del: if_split)

lemma blind_sweep [blind_rules]: "blind (sweep fuel os k read_fds fd)"
  by (induction fuel arbitrary: fd) (auto intro!: blind_rules)

lemma pass_reads_no_flag: "blind (server_round os k)"
  unfolding server_round_def by (auto intro!: blind_rules)

text \<open>The pass of a server that is signalled before, and of one that is signalled after it: they
  end in the same state, and would kill the same children.\<close>

lemma signal_during_pass:
  assumes "server_round os k s = Inr (u, t)"
  shows "server_round os k (clear s) = Inr (u, clear t) \<and> kills t = kills s"
  using assms pass_reads_no_flag [of os k] pass_control [OF assms]
  by (simp add: blind_def control_def kills_def)

section \<open>The end of the process\<close>

definition signalled :: "nat \<Rightarrow> server \<Rightarrow> server" where
  "signalled n s = s\<lparr>running := False, outputs := outputs s @ concat (replicate n (kills s))\<rparr>"

definition turned_off :: "os \<Rightarrow> server \<Rightarrow> server" where
  "turned_off os s = s\<lparr>logs := logs s @ log_lines os ''Server turned off''\<rparr>"

text \<open>A state in which a server that started in \<open>s0\<close> serves, with the children it started with
  and no signal sent to them.\<close>

definition still_serving :: "sockets \<Rightarrow> server \<Rightarrow> server \<Rightarrow> bool" where
  "still_serving k s0 s \<longleftrightarrow> (server_step (\<lambda>_. benign) k)\<^sup>*\<^sup>* (Up s0) (Up s) \<and> running s \<and>
     alerts_pid s = alerts_pid s0 \<and> power_outage_pid s = power_outage_pid s0 \<and> killed s = killed s0"

lemma signalled_frame [simp]: "\<not> running (signalled n s)" "kills (signalled n s) = kills s"
  by (simp_all add: signalled_def kills_def)

lemma signal_run: "sigint_handler s = Inr ((), signalled 1 s)"
  by (simp add: sigint_run signalled_def)

lemma signalled_again [simp]: "signalled (Suc 0) (signalled n s) = signalled (Suc n) s"
  by (simp add: signalled_def kills_def replicate_append_same [symmetric])

lemma loop_step_running:
  "running s \<Longrightarrow> server_loop_step os k s = Inr (b, s') \<Longrightarrow> b \<and> server_round os k s = Inr ((), s')"
  by (auto simp: server_loop_step_def run split: sum.splits)

lemma loop_step_stopped:
  "benign os \<Longrightarrow> \<not> running s \<Longrightarrow> server_loop_step os k s = Inr (False, turned_off os s)"
  by (simp add: server_loop_step_def run log_event_run benignD turned_off_def)

text \<open>What the process is, given what it was when it served last.\<close>

fun ended_well :: "sockets \<Rightarrow> server \<Rightarrow> process \<Rightarrow> bool" where
  "ended_well k s0 (Up s) =
     (still_serving k s0 s \<or> (\<exists>r n. still_serving k s0 r \<and> 0 < n \<and> s = signalled n r))"
| "ended_well k s0 (Down s) =
     (\<exists>r n os. still_serving k s0 r \<and> 0 < n \<and> benign os \<and> s = turned_off os (signalled n r))"
| "ended_well k s0 (Exited c s) = (c = 1 \<and> (\<exists>r. still_serving k s0 r \<and> s = signalled 1 r))"
| "ended_well k s0 (Crashed e) = True"

lemma still_serving_pass:
  assumes "still_serving k s0 s" and "benign os" and "server_loop_step os k s = Inr (True, s')"
  shows "still_serving k s0 s'"
proof -
  have "running s" using assms(1) by (simp add: still_serving_def)
  then have "control s' = control s"
    using loop_step_running [OF _ assms(3)] pass_control by blast
  moreover have "server_step (\<lambda>_. benign) k (Up s) (Up s')"
    by (rule server_step.pass) (use assms in auto)
  ultimately show ?thesis
    using assms(1) rtranclp.rtrancl_into_rtrancl by (fastforce simp: still_serving_def control_def)
qed

lemma ended_well_reachable:
  assumes "running s0" and "(server_step (\<lambda>_. benign) k)\<^sup>*\<^sup>* (Up s0) p"
  shows "ended_well k s0 p"
  using assms(2)
proof (induction rule: rtranclp_induct)
  case base
  show ?case using assms(1) by (simp add: still_serving_def)
next
  case (step p q)
  from step.hyps(2) step.IH show ?case
  proof (induction rule: server_step.induct)
    case (pass s os s')
    then show ?case using still_serving_pass by (auto simp: loop_step_stopped)
  next
    case (leave s os s')
    then show ?case
      using loop_step_running [OF _ leave(2)] by (fastforce simp: loop_step_stopped still_serving_def)
  next
    case (signal s s')
    then show ?case by (fastforce simp: signal_run)
  next
    case (interrupt s s' os c)
    then show ?case by (auto simp: signal_run)
  qed simp
qed

lemma stopped_step:
  assumes "\<not> running s"
  shows "server_step (\<lambda>_. benign) k (Up s) q \<longleftrightarrow>
    q = Up (signalled (Suc 0) s) \<or> (\<exists>os. benign os \<and> q = Down (turned_off os s))"
proof
  show "server_step (\<lambda>_. benign) k (Up s) q \<Longrightarrow>
      q = Up (signalled (Suc 0) s) \<or> (\<exists>os. benign os \<and> q = Down (turned_off os s))"
    by (erule up_stepE) (use assms in \<open>auto simp: loop_step_stopped signal_run\<close>)
  show "q = Up (signalled (Suc 0) s) \<or> (\<exists>os. benign os \<and> q = Down (turned_off os s)) \<Longrightarrow>
      server_step (\<lambda>_. benign) k (Up s) q"
    using assms
    by (auto simp: signal_run loop_step_stopped intro: server_step.signal server_step.leave)
qed

text \<open>
  C17: how a server that keeps its invariant ends. A running server has sent no signal to its
  children, and SIGINT can end it at once, inside \<open>select\<close>: it kills its children and exits with
  status 1, with no log entry. When the signal comes between two passes, the server serves
  nobody any more: all it can still do is to handle further signals, each of which kills the
  children again, or to write "Server turned off" and leave the loop. It ends in no other way
  but by the overflow of a counter; in particular it never leaves the loop without a signal,
  and the entry is never written by a server that exits.
\<close>

theorem signal_ends_server:
  assumes "sockets_ok k" and "server_ok s0" and "running s0"
    and "(server_step (\<lambda>_. benign) k)\<^sup>*\<^sup>* (Up s0) p"
  shows "case p of
      Up s \<Rightarrow>
        if running s
        then still_serving k s0 s \<and> server_step (\<lambda>_. benign) k p (Exited 1 (signalled 1 s))
        else (\<exists>r n. still_serving k s0 r \<and> 0 < n \<and> s = signalled n r) \<and>
          (\<forall>q. server_step (\<lambda>_. benign) k p q \<longleftrightarrow>
             q = Up (signalled 1 s) \<or> (\<exists>os. benign os \<and> q = Down (turned_off os s)))
    | Down s \<Rightarrow> \<exists>r n os. still_serving k s0 r \<and> 0 < n \<and> benign os \<and> s = turned_off os (signalled n r)
    | Exited c s \<Rightarrow> c = 1 \<and> (\<exists>r. still_serving k s0 r \<and> s = signalled 1 r)
    | Crashed e \<Rightarrow> e = Fault Signed_overflow"
proof -
  have ended: "ended_well k s0 p" by (rule ended_well_reachable [OF assms(3,4)])
  have ok: "process_ok server_ok overflow p"
    by (rule reachable_ok [OF _ _ _ assms(4)])
      (use assms(1,2) in \<open>auto intro: safeD keeps_loop_step keeps_sigint\<close>)
  show ?thesis
  proof (cases p)
    case (Up s)
    have "server_step (\<lambda>_. benign) k (Up s) (Exited 1 (signalled 1 s))" if "running s"
      by (rule interrupt [OF that signal_run interrupted_round])
    then show ?thesis
      using Up ended by (auto simp: still_serving_def stopped_step)
  next
    case (Crashed e)
    then show ?thesis using ok by simp
  qed (use ended in auto)
qed

definition serving_server :: server where
  "serving_server = started quiet_os four_sockets (initial_server\<lparr>alerts_pid := 71\<rparr>)"

text \<open>The same server ended by a signal inside \<open>select\<close>, and by one between two passes.\<close>

theorem signal_ends_server_witness:
  "\<exists>s s'. (server_step (\<lambda>_. benign) four_sockets)\<^sup>*\<^sup>* (Up serving_server) (Exited 1 s) \<and>
     killed s = [Kill 71] \<and> logs s = logs serving_server \<and>
     (server_step (\<lambda>_. benign) four_sockets)\<^sup>*\<^sup>* (Up serving_server) (Down s') \<and>
     killed s' = [Kill 71] \<and> logs s' \<noteq> logs serving_server"
proof -
  let ?step = "server_step (\<lambda>_. benign) four_sockets"
  let ?s = "signalled 1 serving_server"
  have "server_ok serving_server"
    unfolding serving_server_def by (rule started_with_children [OF four_sockets_ok])
  moreover have "running serving_server"
    by (simp add: serving_server_def started_def initial_server_def)
  ultimately have start: "server_ok serving_server" "running serving_server" .
  note C = signal_ends_server [OF four_sockets_ok start]
  have 1: "?step (Up serving_server) (Exited 1 ?s)"
    using C [OF rtranclp.rtrancl_refl] start(2) by simp
  have 2: "?step (Up serving_server) (Up ?s)"
    by (rule signal [OF signal_run])
  have step: "?step (Up ?s) q \<longleftrightarrow> q = Up (signalled 1 ?s) \<or> (\<exists>os. benign os \<and> q = Down (turned_off os ?s))" for q
    using C [OF r_into_rtranclp [where r = ?step, OF 2]] by simp
  have 3: "?step (Up ?s) (Down (turned_off quiet_os ?s))"
    by (rule iffD2 [OF step]) (intro disjI2 exI [where x = quiet_os] conjI quiet_benign refl)
  have "killed ?s = [Kill 71]" "logs ?s = logs serving_server"
    by (simp_all add: killed_def signalled_def kills_def serving_server_def started_def initial_server_def)
  moreover have "killed (turned_off quiet_os ?s) = killed ?s"
    by (simp add: killed_def turned_off_def)
  moreover have "log_lines quiet_os ''Server turned off'' \<noteq> []"
    by (simp add: log_lines_def quiet_os_def Let_def)
  ultimately show ?thesis
    using r_into_rtranclp [where r = ?step, OF 1]
      rtranclp.rtrancl_into_rtrancl [OF r_into_rtranclp [where r = ?step, OF 2] 3]
    by (intro exI [where x = ?s] exI [where x = "turned_off quiet_os ?s"]) (simp add: turned_off_def)
qed

end
