(* ===== verification/UnixClients.thy ===== *)
theory UnixClients
  imports ServerProps SocketSetup
begin

text \<open>
  The two small clients of the Unix socket (\<open>src/clients/unix_client_stream.c\<close> and
  \<open>unix_client_dgram.c\<close>), as the calls they make, and what the first does to the server; and the
  connection the tests of the server make (\<open>src/server/server_mocks.c\<close>).
\<close>

definition HELLO :: string where
  "HELLO = ''Hello from Unix client!''"

definition unix_client_stream :: "sock_os \<Rightarrow> bool \<Rightarrow> unit sockm" where
  "unix_client_stream os delivers =
     andthen (must (Socket AF_UNIX SOCK_STREAM) (socket_call os AF_UNIX SOCK_STREAM \<noteq> - 1)) (\<lambda>_.
     let sockfd = socket_call os AF_UNIX SOCK_STREAM in
     andthen (must (Connect sockfd (Local SOCK_PATH)) (connect_ok os sockfd)) (\<lambda>_.
     andthen (must (Send_bytes sockfd HELLO) delivers) (\<lambda>_.
     sys (Close_fd sockfd))))"

definition unix_client_dgram :: "sock_os \<Rightarrow> bool \<Rightarrow> unit sockm" where
  "unix_client_dgram os delivers =
     andthen (must (Socket AF_UNIX SOCK_DGRAM) (socket_call os AF_UNIX SOCK_DGRAM \<noteq> - 1)) (\<lambda>_.
     let sockfd = socket_call os AF_UNIX SOCK_DGRAM in
     andthen (must (Sendto_bytes sockfd (Local SOCK_PATH) HELLO) delivers) (\<lambda>_.
     sys (Close_fd sockfd)))"

text \<open>The server's socket is a stream socket, to which no datagram can be sent.\<close>

theorem unix_client_dgram_fails: "unix_client_dgram os False cs = Inl (Exit 1)"
  by (simp add: unix_client_dgram_def must_def sys_def run Let_def)

text \<open>The bytes a program has sent.\<close>

definition bytes_sent :: "call list \<Rightarrow> string list" where
  "bytes_sent cs = concat (map (\<lambda>c. case c of Send_bytes _ b \<Rightarrow> [b] | _ \<Rightarrow> []) cs)"

text \<open>
  The server does not look at the content of a notification: the greeting of a client of the
  Unix socket makes it tell every registered TCP client to disconnect, as a power failure does.
\<close>

theorem greeting_disconnects:
  assumes "unix_client_stream sos True [] = Inr ((), cs)" and "server_ok s" and "benign os"
    and "unix_accepted os = Some c" and "incoming os c = Some (hd (bytes_sent cs))"
  shows "\<exists>disconnect. cJSON_Print (Some (json_object [member ''message'' (json_string ''disconnect'')])) [] =
      Inr (Some disconnect, []) \<and>
    handle_unix_socket_activity os fd True s =
      Inr ((), s\<lparr>outputs := outputs s @ map (\<lambda>x. Send x disconnect) (connected (tcp_clients s)) @ [Close c],
                 logs := logs s @ log_lines os HELLO\<rparr>)"
proof -
  have b: "hd (bytes_sent cs) = HELLO"
    using assms(1) by (auto simp: unix_client_stream_def must_def sys_def run Let_def bytes_sent_def
        split: if_splits)
  have "upto_nul HELLO = HELLO" "HELLO \<noteq> []"
    by (simp_all add: HELLO_def upto_nul_def)
  then show ?thesis
    using unix_notification_run [OF assms(2-4), of HELLO fd] assms(5) b by simp
qed

section \<open>The connection of the tests\<close>

text \<open>\<open>pton\<close> is the conversion of a numeric address.\<close>

definition create_client_socket_and_connect ::
    "sock_os \<Rightarrow> (string \<Rightarrow> 8 word list option) \<Rightarrow> string \<Rightarrow> int \<Rightarrow> int sockm" where
  "create_client_socket_and_connect os pton server_ip server_port =
     andthen (sys (Socket AF_INET SOCK_STREAM)) (\<lambda>_.
     let client_socket = socket_call os AF_INET SOCK_STREAM in
     if client_socket = - 1 then ret (- 1)
     else
       (case pton server_ip of
          None \<Rightarrow> andthen (sys (Close_fd client_socket)) (\<lambda>_. ret (- 1))
        | Some ip \<Rightarrow>
            andthen (sys (Connect client_socket (Internet (Sockaddr_in (port16 server_port) ip)))) (\<lambda>_.
            ret (if connect_ok os client_socket then client_socket else - 1))))"

text \<open>A connection that fails leaves its socket open: nothing closes it.\<close>

theorem failed_connection_leaks:
  assumes "socket_call os AF_INET SOCK_STREAM \<noteq> - 1" and "pton ip = Some a"
    and "\<not> connect_ok os (socket_call os AF_INET SOCK_STREAM)"
  shows "\<exists>cs. create_client_socket_and_connect os pton ip port [] = Inr (- 1, cs) \<and>
    Socket AF_INET SOCK_STREAM \<in> set cs \<and> Close_fd (socket_call os AF_INET SOCK_STREAM) \<notin> set cs"
  using assms by (simp add: create_client_socket_and_connect_def sys_def run Let_def)

end
