(* ===== verification/CJsonLinks.thy ===== *)
theory CJsonLinks
  imports Prelude
begin

text \<open>
  The linked items of \<open>lib/cJSON/src/cJSON.c\<close>: the functions that change the \<open>next\<close>, \<open>prev\<close>
  and \<open>child\<close> pointers of items, on a memory with one map per field of the structure. The
  children of an item are a list linked both ways whose first element's \<open>prev\<close> points to the
  last one. The theorems say which list the pointers form after each operation.
\<close>

section \<open>Memory\<close>

text \<open>Addresses of items and of the strings they own; \<open>None\<close> is NULL.\<close>

type_synonym pointer = "nat option"

record memory =
  live :: "nat set"
  next_of :: "nat \<Rightarrow> pointer"
  prev_of :: "nat \<Rightarrow> pointer"
  child_of :: "nat \<Rightarrow> pointer"
  value_of :: "nat \<Rightarrow> pointer"
  string_of :: "nat \<Rightarrow> pointer"
  reference_at :: "nat \<Rightarrow> bool"
  const_at :: "nat \<Rightarrow> bool"

type_synonym 'a linkm = "(memory, 'a) prog"

definition at :: "pointer \<Rightarrow> (nat \<Rightarrow> 'a linkm) \<Rightarrow> 'a linkm" where
  "at p f =
     (case p of
        None \<Rightarrow> fault Null_deref
      | Some a \<Rightarrow> andthen (gets live) (\<lambda>l. if a \<in> l then f a else fault Dangling))"

definition get_next :: "pointer \<Rightarrow> pointer linkm" where
  "get_next p = at p (\<lambda>a. gets (\<lambda>m. next_of m a))"

definition get_prev :: "pointer \<Rightarrow> pointer linkm" where
  "get_prev p = at p (\<lambda>a. gets (\<lambda>m. prev_of m a))"

definition get_child :: "pointer \<Rightarrow> pointer linkm" where
  "get_child p = at p (\<lambda>a. gets (\<lambda>m. child_of m a))"

definition set_next :: "pointer \<Rightarrow> pointer \<Rightarrow> unit linkm" where
  "set_next p v = at p (\<lambda>a. modify (\<lambda>m. m\<lparr>next_of := (next_of m)(a := v)\<rparr>))"

definition set_prev :: "pointer \<Rightarrow> pointer \<Rightarrow> unit linkm" where
  "set_prev p v = at p (\<lambda>a. modify (\<lambda>m. m\<lparr>prev_of := (prev_of m)(a := v)\<rparr>))"

definition set_first_child :: "pointer \<Rightarrow> pointer \<Rightarrow> unit linkm" where
  "set_first_child p v = at p (\<lambda>a. modify (\<lambda>m. m\<lparr>child_of := (child_of m)(a := v)\<rparr>))"

lemmas access = at_def get_next_def get_prev_def get_child_def set_next_def set_prev_def
  set_first_child_def

section \<open>Operations\<close>

definition suffix_object :: "pointer \<Rightarrow> pointer \<Rightarrow> unit linkm" where
  "suffix_object prev item = block [set_next prev item, set_prev item prev]"

definition link_item_to_array :: "pointer \<Rightarrow> pointer \<Rightarrow> bool linkm" where
  "link_item_to_array array item =
     (if item = None \<or> array = None \<or> array = item then ret False
      else
        andthen (get_child array) (\<lambda>child.
        andthen
          (if child = None
           then block [set_first_child array item, set_prev item item, set_next item None]
           else
             andthen (get_prev child) (\<lambda>last.
             if last \<noteq> None
             then block [suffix_object last item, andthen (get_child array) (\<lambda>c. set_prev c item)]
             else ret ())) (\<lambda>_.
        ret True)))"

primrec walk :: "nat \<Rightarrow> pointer \<Rightarrow> pointer linkm" where
  "walk 0 current_child = ret current_child"
| "walk (Suc index) current_child =
     (if current_child = None then ret None
      else andthen (get_next current_child) (\<lambda>n. walk index n))"

definition linked_array_item :: "pointer \<Rightarrow> nat \<Rightarrow> pointer linkm" where
  "linked_array_item array index =
     (if array = None then ret None else andthen (get_child array) (\<lambda>c. walk index c))"

definition cJSON_DetachItemViaPointer :: "pointer \<Rightarrow> pointer \<Rightarrow> pointer linkm" where
  "cJSON_DetachItemViaPointer parent item =
     (if parent = None \<or> item = None then ret None
      else
        andthen (get_child parent) (\<lambda>first.
        andthen
          (if item \<noteq> first
           then andthen (get_prev item) (\<lambda>p. andthen (get_next item) (\<lambda>n. set_next p n))
           else ret ()) (\<lambda>_.
        andthen (get_next item) (\<lambda>n.
        andthen
          (if n \<noteq> None then andthen (get_prev item) (\<lambda>p. set_prev n p) else ret ()) (\<lambda>_.
        andthen
          (if item = first then set_first_child parent n
           else if n = None
           then andthen (get_prev item) (\<lambda>p. andthen (get_child parent) (\<lambda>c. set_prev c p))
           else ret ()) (\<lambda>_.
        andthen (set_prev item None) (\<lambda>_.
        andthen (set_next item None) (\<lambda>_.
        ret item))))))))"

definition cJSON_DetachItemFromArray :: "pointer \<Rightarrow> int \<Rightarrow> pointer linkm" where
  "cJSON_DetachItemFromArray array which =
     (if which < 0 then ret None
      else andthen (linked_array_item array (nat which)) (\<lambda>item. cJSON_DetachItemViaPointer array item))"

definition cJSON_InsertItemInArray :: "pointer \<Rightarrow> int \<Rightarrow> pointer \<Rightarrow> bool linkm" where
  "cJSON_InsertItemInArray array which newitem =
     (if which < 0 \<or> newitem = None then ret False
      else
        andthen (linked_array_item array (nat which)) (\<lambda>after_inserted.
        if after_inserted = None then link_item_to_array array newitem
        else
          andthen (get_child array) (\<lambda>first.
          andthen (get_prev after_inserted) (\<lambda>p.
          if after_inserted \<noteq> first \<and> p = None then ret False
          else
            andthen (set_next newitem after_inserted) (\<lambda>_.
            andthen (set_prev newitem p) (\<lambda>_.
            andthen (set_prev after_inserted newitem) (\<lambda>_.
            andthen
              (if after_inserted = first then set_first_child array newitem
               else andthen (get_prev newitem) (\<lambda>p. set_next p newitem)) (\<lambda>_.
            ret True))))))))"

section \<open>Deleting\<close>

definition deallocate :: "pointer \<Rightarrow> unit linkm" where
  "deallocate p = at p (\<lambda>a. modify (\<lambda>m. m\<lparr>live := live m - {a}\<rparr>))"

text \<open>The loop over \<open>next\<close> and the recursion into \<open>child\<close> have one fuel, the number of items.\<close>

fun cJSON_Delete :: "nat \<Rightarrow> pointer \<Rightarrow> unit linkm" where
  "cJSON_Delete fuel None = ret ()"
| "cJSON_Delete 0 (Some item) = halt Out_of_fuel"
| "cJSON_Delete (Suc fuel) (Some item) =
     andthen (get_next (Some item)) (\<lambda>next.
     andthen (at (Some item) (\<lambda>a. gets (\<lambda>m. (reference_at m a, const_at m a, child_of m a, value_of m a, string_of m a))))
       (\<lambda>(is_reference, is_const, child, valuestring, name).
     andthen (if \<not> is_reference \<and> child \<noteq> None then cJSON_Delete fuel child else ret ()) (\<lambda>_.
     andthen (if \<not> is_reference \<and> valuestring \<noteq> None then deallocate valuestring else ret ()) (\<lambda>_.
     andthen (if \<not> is_const \<and> name \<noteq> None then deallocate name else ret ()) (\<lambda>_.
     andthen (deallocate (Some item)) (\<lambda>_.
     cJSON_Delete fuel next))))))"

text \<open>The replacement takes the place of the item, which then points nowhere.\<close>

definition link_replacement :: "pointer \<Rightarrow> pointer \<Rightarrow> pointer \<Rightarrow> pointer \<Rightarrow> unit linkm" where
  "link_replacement parent first item replacement =
     andthen (get_next item) (\<lambda>n.
     andthen (set_next replacement n) (\<lambda>_.
     andthen (get_prev item) (\<lambda>p.
     andthen (set_prev replacement p) (\<lambda>_.
     andthen (if n \<noteq> None then set_prev n replacement else ret ()) (\<lambda>_.
     andthen
       (if first = item then
          andthen (get_prev first) (\<lambda>p.
          andthen (if p = first then set_prev replacement replacement else ret ()) (\<lambda>_.
          set_first_child parent replacement))
        else
          andthen (get_prev replacement) (\<lambda>p.
          andthen (if p \<noteq> None then set_next p replacement else ret ()) (\<lambda>_.
          andthen (get_next replacement) (\<lambda>n.
          if n = None then andthen (get_child parent) (\<lambda>c. set_prev c replacement) else ret ())))) (\<lambda>_.
     andthen (set_next item None) (\<lambda>_.
     set_prev item None)))))))"

definition cJSON_ReplaceItemViaPointer :: "nat \<Rightarrow> pointer \<Rightarrow> pointer \<Rightarrow> pointer \<Rightarrow> bool linkm" where
  "cJSON_ReplaceItemViaPointer fuel parent item replacement =
     (if parent = None then ret False
      else
        andthen (get_child parent) (\<lambda>first.
        if first = None \<or> replacement = None \<or> item = None then ret False
        else if replacement = item then ret True
        else
          andthen (link_replacement parent first item replacement) (\<lambda>_.
          andthen (cJSON_Delete fuel item) (\<lambda>_.
          ret True))))"

definition cJSON_ReplaceItemInArray :: "nat \<Rightarrow> pointer \<Rightarrow> int \<Rightarrow> pointer \<Rightarrow> bool linkm" where
  "cJSON_ReplaceItemInArray fuel array which newitem =
     (if which < 0 then ret False
      else andthen (linked_array_item array (nat which)) (\<lambda>item. cJSON_ReplaceItemViaPointer fuel array item newitem))"

definition cJSON_DeleteItemFromArray :: "nat \<Rightarrow> pointer \<Rightarrow> int \<Rightarrow> unit linkm" where
  "cJSON_DeleteItemFromArray fuel array which =
     andthen (cJSON_DetachItemFromArray array which) (\<lambda>item. cJSON_Delete fuel item)"

section \<open>The children of an item\<close>

text \<open>\<open>seg f p xs q\<close>: following \<open>f\<close> from \<open>p\<close> visits \<open>xs\<close> and comes to \<open>q\<close>;
  \<open>backward g l xs\<close>: each of \<open>xs\<close> points backward to the one before, the first to \<open>l\<close>.\<close>

primrec seg :: "(nat \<Rightarrow> pointer) \<Rightarrow> pointer \<Rightarrow> nat list \<Rightarrow> pointer \<Rightarrow> bool" where
  "seg f p [] q \<longleftrightarrow> p = q"
| "seg f p (x # xs) q \<longleftrightarrow> p = Some x \<and> seg f (f x) xs q"

primrec backward :: "(nat \<Rightarrow> pointer) \<Rightarrow> pointer \<Rightarrow> nat list \<Rightarrow> bool" where
  "backward g l [] \<longleftrightarrow> True"
| "backward g l (x # xs) \<longleftrightarrow> g x = l \<and> backward g (Some x) xs"

lemma seg_append: "seg f p (xs @ ys) q \<longleftrightarrow> (\<exists>r. seg f p xs r \<and> seg f r ys q)"
  by (induction xs arbitrary: p) auto

lemma seg_update [simp]: "a \<notin> set xs \<Longrightarrow> seg (f(a := v)) p xs q \<longleftrightarrow> seg f p xs q"
  by (induction xs arbitrary: p) auto

lemma backward_append:
  "backward g l (xs @ ys) \<longleftrightarrow> backward g l xs \<and> backward g (if xs = [] then l else Some (last xs)) ys"
  by (induction xs arbitrary: l) auto

lemma backward_update [simp]: "a \<notin> set xs \<Longrightarrow> backward (g(a := v)) l xs \<longleftrightarrow> backward g l xs"
  by (induction xs arbitrary: l) auto

lemma backward_first: "xs \<noteq> [] \<Longrightarrow> hd xs \<notin> set (tl xs) \<Longrightarrow> backward (g(hd xs := l')) l' xs \<longleftrightarrow> backward g (g (hd xs)) xs"
  by (cases xs) auto

definition children :: "memory \<Rightarrow> nat \<Rightarrow> nat list \<Rightarrow> bool" where
  "children m p xs \<longleftrightarrow> p \<in> live m \<and> set xs \<subseteq> live m \<and> distinct (p # xs) \<and>
     seg (next_of m) (child_of m p) xs None \<and>
     backward (prev_of m) (if xs = [] then None else Some (last xs)) xs"

text \<open>An item that is in no list.\<close>

definition loose :: "memory \<Rightarrow> nat \<Rightarrow> nat list \<Rightarrow> nat \<Rightarrow> bool" where
  "loose m p xs a \<longleftrightarrow> a \<in> live m \<and> a \<notin> set (p # xs) \<and> next_of m a = None"

text \<open>Nothing outside the parent, its children and the given items has changed.\<close>

definition untouched :: "nat set \<Rightarrow> memory \<Rightarrow> memory \<Rightarrow> bool" where
  "untouched A m m' \<longleftrightarrow> live m' = live m \<and> value_of m' = value_of m \<and> string_of m' = string_of m \<and>
     reference_at m' = reference_at m \<and> const_at m' = const_at m \<and>
     (\<forall>x. x \<notin> A \<longrightarrow> next_of m' x = next_of m x \<and> prev_of m' x = prev_of m x \<and> child_of m' x = child_of m x)"

lemma link_run:
  assumes "children m p xs" and "loose m p xs a"
  shows "\<exists>m'. link_item_to_array (Some p) (Some a) m = Inr (True, m') \<and> children m' p (xs @ [a]) \<and>
    untouched (insert p (insert a (set xs))) m m'"
proof (cases xs rule: rev_cases)
  case Nil
  then show ?thesis using assms
    by (auto simp: children_def loose_def untouched_def link_item_to_array_def access run)
next
  case (snoc ys z)
  show ?thesis
  proof (cases ys)
    case Nil
    then show ?thesis using assms snoc
      by (auto simp: children_def loose_def untouched_def link_item_to_array_def suffix_object_def access run)
  next
    case (Cons h hs)
    then show ?thesis using assms snoc
      by (auto simp: children_def loose_def untouched_def link_item_to_array_def suffix_object_def access run
          seg_append backward_append)
  qed
qed

lemma walk_run:
  assumes "seg (next_of m) q xs None" and "set xs \<subseteq> live m"
  shows "walk i q m = Inr (if i < length xs then Some (xs ! i) else None, m)"
  using assms
proof (induction xs arbitrary: i q)
  case Nil
  then show ?case by (cases i) (simp_all add: run)
next
  case (Cons x xs)
  then show ?case by (cases i) (simp_all add: run access)
qed

lemma array_item_run:
  "children m p xs \<Longrightarrow>
   linked_array_item (Some p) i m = Inr (if i < length xs then Some (xs ! i) else None, m)"
  by (simp add: linked_array_item_def run access children_def walk_run)

lemma children_split:
  assumes "children m p (ys @ a # zs)"
  shows "a \<in> live m" "p \<in> live m" "a \<noteq> p" "a \<notin> set ys" "a \<notin> set zs"
    "child_of m p = (if ys = [] then Some a else Some (hd ys))"
    "next_of m a = (if zs = [] then None else Some (hd zs))"
    "prev_of m a = (if ys = [] then Some (last (a # zs)) else Some (last ys))"
proof -
  note c = assms [unfolded children_def]
  show "a \<in> live m" "p \<in> live m" "a \<noteq> p" "a \<notin> set ys" "a \<notin> set zs" using c by auto
  show "child_of m p = (if ys = [] then Some a else Some (hd ys))"
    using c by (cases ys) auto
  show "next_of m a = (if zs = [] then None else Some (hd zs))"
    using c by (cases zs) (auto simp: seg_append)
  show "prev_of m a = (if ys = [] then Some (last (a # zs)) else Some (last ys))"
    using c by (auto simp: backward_append)
qed

lemma detach_run:
  assumes "children m p (ys @ a # zs)"
  shows "\<exists>m'. cJSON_DetachItemViaPointer (Some p) (Some a) m = Inr (Some a, m') \<and> children m' p (ys @ zs) \<and>
    loose m' p (ys @ zs) a \<and> prev_of m' a = None \<and> untouched (insert p (set (ys @ a # zs))) m m'"
proof (cases ys rule: rev_cases)
  case Nil
  then show ?thesis using assms
    by (cases zs) (auto simp: children_def loose_def untouched_def cJSON_DetachItemViaPointer_def access run)
next
  case (snoc us u)
  show ?thesis
  proof (cases us)
    case Nil
    then show ?thesis using assms snoc
      by (cases zs) (auto simp: children_def loose_def untouched_def cJSON_DetachItemViaPointer_def access run)
  next
    case (Cons h hs)
    then show ?thesis using assms snoc
      by (cases zs) (auto simp: children_def loose_def untouched_def cJSON_DetachItemViaPointer_def access run
          seg_append backward_append)
  qed
qed

lemma insert_before_run:
  assumes "children m p (ys @ b # zs)" and "loose m p (ys @ b # zs) a"
    and item: "linked_array_item (Some p) i m = Inr (Some b, m)"
  shows "\<exists>m'. cJSON_InsertItemInArray (Some p) (int i) (Some a) m = Inr (True, m') \<and>
    children m' p (ys @ a # b # zs) \<and> untouched (insert p (insert a (set (ys @ b # zs)))) m m'"
proof (cases ys rule: rev_cases)
  case Nil
  then show ?thesis using assms item
    by (auto simp: children_def loose_def untouched_def cJSON_InsertItemInArray_def access run)
next
  case (snoc us u)
  show ?thesis
  proof (cases us)
    case Nil
    then show ?thesis using assms snoc item
      by (auto simp: children_def loose_def untouched_def cJSON_InsertItemInArray_def access run)
  next
    case (Cons h hs)
    then show ?thesis using assms snoc item
      by (auto simp: children_def loose_def untouched_def cJSON_InsertItemInArray_def access run
          seg_append backward_append)
  qed
qed

lemma insert_run:
  assumes "children m p (ys @ b # zs)" and "loose m p (ys @ b # zs) a"
  shows "\<exists>m'. cJSON_InsertItemInArray (Some p) (int (length ys)) (Some a) m = Inr (True, m') \<and>
    children m' p (ys @ a # b # zs) \<and> untouched (insert p (insert a (set (ys @ b # zs)))) m m'"
  using insert_before_run [OF assms] array_item_run [OF assms(1), of "length ys"] by simp

lemma insert_behind_run:
  assumes "children m p xs" and "length xs \<le> i" and "loose m p xs a"
  shows "\<exists>m'. cJSON_InsertItemInArray (Some p) (int i) (Some a) m = Inr (True, m') \<and>
    children m' p (xs @ [a]) \<and> untouched (insert p (insert a (set xs))) m m'"
  using link_run [OF assms(1,3)] array_item_run [OF assms(1), of i] assms(2)
  by (simp add: cJSON_InsertItemInArray_def run)

section \<open>What an item owns\<close>

text \<open>An item with its flags, its two strings and the items below it; the items below a
  reference are not its own.\<close>

datatype owned = Owned nat bool bool pointer pointer "owned list"

fun held :: "memory \<Rightarrow> pointer \<Rightarrow> owned list \<Rightarrow> bool" where
  "held m p [] \<longleftrightarrow> p = None"
| "held m p (Owned a r c v n ts # us) \<longleftrightarrow> p = Some a \<and> reference_at m a = r \<and> const_at m a = c \<and>
     value_of m a = v \<and> string_of m a = n \<and> (if r then ts = [] else held m (child_of m a) ts) \<and>
     held m (next_of m a) us"

fun blocks :: "owned list \<Rightarrow> nat list" where
  "blocks [] = []"
| "blocks (Owned a r c v n ts # us) =
     a # (if r then [] else case v of None \<Rightarrow> [] | Some b \<Rightarrow> [b]) @
     (if c then [] else case n of None \<Rightarrow> [] | Some b \<Rightarrow> [b]) @ blocks ts @ blocks us"

fun items :: "owned list \<Rightarrow> nat" where
  "items [] = 0"
| "items (Owned a r c v n ts # us) = Suc (items ts + items us)"

lemma held_live [simp]: "held (m\<lparr>live := L\<rparr>) p ts \<longleftrightarrow> held m p ts"
  by (induction m p ts rule: held.induct) auto

lemma deallocate_run:
  "a \<in> L \<Longrightarrow> deallocate (Some a) (m\<lparr>live := L\<rparr>) = Inr ((), m\<lparr>live := L - {a}\<rparr>)"
  by (simp add: deallocate_def access run)

lemma deallocate_optional:
  "(b \<Longrightarrow> set_option v \<subseteq> L) \<Longrightarrow> (if b \<and> v \<noteq> None then deallocate v else ret ()) (m\<lparr>live := L\<rparr>) =
     Inr ((), m\<lparr>live := L - (if b then set_option v else {})\<rparr>)"
  by (cases v; cases b; auto simp: deallocate_run run)

lemma delete_live:
  assumes "held m p ts" and "distinct (blocks ts)" and "set (blocks ts) \<subseteq> L" and "items ts \<le> fuel"
  shows "cJSON_Delete fuel p (m\<lparr>live := L\<rparr>) = Inr ((), m\<lparr>live := L - set (blocks ts)\<rparr>)"
  using assms
proof (induction m p ts arbitrary: fuel L rule: held.induct)
  case (1 m p)
  then show ?case by (simp add: run)
next
  case (2 m p a r c v n ts us)
  then obtain k where k: "fuel = Suc k" "items ts \<le> k" "items us \<le> k" by (cases fuel) auto
  define L1 where "L1 = L - set (blocks ts)"
  define L2 where "L2 = L1 - (if \<not> r then set_option v else {})"
  define L3 where "L3 = L2 - (if \<not> c then set_option n else {})"
  have below: "(if \<not> r \<and> child_of m a \<noteq> None then cJSON_Delete k (child_of m a) else ret ()) (m\<lparr>live := L\<rparr>) =
      Inr ((), m\<lparr>live := L1\<rparr>)"
  proof (cases r)
    case True
    then show ?thesis using 2 by (simp add: run L1_def)
  next
    case False
    then have "cJSON_Delete k (child_of m a) (m\<lparr>live := L\<rparr>) = Inr ((), m\<lparr>live := L1\<rparr>)"
      unfolding L1_def using 2 k by (intro "2.IH"(1)) auto
    then show ?thesis using False by (cases "child_of m a") (auto simp: run)
  qed
  have V: "(if \<not> r \<and> v \<noteq> None then deallocate v else ret ()) (m\<lparr>live := L1\<rparr>) = Inr ((), m\<lparr>live := L2\<rparr>)"
    unfolding L2_def using 2 by (intro deallocate_optional) (cases r; cases v; auto simp: L1_def)
  have N: "(if \<not> c \<and> n \<noteq> None then deallocate n else ret ()) (m\<lparr>live := L2\<rparr>) = Inr ((), m\<lparr>live := L3\<rparr>)"
    unfolding L3_def using 2 by (intro deallocate_optional) (cases c; cases n; auto simp: L1_def L2_def)
  have A: "deallocate (Some a) (m\<lparr>live := L3\<rparr>) = Inr ((), m\<lparr>live := L3 - {a}\<rparr>)"
    using 2 by (intro deallocate_run) (auto simp: L1_def L2_def L3_def)
  have "cJSON_Delete k (next_of m a) (m\<lparr>live := L3 - {a}\<rparr>) = Inr ((), m\<lparr>live := L3 - {a} - set (blocks us)\<rparr>)"
    using 2 k by (intro "2.IH"(2)) (auto simp: L1_def L2_def L3_def)
  moreover have "L3 - {a} - set (blocks us) = L - set (blocks (Owned a r c v n ts # us))"
    by (cases n; cases v) (auto simp: L1_def L2_def L3_def)
  ultimately show ?case
    using 2 below V N A by (simp add: k(1) access run)
qed

section \<open>Replacing an item\<close>

lemma link_replacement_run:
  assumes "children m p (ys @ a # zs)" and "b \<in> live m" and "b \<notin> insert p (set (ys @ a # zs))"
  shows "\<exists>m'. link_replacement (Some p) (child_of m p) (Some a) (Some b) m = Inr ((), m') \<and>
    children m' p (ys @ b # zs) \<and> next_of m' a = None \<and> (\<forall>x. x \<noteq> p \<longrightarrow> child_of m' x = child_of m x) \<and>
    untouched (insert p (insert b (set (ys @ a # zs)))) m m'"
proof (cases ys rule: rev_cases)
  case Nil
  then show ?thesis using assms
    by (cases zs) (auto simp: children_def untouched_def link_replacement_def access run)
next
  case (snoc us u)
  show ?thesis
  proof (cases us)
    case Nil
    then show ?thesis using assms snoc
      by (cases zs) (auto simp: children_def untouched_def link_replacement_def access run)
  next
    case (Cons h hs)
    then show ?thesis using assms snoc
      by (cases zs) (auto simp: children_def untouched_def link_replacement_def access run
          seg_append backward_append)
  qed
qed

text \<open>What an item owns does not depend on other items.\<close>

lemma held_cong:
  assumes "held m p ts" and "reference_at m' = reference_at m" and "const_at m' = const_at m"
    and "value_of m' = value_of m" and "string_of m' = string_of m"
    and "\<forall>x \<in> set (blocks ts). next_of m' x = next_of m x \<and> child_of m' x = child_of m x"
  shows "held m' p ts"
  using assms by (induction m p ts rule: held.induct) (auto split: if_splits)

lemma replace_run:
  assumes "children m p (ys @ a # zs)" and "b \<in> live m" and "b \<notin> insert p (set (ys @ a # zs))"
    and own: "held (m\<lparr>next_of := (next_of m)(a := None)\<rparr>) (Some a) [t]"
    and "distinct (blocks [t])" and "set (blocks [t]) \<subseteq> live m"
    and apart: "set (blocks [t]) \<inter> insert p (insert b (set (ys @ zs))) = {}" and "items [t] \<le> fuel"
  shows "\<exists>m'. cJSON_ReplaceItemViaPointer fuel (Some p) (Some a) (Some b) m = Inr (True, m') \<and>
    children m' p (ys @ b # zs) \<and> live m' = live m - set (blocks [t])"
proof -
  obtain m1 where m1: "link_replacement (Some p) (child_of m p) (Some a) (Some b) m = Inr ((), m1)"
    "children m1 p (ys @ b # zs)" "next_of m1 a = None" "\<forall>x. x \<noteq> p \<longrightarrow> child_of m1 x = child_of m x"
    "untouched (insert p (insert b (set (ys @ a # zs)))) m m1"
    using link_replacement_run [OF assms(1-3)] by blast
  have "held m1 (Some a) [t]"
    by (rule held_cong [OF own]) (use m1(3-5) apart in \<open>auto simp: untouched_def\<close>)
  from delete_live [OF this assms(5), of "live m1" fuel] m1(5) assms(6,8)
  have d: "cJSON_Delete fuel (Some a) m1 = Inr ((), m1\<lparr>live := live m1 - set (blocks [t])\<rparr>)"
    by (simp add: untouched_def)
  have "children (m1\<lparr>live := live m1 - set (blocks [t])\<rparr>) p (ys @ b # zs)"
    using m1(2) apart by (auto simp: children_def)
  moreover have "child_of m p \<noteq> None" "p \<in> live m" "b \<noteq> a"
    using assms(1,3) children_split [OF assms(1)] by auto
  ultimately show ?thesis
    using m1(1,5) d by (auto simp: cJSON_ReplaceItemViaPointer_def access run untouched_def)
qed

section \<open>Lists of items as an interface\<close>

text \<open>What a user of a list of items relies on, whatever the items are linked with.\<close>

locale item_list =
  fixes is_list :: "'m \<Rightarrow> nat list \<Rightarrow> bool"
    and unlinked :: "'m \<Rightarrow> nat list \<Rightarrow> nat \<Rightarrow> bool"
    and append_item :: "nat \<Rightarrow> ('m, bool) prog"
    and detach_item :: "nat \<Rightarrow> ('m, pointer) prog"
  assumes append_law: "is_list m xs \<Longrightarrow> unlinked m xs a \<Longrightarrow>
      wp (append_item a) (\<lambda>ok m'. ok \<and> is_list m' (xs @ [a])) (\<lambda>_. False) m"
    and detach_law: "is_list m (ys @ a # zs) \<Longrightarrow>
      wp (detach_item a) (\<lambda>r m'. r = Some a \<and> is_list m' (ys @ zs) \<and> unlinked m' (ys @ zs) a) (\<lambda>_. False) m"
begin

lemma move_to_end:
  assumes "is_list m (ys @ a # zs)"
  shows "wp (andthen (detach_item a) (\<lambda>_. append_item a)) (\<lambda>ok m'. ok \<and> is_list m' (ys @ zs @ [a]))
    (\<lambda>_. False) m"
proof (rule wp_andthenI, rule wp_mono [OF detach_law [OF assms]])
  fix r m'
  assume "r = Some a \<and> is_list m' (ys @ zs) \<and> unlinked m' (ys @ zs) a"
  then show "wp (append_item a) (\<lambda>ok m'. ok \<and> is_list m' (ys @ zs @ [a])) (\<lambda>_. False) m'"
    using append_law [of m' "ys @ zs" a] by simp
qed simp

lemma detach_all:
  assumes "is_list m xs"
  shows "wp (block (map (\<lambda>a. andthen (detach_item a) (\<lambda>_. ret ())) xs)) (\<lambda>_ m'. is_list m' []) (\<lambda>_. False) m"
  using assms
proof (induction xs arbitrary: m)
  case (Cons a xs)
  from detach_law [of m "[]" a xs] Cons.prems
  have "wp (detach_item a) (\<lambda>r m'. r = Some a \<and> is_list m' xs \<and> unlinked m' xs a) (\<lambda>_. False) m" by simp
  then show ?case unfolding list.map wp_block_Cons
    by (intro wp_andthenI) (rule wp_mono, assumption, simp_all add: Cons.IH)
qed simp

end

locale indexed_item_list = item_list +
  fixes insert_item :: "nat \<Rightarrow> nat \<Rightarrow> ('m, bool) prog"
  assumes insert_law: "is_list m (ys @ zs) \<Longrightarrow> unlinked m (ys @ zs) a \<Longrightarrow>
      wp (insert_item (length ys) a) (\<lambda>ok m'. ok \<and> is_list m' (ys @ a # zs)) (\<lambda>_. False) m"
begin

lemma move_to:
  assumes "is_list m xs" and "a \<in> set xs" and "i < length xs"
  shows "wp (andthen (detach_item a) (\<lambda>_. insert_item i a))
    (\<lambda>ok m'. ok \<and> is_list m' (take i (remove1 a xs) @ a # drop i (remove1 a xs))) (\<lambda>_. False) m"
proof -
  obtain ys zs where xs: "xs = ys @ a # zs" "a \<notin> set ys"
    using split_list_first [OF assms(2)] by blast
  then have r: "remove1 a xs = ys @ zs" by (simp add: remove1_append)
  obtain us vs where u: "ys @ zs = us @ vs" "length us = i" "take i (ys @ zs) = us" "drop i (ys @ zs) = vs"
    using assms(3) xs(1) by (intro that [of "take i (ys @ zs)" "drop i (ys @ zs)"]) (rule append_take_drop_id [symmetric], auto simp del: take_append drop_append)
  show ?thesis
  proof (rule wp_andthenI, rule wp_mono [OF detach_law [OF assms(1) [unfolded xs(1)]]])
    fix q m'
    assume "q = Some a \<and> is_list m' (ys @ zs) \<and> unlinked m' (ys @ zs) a"
    then show "wp (insert_item i a)
      (\<lambda>ok m'. ok \<and> is_list m' (take i (remove1 a xs) @ a # drop i (remove1 a xs))) (\<lambda>_. False) m'"
      using insert_law [of m' us vs a] u r by simp
  qed simp
qed

end

lemma insert_any_run:
  assumes "children m p (ys @ zs)" and "loose m p (ys @ zs) a"
  shows "\<exists>m'. cJSON_InsertItemInArray (Some p) (int (length ys)) (Some a) m = Inr (True, m') \<and>
    children m' p (ys @ a # zs)"
proof (cases zs)
  case Nil
  then show ?thesis using insert_behind_run [of m p ys "length ys" a] assms by auto
next
  case (Cons b bs)
  then show ?thesis using insert_run [of m p ys b bs a] assms by auto
qed

interpretation linked: indexed_item_list "\<lambda>m. children m p" "\<lambda>m. loose m p"
  "\<lambda>a. link_item_to_array (Some p) (Some a)" "\<lambda>a. cJSON_DetachItemViaPointer (Some p) (Some a)"
  "\<lambda>i a. cJSON_InsertItemInArray (Some p) (int i) (Some a)" for p
proof
  fix m xs a
  assume "children m p xs" "loose m p xs a"
  then show "wp (link_item_to_array (Some p) (Some a)) (\<lambda>ok m'. ok \<and> children m' p (xs @ [a])) (\<lambda>_. False) m"
    using link_run by (force simp: wp_total)
next
  fix m ys a zs
  assume "children m p (ys @ a # zs)"
  then show "wp (cJSON_DetachItemViaPointer (Some p) (Some a))
      (\<lambda>r m'. r = Some a \<and> children m' p (ys @ zs) \<and> loose m' p (ys @ zs) a) (\<lambda>_. False) m"
    using detach_run by (force simp: wp_total)
next
  fix m ys zs a
  assume "children m p (ys @ zs)" "loose m p (ys @ zs) a"
  then show "wp (cJSON_InsertItemInArray (Some p) (int (length ys)) (Some a))
      (\<lambda>ok m'. ok \<and> children m' p (ys @ a # zs)) (\<lambda>_. False) m"
    using insert_any_run by (force simp: wp_total)
qed

section \<open>Theorems\<close>

text \<open>
  C33: detaching an item by its index and inserting it at another moves it there: the pointers
  form the list without the item, with the item put at its new place, and every other item
  keeps its order. An index behind the end finds nothing and changes nothing.
\<close>

theorem array_item_moved:
  assumes "children m p xs" and "j < length xs"
  shows "if i < length xs
    then \<exists>m'. andthen (cJSON_DetachItemFromArray (Some p) (int i))
        (\<lambda>it. cJSON_InsertItemInArray (Some p) (int j) it) m = Inr (True, m') \<and>
      children m' p (let ys = take i xs @ drop (Suc i) xs in take j ys @ xs ! i # drop j ys)
    else cJSON_DetachItemFromArray (Some p) (int i) m = Inr (None, m)"
proof -
  have item: "linked_array_item (Some p) i m = Inr (if i < length xs then Some (xs ! i) else None, m)"
    by (rule array_item_run [OF assms(1)])
  show ?thesis
  proof (cases "i < length xs")
    case True
    have r: "remove1 (xs ! i) xs = take i xs @ drop (Suc i) xs"
    proof -
      have d: "distinct (take i xs @ xs ! i # drop (Suc i) xs)"
        using assms(1) id_take_nth_drop [OF True] by (simp add: children_def)
      then have "xs ! i \<notin> set (take i xs)" by simp
      then have "remove1 (xs ! i) (take i xs @ xs ! i # drop (Suc i) xs) = take i xs @ drop (Suc i) xs"
        by (simp add: remove1_append)
      then show ?thesis using id_take_nth_drop [OF True] by simp
    qed
    have "children m p (take i xs @ xs ! i # drop (Suc i) xs)"
      using assms(1) id_take_nth_drop [OF True] by simp
    then obtain m1 where "cJSON_DetachItemViaPointer (Some p) (Some (xs ! i)) m = Inr (Some (xs ! i), m1)"
      using detach_run by blast
    then have e: "andthen (cJSON_DetachItemFromArray (Some p) (int i)) (\<lambda>it. cJSON_InsertItemInArray (Some p) (int j) it) m =
        andthen (cJSON_DetachItemViaPointer (Some p) (Some (xs ! i)))
          (\<lambda>_. cJSON_InsertItemInArray (Some p) (int j) (Some (xs ! i))) m"
      using True item by (simp add: cJSON_DetachItemFromArray_def run)
    have "xs ! i \<in> set xs" using True by simp
    from linked.move_to [OF assms(1) this assms(2)] True show ?thesis
      unfolding wp_total r e Let_def by auto
  next
    case False
    then show ?thesis using item
      by (simp add: cJSON_DetachItemFromArray_def run cJSON_DetachItemViaPointer_def)
  qed
qed

text \<open>An array (item 0) with three elements, each with a string of its own, and a loose item.\<close>

definition three_items :: memory where
  "three_items =
     \<lparr>live = {0, 1, 2, 3, 4, 11, 12, 13},
      next_of = (\<lambda>_. None)(1 := Some 2, 2 := Some 3),
      prev_of = (\<lambda>_. None)(1 := Some 3, 2 := Some 1, 3 := Some 2),
      child_of = (\<lambda>_. None)(0 := Some 1),
      value_of = (\<lambda>_. None)(1 := Some 11, 2 := Some 12, 3 := Some 13),
      string_of = (\<lambda>_. None), reference_at = (\<lambda>_. False), const_at = (\<lambda>_. False)\<rparr>"

lemma three_items_children: "children three_items 0 [1, 2, 3]"
  by (simp add: children_def three_items_def)

theorem array_item_moved_witness:
  "\<exists>m'. andthen (cJSON_DetachItemFromArray (Some 0) 2)
      (\<lambda>it. cJSON_InsertItemInArray (Some 0) 0 it) three_items = Inr (True, m') \<and> children m' 0 [3, 1, 2]"
  using array_item_moved [OF three_items_children, of 0 2] by (simp add: numeral_nat)

lemma without_point:
  assumes "X = insert v S" and "v \<notin> S" and "v \<noteq> p" and "b \<notin> insert p X" and "B \<inter> insert p (insert b X) = {v}"
  shows "B \<inter> insert p (insert b S) = {}"
proof -
  have "v \<noteq> b" using assms(1,4) by auto
  have "x = v" if "x \<in> B" "x \<in> insert p (insert b S)" for x
    using that assms(1,5) by (metis IntI insertCI insertE singletonD)
  then show ?thesis using assms(2,3) \<open>v \<noteq> b\<close> by blast
qed

text \<open>
  C34: replacing an element of an array puts the new item in its place, keeps the others, and
  frees the old item with its strings and everything below it, each block once and nothing else.
\<close>

theorem array_item_replaced:
  assumes "children m p xs" and "i < length xs" and "b \<in> live m" and "b \<notin> insert p (set xs)"
    and "held (m\<lparr>next_of := (next_of m)(xs ! i := None)\<rparr>) (Some (xs ! i)) [t]"
    and "distinct (blocks [t])" and "set (blocks [t]) \<subseteq> live m"
    and "set (blocks [t]) \<inter> insert p (insert b (set xs)) = {xs ! i}"
  shows "\<exists>m'. cJSON_ReplaceItemInArray (items [t]) (Some p) (int i) (Some b) m = Inr (True, m') \<and>
    children m' p (xs[i := b]) \<and> live m' = live m - set (blocks [t])"
proof -
  let ?ys = "take i xs" and ?zs = "drop (Suc i) xs"
  have xs: "?ys @ xs ! i # ?zs = xs" using id_take_nth_drop [OF assms(2)] by simp
  have c: "children m p (?ys @ xs ! i # ?zs)" using assms(1) by (simp only: xs)
  have "set xs = insert (xs ! i) (set (?ys @ ?zs))" by (subst xs [symmetric]) auto
  moreover have "xs ! i \<notin> set (?ys @ ?zs)" using children_split(4,5) [OF c] by simp
  moreover have "xs ! i \<noteq> p" using children_split(3) [OF c] .
  ultimately have "set (blocks [t]) \<inter> insert p (insert b (set (?ys @ ?zs))) = {}"
    by (rule without_point [OF _ _ _ assms(4,8)])
  from replace_run [OF c assms(3) _ assms(5-7) this order_refl] assms(4)
  obtain m' where m': "cJSON_ReplaceItemViaPointer (items [t]) (Some p) (Some (xs ! i)) (Some b) m = Inr (True, m')"
    "children m' p (?ys @ b # ?zs)" "live m' = live m - set (blocks [t])"
    unfolding xs by blast
  have item: "linked_array_item (Some p) i m = Inr (Some (xs ! i), m)"
    using array_item_run [OF assms(1), of i] assms(2) by simp
  have r: "cJSON_ReplaceItemInArray (items [t]) (Some p) (int i) (Some b) m = Inr (True, m')"
    using item m'(1) by (simp add: cJSON_ReplaceItemInArray_def run del: items.simps)
  have "xs[i := b] = ?ys @ b # ?zs" by (rule upd_conv_take_nth_drop [OF assms(2)])
  then show ?thesis using r m'(2,3) by metis
qed

theorem array_item_replaced_witness:
  "\<exists>m'. cJSON_ReplaceItemInArray 1 (Some 0) 1 (Some 4) three_items = Inr (True, m') \<and>
    children m' 0 [1, 4, 3] \<and> live m' = {0, 1, 3, 4, 11, 13}"
proof -
  have "held (three_items\<lparr>next_of := (next_of three_items)([1, 2, 3] ! 1 := None)\<rparr>) (Some ([1, 2, 3] ! 1))
      [Owned 2 False False (Some 12) None []]"
    by (simp add: three_items_def)
  from array_item_replaced [OF three_items_children _ _ _ this, of 4] show ?thesis
    by (auto simp: three_items_def)
qed

text \<open>
  C35: \<open>cJSON_Delete\<close> ends and frees exactly what the items own: themselves, their strings and
  the items below them, but neither what a reference points to nor a constant name. No block is
  freed twice or used after it is freed.
\<close>

theorem delete_frees_owned:
  assumes "held m p ts" and "distinct (blocks ts)" and "set (blocks ts) \<subseteq> live m"
  shows "cJSON_Delete (items ts) p m = Inr ((), m\<lparr>live := live m - set (blocks ts)\<rparr>)"
  using delete_live [OF assms order_refl] by simp

theorem delete_frees_owned_witness:
  "\<exists>m'. cJSON_Delete 4 (Some 0) three_items = Inr ((), m') \<and> live m' = {4}"
proof -
  have "held three_items (Some 0) [Owned 0 False False None None
      [Owned 1 False False (Some 11) None [], Owned 2 False False (Some 12) None [],
       Owned 3 False False (Some 13) None []]]"
    by (simp add: three_items_def)
  from delete_frees_owned [OF this]
  have "cJSON_Delete 4 (Some 0) three_items = Inr ((), three_items\<lparr>live := {4}\<rparr>)"
    by (auto simp: three_items_def numeral_nat simp del: cJSON_Delete.simps)
  then show ?thesis by auto
qed

end
