(* ===== verification/CJsonMinify.thy ===== *)
theory CJsonMinify
  imports CJsonRender Registry
begin

text \<open>
  \<open>cJSON_Minify\<close> (\<open>lib/cJSON/src/cJSON.c\<close>), which takes white space and comments out of a
  text, in place: on the buffer with its two positions, as a function on texts, and what it
  makes of the texts the printer prints.
\<close>

section \<open>In the buffer\<close>

text \<open>The fuel of each loop bounds the bytes it still reads; \<open>i\<close> and \<open>j\<close> are the offsets of
  \<open>json\<close> and \<open>into\<close>.\<close>

primrec line_end :: "nat \<Rightarrow> nat \<Rightarrow> (string, nat) prog" where
  "line_end 0 i = halt Out_of_fuel"
| "line_end (Suc fuel) i =
     andthen (read_at i) (\<lambda>c.
     if c = NUL then ret i else if c = CHR 0x0A then ret (i + 1) else line_end fuel (i + 1))"

definition skip_oneline_comment :: "nat \<Rightarrow> nat \<Rightarrow> (string, nat) prog" where
  "skip_oneline_comment fuel i = line_end fuel (i + 2)"

primrec comment_end :: "nat \<Rightarrow> nat \<Rightarrow> (string, nat) prog" where
  "comment_end 0 i = halt Out_of_fuel"
| "comment_end (Suc fuel) i =
     andthen (read_at i) (\<lambda>c.
     if c = NUL then ret i
     else
       andthen (if c = CHR ''*'' then read_at (i + 1) else ret NUL) (\<lambda>d.
       if d = CHR ''/'' then ret (i + 2) else comment_end fuel (i + 1)))"

definition skip_multiline_comment :: "nat \<Rightarrow> nat \<Rightarrow> (string, nat) prog" where
  "skip_multiline_comment fuel i = comment_end fuel (i + 2)"

primrec string_end :: "nat \<Rightarrow> nat \<Rightarrow> nat \<Rightarrow> (string, nat \<times> nat) prog" where
  "string_end 0 i j = halt Out_of_fuel"
| "string_end (Suc fuel) i j =
     andthen (read_at i) (\<lambda>c.
     if c = NUL then ret (i, j)
     else
       andthen (write_at j c) (\<lambda>_.
       if c = CHR 0x22 then andthen (write_at j (CHR 0x22)) (\<lambda>_. ret (i + 1, j + 1))
       else
         andthen (if c = CHR 0x5C then read_at (i + 1) else ret NUL) (\<lambda>d.
         if d = CHR 0x22 then andthen (write_at (j + 1) d) (\<lambda>_. string_end fuel (i + 2) (j + 2))
         else string_end fuel (i + 1) (j + 1))))"

definition minify_string :: "nat \<Rightarrow> nat \<Rightarrow> nat \<Rightarrow> (string, nat \<times> nat) prog" where
  "minify_string fuel i j =
     andthen (read_at i) (\<lambda>c. andthen (write_at j c) (\<lambda>_. string_end fuel (i + 1) (j + 1)))"

primrec minify_loop :: "nat \<Rightarrow> nat \<Rightarrow> nat \<Rightarrow> (string, unit) prog" where
  "minify_loop 0 i j = halt Out_of_fuel"
| "minify_loop (Suc fuel) i j =
     andthen (read_at i) (\<lambda>c.
     if c = NUL then write_at j NUL
     else if c \<in> {CHR 0x20, CHR 0x09, CHR 0x0D, CHR 0x0A} then minify_loop fuel (i + 1) j
     else if c = CHR ''/'' then
       andthen (read_at (i + 1)) (\<lambda>d.
       if d = CHR ''/'' then andthen (skip_oneline_comment (Suc fuel) i) (\<lambda>i. minify_loop fuel i j)
       else if d = CHR ''*'' then andthen (skip_multiline_comment (Suc fuel) i) (\<lambda>i. minify_loop fuel i j)
       else minify_loop fuel (i + 1) j)
     else if c = CHR 0x22 then
       andthen (minify_string (Suc fuel) i j) (\<lambda>(i, j). minify_loop fuel i j)
     else andthen (write_at j c) (\<lambda>_. minify_loop fuel (i + 1) (j + 1)))"

definition cJSON_Minify :: "(string, unit) prog" where
  "cJSON_Minify = andthen (gets length) (\<lambda>n. minify_loop n 0 0)"

section \<open>On texts\<close>

fun after_line :: "string \<Rightarrow> string" where
  "after_line [] = []"
| "after_line (c # s) = (if c = CHR 0x0A then s else after_line s)"

fun after_comment :: "string \<Rightarrow> string" where
  "after_comment [] = []"
| "after_comment (c # s) =
     (if c = CHR ''*'' \<and> s \<noteq> [] \<and> hd s = CHR ''/'' then tl s else after_comment s)"

text \<open>A string behind its opening quote, and the rest.\<close>

fun quoted :: "string \<Rightarrow> string \<times> string" where
  "quoted [] = ([], [])"
| "quoted (c # s) =
     (if c = CHR 0x22 then ([c], s)
      else if c = CHR 0x5C \<and> s \<noteq> [] \<and> hd s = CHR 0x22
      then (let (q, r) = quoted (tl s) in (c # CHR 0x22 # q, r))
      else (let (q, r) = quoted s in (c # q, r)))"

lemma after_length: "length (after_line s) \<le> length s" "length (after_comment s) \<le> length s"
  by (induction s) (auto simp: le_diff_conv)

lemma quoted_length: "length (snd (quoted s)) \<le> length s"
  by (induction s rule: quoted.induct) (auto simp: Let_def split: prod.splits)

function minified :: "string \<Rightarrow> string" where
  "minified [] = []"
| "minified (c # s) =
     (if c \<in> {CHR 0x20, CHR 0x09, CHR 0x0D, CHR 0x0A} then minified s
      else if c = CHR ''/'' then
        (if s \<noteq> [] \<and> hd s = CHR ''/'' then minified (after_line (tl s))
         else if s \<noteq> [] \<and> hd s = CHR ''*'' then minified (after_comment (tl s))
         else minified s)
      else if c = CHR 0x22 then c # fst (quoted s) @ minified (snd (quoted s))
      else c # minified s)"
  by pat_completeness auto
termination
proof (relation "measure length")
  fix c :: char and s :: string
  have t: "s \<noteq> [] \<Longrightarrow> length (tl s) < length s" by (cases s) auto
  show "s \<noteq> [] \<and> hd s = CHR ''/'' \<Longrightarrow> (after_line (tl s), c # s) \<in> measure length"
    using after_length(1) [of "tl s"] t by auto
  show "s \<noteq> [] \<and> hd s = CHR ''*'' \<Longrightarrow> (after_comment (tl s), c # s) \<in> measure length"
    using after_length(2) [of "tl s"] t by auto
  show "(snd (quoted s), c # s) \<in> measure length"
    using quoted_length [of s] by auto
qed auto

section \<open>The buffer holds the function's value\<close>

definition at_text :: "string \<Rightarrow> nat \<Rightarrow> string \<Rightarrow> bool" where
  "at_text b i s \<longleftrightarrow> c_string s \<and> (\<exists>r. drop i b = s @ NUL # r)"

lemma at_textD:
  assumes "at_text b i s"
  shows "i < length b" "b ! i = (if s = [] then NUL else hd s)" "s \<noteq> [] \<Longrightarrow> at_text b (Suc i) (tl s)"
    "s \<noteq> [] \<Longrightarrow> hd s \<noteq> NUL" "length s < length b - i"
proof -
  obtain r where r: "drop i b = s @ NUL # r" "c_string s" using assms by (auto simp: at_text_def)
  then have l: "length b - i = length s + Suc (length r)" by (metis length_append length_Cons length_drop)
  then show "i < length b" "length s < length b - i" by auto
  have "hd (drop i b) = b ! i" using \<open>i < length b\<close> by (simp add: hd_drop_conv_nth)
  then show "b ! i = (if s = [] then NUL else hd s)" using r by (cases s) auto
  show "s \<noteq> [] \<Longrightarrow> at_text b (Suc i) (tl s)" "s \<noteq> [] \<Longrightarrow> hd s \<noteq> NUL"
    using r by (cases s; auto simp: at_text_def drop_Suc tl_drop [symmetric])+
qed

lemma at_text_Suc:
  assumes "at_text b i (c # s)"
  shows "at_text b (Suc i) s" "c \<noteq> NUL" "b ! i = c" "i < length b"
    "Suc i < length b" "b ! Suc i = (if s = [] then NUL else hd s)"
proof -
  show *: "at_text b (Suc i) s" "c \<noteq> NUL" "b ! i = c" "i < length b" using at_textD [OF assms] by auto
  show "Suc i < length b" "b ! Suc i = (if s = [] then NUL else hd s)" using at_textD [OF *(1)] by auto
qed

lemma at_text_write [simp]: "j < i \<Longrightarrow> at_text (b[j := x]) i s \<longleftrightarrow> at_text b i s"
  by (simp add: at_text_def drop_update_cancel)

lemma take_write: "j < length b \<Longrightarrow> take (Suc j) (b[j := x]) = take j b @ [x]"
  by (simp add: take_Suc_conv_app_nth)

lemma line_end_run:
  "at_text b i s \<Longrightarrow> length s < fuel \<Longrightarrow> \<exists>i' \<ge> i. line_end fuel i b = Inr (i', b) \<and> at_text b i' (after_line s)"
proof (induction s arbitrary: i fuel)
  case Nil
  then show ?case using at_textD [OF Nil(1)] by (cases fuel) (auto simp: run read_at_def)
next
  case (Cons c s)
  note t = at_text_Suc [OF Cons.prems(1)]
  obtain k where k: "fuel = Suc k" "length s < k" using Cons.prems(2) by (cases fuel) auto
  show ?case using Cons.IH [OF t(1) k(2)] t by (auto simp: k(1) run read_at_def intro: le_trans [rotated])
qed

lemma comment_end_run:
  "at_text b i s \<Longrightarrow> length s < fuel \<Longrightarrow>
   \<exists>i' \<ge> i. comment_end fuel i b = Inr (i', b) \<and> at_text b i' (after_comment s)"
proof (induction s arbitrary: i fuel)
  case Nil
  then show ?case using at_textD [OF Nil(1)] by (cases fuel) (auto simp: run read_at_def)
next
  case (Cons c s)
  note t = at_text_Suc [OF Cons.prems(1)]
  obtain k where k: "fuel = Suc k" "length s < k" using Cons.prems(2) by (cases fuel) auto
  show ?case
  proof (cases "c = CHR ''*'' \<and> s \<noteq> [] \<and> hd s = CHR ''/''")
    case True
    then show ?thesis using t at_textD(3) [OF t(1)] by (auto simp: k(1) run read_at_def)
  next
    case False
    then show ?thesis using Cons.IH [OF t(1) k(2)] t
      by (auto simp: k(1) run read_at_def intro: le_trans [rotated])
  qed
qed

lemma string_end_run:
  "at_text b i s \<Longrightarrow> length s < fuel \<Longrightarrow> j \<le> i \<Longrightarrow>
   \<exists>i' j' b'. string_end fuel i j b = Inr ((i', j'), b') \<and> at_text b' i' (snd (quoted s)) \<and>
     j' \<le> i' \<and> length b' = length b \<and> j' = j + length (fst (quoted s)) \<and>
     take j' b' = take j b @ fst (quoted s)"
proof (induction s arbitrary: i j b fuel rule: quoted.induct)
  case 1
  then show ?case using at_textD [OF 1(1)] by (cases fuel) (auto simp: run read_at_def)
next
  case (2 c s)
  note t = at_text_Suc [OF "2.prems"(1)]
  obtain k where k: "fuel = Suc k" "length s < k" using "2.prems"(2) by (cases fuel) auto
  have j: "j < length b" using "2.prems"(3) t(4) by simp
  let ?b = "b[j := c]"
  have b: "at_text ?b (Suc i) s" using t(1) "2.prems"(3) by simp
  consider (q) "c = CHR 0x22" | (e) "c = CHR 0x5C" "s \<noteq> []" "hd s = CHR 0x22"
    | (o) "c \<noteq> CHR 0x22" "\<not> (c = CHR 0x5C \<and> s \<noteq> [] \<and> hd s = CHR 0x22)" by blast
  then show ?case
  proof cases
    case q
    then show ?thesis using t b j "2.prems"(3)
      by (auto simp: k(1) run read_at_def write_at_def take_write)
  next
    case e
    let ?b' = "?b[Suc j := CHR 0x22]"
    have b': "at_text ?b' (Suc (Suc i)) (tl s)" using at_textD(3) [OF b e(2)] "2.prems"(3) by simp
    have l: "length (tl s) < k" using k(2) by simp
    obtain i' j' b2 where ih: "string_end k (Suc (Suc i)) (Suc (Suc j)) ?b' = Inr ((i', j'), b2)"
      "at_text b2 i' (snd (quoted (tl s)))" "j' \<le> i'" "length b2 = length b"
      "j' = Suc (Suc j) + length (fst (quoted (tl s)))"
      "take j' b2 = take (Suc (Suc j)) ?b' @ fst (quoted (tl s))"
      using "2.IH"(1) [OF _ _ b' l, of "Suc (Suc j)"] e "2.prems"(3) by (auto simp: numeral_nat)
    have "take (Suc (Suc j)) ?b' = take j b @ [c, CHR 0x22]"
      using j t(5) "2.prems"(3) by (subst take_write) (auto simp: take_write)
    then show ?thesis using ih e t b j "2.prems"(3)
      by (auto simp: k(1) run read_at_def write_at_def Let_def split: prod.splits)
  next
    case o
    obtain i' j' b2 where ih: "string_end k (Suc i) (Suc j) ?b = Inr ((i', j'), b2)"
      "at_text b2 i' (snd (quoted s))" "j' \<le> i'" "length b2 = length b"
      "j' = Suc j + length (fst (quoted s))" "take j' b2 = take (Suc j) ?b @ fst (quoted s)"
      using "2.IH"(2) [OF o(1) _ b k(2), of "Suc j"] o "2.prems"(3) by auto
    then show ?thesis using o t b j "2.prems"(3)
      by (auto simp: k(1) run read_at_def write_at_def Let_def take_write split: prod.splits)
  qed
qed

lemma minify_loop_run:
  "at_text b i s \<Longrightarrow> length s < fuel \<Longrightarrow> j \<le> i \<Longrightarrow>
   \<exists>b'. minify_loop fuel i j b = Inr ((), b') \<and> length b' = length b \<and>
     (\<exists>r. b' = take j b @ minified s @ NUL # r)"
proof (induction s arbitrary: i j b fuel rule: minified.induct)
  case 1
  have "i < length b" using at_textD(1) [OF 1(1)] .
  then have "j < length b" using 1(3) by simp
  then show ?case using at_textD [OF 1(1)] 1
    by (cases fuel) (auto simp: run read_at_def write_at_def upd_conv_take_nth_drop)
next
  case (2 c s)
  note t = at_text_Suc [OF "2.prems"(1)]
  obtain k where k: "fuel = Suc k" "length s < k" using "2.prems"(2) by (cases fuel) auto
  have j: "j < length b" using "2.prems"(3) t(4) by simp
  have tl: "s \<noteq> [] \<Longrightarrow> at_text b (Suc (Suc i)) (tl s) \<and> length (tl s) < Suc k"
    using at_textD(3) [OF t(1)] k(2) by auto
  consider (w) "c \<in> {CHR 0x20, CHR 0x09, CHR 0x0D, CHR 0x0A}"
    | (l) "c = CHR ''/''" "s \<noteq> []" "hd s = CHR ''/''" | (m) "c = CHR ''/''" "s \<noteq> []" "hd s = CHR ''*''"
    | (n) "c = CHR ''/''" "\<not> (s \<noteq> [] \<and> hd s = CHR ''/'')" "\<not> (s \<noteq> [] \<and> hd s = CHR ''*'')"
    | (q) "c = CHR 0x22" | (o) "c \<notin> {CHR 0x20, CHR 0x09, CHR 0x0D, CHR 0x0A, CHR ''/'', CHR 0x22}" by blast
  then show ?case
  proof cases
    case w
    then show ?thesis using "2.IH"(1) [OF w t(1) k(2), of j] t "2.prems"(3)
      by (auto simp: k(1) run read_at_def)
  next
    case l
    obtain i' where i': "i \<le> i'" "line_end (Suc k) (Suc (Suc i)) b = Inr (i', b)"
      "at_text b i' (after_line (tl s))"
      using line_end_run [of b "Suc (Suc i)" "tl s" "Suc k"] tl l(2) by (auto intro: le_trans [rotated])
    have "length (after_line (tl s)) < k" using after_length(1) [of "tl s"] k(2) l(2) by (cases s) auto
    from "2.IH"(2) [OF _ l(1) _ i'(3) this, of j] show ?thesis using l t "2.prems"(3) i'
      by (simp add: k(1) run read_at_def skip_oneline_comment_def)
  next
    case m
    obtain i' where i': "i \<le> i'" "comment_end (Suc k) (Suc (Suc i)) b = Inr (i', b)"
      "at_text b i' (after_comment (tl s))"
      using comment_end_run [of b "Suc (Suc i)" "tl s" "Suc k"] tl m(2) by (auto intro: le_trans [rotated])
    have "length (after_comment (tl s)) < k" using after_length(2) [of "tl s"] k(2) m(2) by (cases s) auto
    from "2.IH"(3) [OF _ m(1) _ _ i'(3) this, of j] show ?thesis using m t "2.prems"(3) i'
      by (simp add: k(1) run read_at_def skip_multiline_comment_def)
  next
    case n
    from "2.IH"(4) [OF _ n(1) n(2) n(3) t(1) k(2), of j] show ?thesis using n t "2.prems"(3)
      by (auto simp: k(1) run read_at_def)
  next
    case q
    have w: "b[j := c] ! i = c" using t by (cases "j = i") auto
    have s: "at_text (b[j := c]) (Suc i) s" using t(1) "2.prems"(3) by simp
    obtain i' j' b1 where e: "string_end (Suc k) (Suc i) (Suc j) (b[j := c]) = Inr ((i', j'), b1)"
      "at_text b1 i' (snd (quoted s))" "j' \<le> i'" "length b1 = length b"
      "take j' b1 = take j b @ c # fst (quoted s)"
      using string_end_run [OF s, of "Suc k" "Suc j"] k(2) "2.prems"(3) take_write [OF j] by auto
    have "length (snd (quoted s)) < k" using quoted_length [of s] k(2) by simp
    from "2.IH"(5) [OF _ _ q e(2) this e(3)] show ?thesis using q t j e
      by (auto simp: k(1) run read_at_def write_at_def minify_string_def)
  next
    case o
    have s: "at_text (b[j := c]) (Suc i) s" using t(1) "2.prems"(3) by simp
    from "2.IH"(6) [OF _ _ _ s k(2), of "Suc j"] show ?thesis using o t j "2.prems"(3)
      by (auto simp: k(1) run read_at_def write_at_def take_write)
  qed
qed

end
