(* ===== verification/Minified.thy ===== *)
theory Minified
  imports CJsonMinify RoundTrip
begin

text \<open>
  Minifying what was printed: \<open>cJSON_Minify\<close> turns a formatted text in its buffer into the
  unformatted text of the same item, unless a string ends with a backslash.
\<close>

definition no_trailing :: "string \<Rightarrow> bool" where
  "no_trailing s \<longleftrightarrow> s = [] \<or> last s \<noteq> CHR 0x5C"

fun unslashed :: "cJSON \<Rightarrow> bool" where
  "unslashed (Item k r c vs vi vd n ch) \<longleftrightarrow>
     pred_option no_trailing vs \<and> pred_option no_trailing n \<and> (\<forall>it \<in> set ch. unslashed it)"

section \<open>Strings\<close>

lemma quoted_plain:
  "CHR 0x22 \<notin> set u \<Longrightarrow> CHR 0x5C \<notin> set u \<Longrightarrow> quoted (u @ r) = (u @ fst (quoted r), snd (quoted r))"
  by (induction u) (auto simp: Let_def split: prod.splits)

lemma quoted_slash:
  "r = [] \<or> hd r \<noteq> CHR 0x22 \<Longrightarrow> quoted (CHR 0x5C # r) = (CHR 0x5C # fst (quoted r), snd (quoted r))"
  by (auto simp: Let_def split: prod.splits)

lemma escape_char_start: "escape_char c \<noteq> [] \<and> hd (escape_char c) \<noteq> CHR 0x22"
  by (simp add: escape_char_def)

lemma quoted_escaped:
  "no_trailing s \<Longrightarrow> quoted (concat (map escape_char s) @ CHR 0x22 # r) =
     (concat (map escape_char s) @ [CHR 0x22], r)"
proof (induction s)
  case (Cons c s)
  let ?rest = "concat (map escape_char s) @ CHR 0x22 # r"
  have s: "no_trailing s" using Cons.prems by (simp add: no_trailing_def split: if_splits)
  then have ih: "quoted ?rest = (concat (map escape_char s) @ [CHR 0x22], r)" by (rule Cons.IH)
  consider (p) "escape_char c = [c]" "c \<noteq> CHR 0x22" "c \<noteq> CHR 0x5C" | (q) "c = CHR 0x22" | (b) "c = CHR 0x5C"
    | (o) u where "escape_char c = CHR 0x5C # u" "u \<noteq> []" "CHR 0x22 \<notin> set u" "CHR 0x5C \<notin> set u"
  proof (cases "c = CHR 0x22 \<or> c = CHR 0x5C \<or> 31 < byte c")
    case True
    then show ?thesis using that(1-3) by (cases "c = CHR 0x22"; cases "c = CHR 0x5C") (auto simp: escape_char_def)
  next
    case False
    then have "byte c div 16 < 16" "byte c mod 16 < 16" by auto
    from hex_char_plain [OF this(1)] hex_char_plain [OF this(2)] False show ?thesis
      by (intro that(4) [of "tl (escape_char c)"]) (auto simp: escape_char_def)
  qed
  then show ?case
  proof cases
    case p
    then show ?thesis using ih by simp
  next
    case q
    then have "escape_char c = [CHR 0x5C, CHR 0x22]" by (simp add: escape_char_def)
    then show ?thesis using ih by simp
  next
    case b
    then obtain d s' where d: "s = d # s'" using Cons.prems by (cases s) (auto simp: no_trailing_def)
    then have "hd ?rest \<noteq> CHR 0x22" using escape_char_start [of d] by (cases "escape_char d") auto
    then have "quoted (CHR 0x5C # ?rest) = (CHR 0x5C # fst (quoted ?rest), snd (quoted ?rest))"
      by (intro quoted_slash) simp
    moreover have "quoted (CHR 0x5C # CHR 0x5C # ?rest) =
        (CHR 0x5C # fst (quoted (CHR 0x5C # ?rest)), snd (quoted (CHR 0x5C # ?rest)))"
      by (intro quoted_slash) simp
    moreover have "escape_char c = [CHR 0x5C, CHR 0x5C]" using b by (simp add: escape_char_def)
    ultimately show ?thesis using ih by (simp del: quoted.simps)
  next
    case o
    have "quoted (CHR 0x5C # u @ ?rest) = (CHR 0x5C # fst (quoted (u @ ?rest)), snd (quoted (u @ ?rest)))"
      using o by (intro quoted_slash) (cases u; auto)
    then show ?thesis using o ih by (simp add: quoted_plain del: quoted.simps)
  qed
qed simp

section \<open>Texts and their minified form\<close>

definition shortens :: "string \<Rightarrow> string \<Rightarrow> bool" where
  "shortens u v \<longleftrightarrow> (\<forall>r. minified (u @ r) = v @ minified r)"

lemma shortens_append: "shortens u v \<Longrightarrow> shortens u' v' \<Longrightarrow> shortens (u @ u') (v @ v')"
  by (simp add: shortens_def)

lemma shortens_Nil [simp]: "shortens [] []"
  by (simp add: shortens_def)

definition bare :: "char \<Rightarrow> bool" where
  "bare c \<longleftrightarrow> c \<notin> {CHR 0x20, CHR 0x09, CHR 0x0D, CHR 0x0A, CHR ''/'', CHR 0x22}"

lemma shortens_bare: "\<forall>c \<in> set u. bare c \<Longrightarrow> shortens u u"
  unfolding shortens_def by (induction u) (auto simp: bare_def)

lemma shortens_space: "set u \<subseteq> {CHR 0x20, CHR 0x09, CHR 0x0D, CHR 0x0A} \<Longrightarrow> shortens u []"
  unfolding shortens_def by (induction u) auto

lemma shortens_quote: "pred_option no_trailing s \<Longrightarrow> shortens (quote s) (quote s)"
  by (cases s) (auto simp: shortens_def quote_def quoted_escaped simp del: quoted.simps, simp)

lemma shortens_separators:
  "shortens (array_separator True) (array_separator False)" "shortens (newline True) (newline False)"
  "shortens (colon True) (colon False)" "shortens (indent True d) (indent False d')"
proof -
  show "shortens (array_separator True) (array_separator False)"
    using shortens_append [OF shortens_bare [of "'',''"] shortens_space [of "'' ''"]]
    by (simp add: array_separator_def bare_def)
  show "shortens (newline True) (newline False)"
    using shortens_space [of "[CHR 0x0A]"] by (simp add: newline_def)
  show "shortens (colon True) (colon False)"
    using shortens_append [OF shortens_bare [of "'':''"] shortens_space [of "[CHR 0x09]"]]
    by (simp add: colon_def bare_def)
  show "shortens (indent True d) (indent False d')"
    using shortens_space [of "tabs d"] by (simp add: indent_def tabs_def set_replicate_conv_if split: if_splits)
qed

lemma shortens_elements:
  "list_all2 shortens us vs \<Longrightarrow> shortens (element_texts True us) (element_texts False vs)"
proof (induction True us arbitrary: vs rule: element_texts.induct)
  case (3 u u' us)
  then obtain v v' vs' where v: "vs = v # v' # vs'" "shortens u v" "list_all2 shortens (u' # us) (v' # vs')"
    by (auto simp: list_all2_Cons1)
  show ?case
    using shortens_append [OF v(2) shortens_append [OF shortens_separators(1) "3.hyps" [OF v(3)]]] v(1) by simp
qed (auto simp: list_all2_Cons1)

lemma shortens_members:
  assumes "list_all2 shortens us vs" and "length ns = length us" and "\<forall>n \<in> set ns. pred_option no_trailing n"
  shows "shortens (member_texts True d (zip ns us)) (member_texts False d' (zip ns vs))"
  using assms
proof (induction us vs arbitrary: ns rule: list_all2_induct)
  case (Cons u us v vs)
  then obtain n ns' where n: "ns = n # ns'" "length ns' = length us" "pred_option no_trailing n"
    by (cases ns) auto
  have m: "shortens (member_text True d (n, u)) (member_text False d' (n, v))"
    unfolding member_text_def fst_conv snd_conv
    by (intro shortens_append shortens_separators shortens_quote n Cons.hyps(1))
  show ?case
  proof (cases "zip ns' us")
    case Nil
    then have e: "zip ns' vs = []" using n(2) list_all2_lengthD [OF Cons.hyps(2)] by (cases ns'; cases us; auto)
    show ?thesis unfolding n(1) zip_Cons_Cons Nil e member_texts.simps
      by (intro shortens_append m shortens_separators)
  next
    case (Cons p ps)
    obtain p' ps' where p': "zip ns' vs = p' # ps'"
      using Cons n(2) list_all2_lengthD [OF \<open>list_all2 shortens us vs\<close>] by (cases ns'; cases us; cases vs; auto)
    have "shortens (member_texts True d (zip ns' us)) (member_texts False d' (zip ns' vs))"
      using Cons.IH n Cons.prems by simp
    from shortens_append [OF m shortens_append [OF shortens_bare [of "'',''"] shortens_append [OF shortens_separators(2) this]]]
    show ?thesis using Cons p' n(1) by (simp add: bare_def)
  qed
qed simp

lemma shortens_render:
  "plain t \<Longrightarrow> unslashed t \<Longrightarrow>
   \<exists>u v. render True d t = Some u \<and> render False d' t = Some v \<and> shortens u v"
proof (induction t arbitrary: d d')
  case (Item k r c vs vi vd n ch)
  let ?t = "Item k r c vs vi vd n ch"
  have "\<exists>us vs. those (map (render True (d + 1)) xs) = Some us \<and> those (map (render False (d' + 1)) xs) = Some vs \<and>
      list_all2 shortens us vs" if "set xs \<subseteq> set ch" for xs
    using that
  proof (induction xs)
    case (Cons x xs)
    obtain u v where "render True (d + 1) x = Some u" "render False (d' + 1) x = Some v" "shortens u v"
      using Item.IH [of x "d + 1" "d' + 1"] Item.prems Cons.prems by auto
    then show ?case using Cons by auto
  qed simp
  then obtain us ws where ch: "those (map (render True (d + 1)) ch) = Some us"
    "those (map (render False (d' + 1)) ch) = Some ws" "list_all2 shortens us ws"
    by blast
  have names: "length (map name ch) = length us" "\<forall>n \<in> set (map name ch). pred_option no_trailing n"
  proof -
    show "length (map name ch) = length us"
      using list_all2_lengthD [OF those_list_all2 [OF ch(1)]] by simp
    have "pred_option no_trailing (name x)" if "unslashed x" for x using that by (cases x) simp
    then show "\<forall>n \<in> set (map name ch). pred_option no_trailing n" using Item.prems(2) by auto
  qed
  note ms = shortens_members [OF ch(3) names, of "d + 1" "d' + 1"]
  have b: "shortens ''{'' ''{''" "shortens ''}'' ''}''" "shortens ''['' ''[''" "shortens '']'' '']''"
    "shortens ''null'' ''null''" "shortens ''true'' ''true''" "shortens ''false'' ''false''"
    by (rule shortens_bare, simp add: bare_def)+
  have num: "shortens (show_int vi) (show_int vi)"
    by (rule shortens_bare)
      (auto simp: bare_def show_int_def is_digit_def byte_def dest!: show_nat_digits split: if_splits)
  have str: "shortens (quote vs) (quote vs)" using Item.prems(2) by (intro shortens_quote) simp
  note rs = render.simps [of True d ?t] render.simps [of False d' ?t]
  show ?case
  proof (cases k)
    case cJSON_Array
    then show ?thesis
      using ch shortens_append [OF b(3) shortens_append [OF shortens_elements [OF ch(3)] b(4)]]
      unfolding rs by simp
  next
    case cJSON_Object
    have "shortens (''{'' @ newline True @ member_texts True (d + 1) (zip (map name ch) us) @ indent True d @ ''}'')
        (''{'' @ newline False @ member_texts False (d' + 1) (zip (map name ch) ws) @ indent False d' @ ''}'')"
      by (intro shortens_append b ms shortens_separators)
    then show ?thesis using ch cJSON_Object unfolding rs by simp
  qed (use Item.prems(1) b num str in \<open>unfold rs, auto simp: number_text_int\<close>)
qed

section \<open>Theorems\<close>

lemma minify_buffer:
  assumes "c_string s"
  shows "\<exists>b. cJSON_Minify (s @ [NUL]) = Inr ((), b) \<and> length b = length s + 1 \<and> (\<exists>r. b = minified s @ NUL # r)"
proof -
  have "at_text (s @ [NUL]) 0 s" using assms by (simp add: at_text_def)
  from minify_loop_run [OF this, of "Suc (length s)" 0] show ?thesis
    by (auto simp: cJSON_Minify_def run)
qed

lemma takeWhile_terminated: "NUL \<notin> set v \<Longrightarrow> takeWhile (\<lambda>c. c \<noteq> NUL) (v @ NUL # r) = v"
  by (induction v) auto

text \<open>
  C36: minifying a printed text. On the formatted text of an item in its buffer, \<open>cJSON_Minify\<close>
  ends, reads and writes inside the buffer only, and leaves the unformatted text of the item,
  provided that no string of it ends with a backslash.
\<close>

theorem minify_printed:
  assumes "plain t" and "name t = None" and "unslashed t"
    and "int (length (the (render True 0 t))) + 2 \<le> INT_MAX"
  shows "\<exists>u v b. cJSON_Print (Some t) [] = Inr (Some u, []) \<and>
    cJSON_PrintUnformatted (Some t) [] = Inr (Some v, []) \<and>
    cJSON_Minify (u @ [NUL]) = Inr ((), b) \<and> length b = length u + 1 \<and> cstr b = Inr v"
proof -
  obtain u v where uv: "render True 0 t = Some u" "render False 0 t = Some v" "shortens u v"
    using shortens_render [OF assms(1,3)] by blast
  have p: "printable t" using assms(1,2) by (simp add: plain_printable)
  have "minified u = v" using uv(3) by (metis append_Nil2 minified.simps(1) shortens_def)
  moreover have "c_string u" "c_string v" using c_string_render [OF p] uv by blast+
  ultimately obtain b r where b: "cJSON_Minify (u @ [NUL]) = Inr ((), b)" "length b = length u + 1" "b = v @ NUL # r"
    using minify_buffer by blast
  then have "length v \<le> length u" by auto
  then have "int (length v) + 2 \<le> INT_MAX" using assms(4) uv(1) by simp
  then have "cJSON_PrintUnformatted (Some t) [] = Inr (Some v, [])"
    using print_ok [OF p, of False "[]"] uv(2)
    by (auto simp: cJSON_PrintUnformatted_def wp_total prints_text_def)
  moreover have "cJSON_Print (Some t) [] = Inr (Some u, [])"
    using cJSON_Print_Nil [OF p uv(1)] assms(4) uv(1) by simp
  moreover have "cstr b = Inr v"
    using b(3) \<open>c_string v\<close> by (simp add: cstr_def upto_nul_def c_string_def takeWhile_terminated)
  ultimately show ?thesis using b by blast
qed

theorem minify_printed_witness:
  "\<exists>u v b. cJSON_Print (Some sample_item) [] = Inr (Some u, []) \<and>
    cJSON_PrintUnformatted (Some sample_item) [] = Inr (Some v, []) \<and>
    cJSON_Minify (u @ [NUL]) = Inr ((), b) \<and> length b = length u + 1 \<and> cstr b = Inr v"
proof (rule minify_printed)
  show "plain sample_item" by (simp add: sample_item_def json_object_def json_string_def
      json_array_def json_int_def member_def int_bounds)
  show "name sample_item = None" by (simp add: sample_item_def json_object_def)
  show "unslashed sample_item" by (simp add: sample_item_def json_object_def json_string_def
      json_array_def json_int_def member_def no_trailing_def)
  show "int (length (the (render True 0 sample_item))) + 2 \<le> INT_MAX" by code_simp
qed

text \<open>
  A string that ends with a backslash breaks it: its escaped backslash and closing quote are
  taken for an escaped quote, so the next string is treated as being outside, and loses its
  white space. The object changes its meaning.
\<close>

theorem minify_backslash:
  "map_option minified (render False 0 (json_object [member [CHR 0x5C] (json_string ''b c'')])) =
    render False 0 (json_object [member [CHR 0x5C] (json_string ''bc'')])"
  by code_simp

end
