(* ===== verification/CJsonMore.thy ===== *)
theory CJsonMore
  imports CJsonPrint
begin

text \<open>
  The rest of the interface of \<open>lib/cJSON/src/cJSON.c\<close> on trees: the tests of an item's type,
  reading and changing its value, arrays of numbers and strings, references, editing an object
  by the names of its members, duplicating and comparing. Items that share memory (references)
  are copies here, so what is said of them is said of the moment the reference is made.
\<close>

section \<open>Types and values\<close>

text \<open>\<open>(item->type & 0xFF) == k\<close>\<close>

definition is_kind :: "kind \<Rightarrow> cJSON option \<Rightarrow> bool" where
  "is_kind k item \<longleftrightarrow> (case item of None \<Rightarrow> False | Some it \<Rightarrow> kind it = k)"

definition cJSON_IsInvalid :: "cJSON option \<Rightarrow> bool" where
  "cJSON_IsInvalid item \<longleftrightarrow> is_kind cJSON_Invalid item"

definition cJSON_IsFalse :: "cJSON option \<Rightarrow> bool" where
  "cJSON_IsFalse item \<longleftrightarrow> is_kind cJSON_False item"

definition cJSON_IsTrue :: "cJSON option \<Rightarrow> bool" where
  "cJSON_IsTrue item \<longleftrightarrow> is_kind cJSON_True item"

definition cJSON_IsBool :: "cJSON option \<Rightarrow> bool" where
  "cJSON_IsBool item \<longleftrightarrow>
     (case item of None \<Rightarrow> False | Some it \<Rightarrow> kind it = cJSON_True \<or> kind it = cJSON_False)"

definition cJSON_IsNull :: "cJSON option \<Rightarrow> bool" where
  "cJSON_IsNull item \<longleftrightarrow> is_kind cJSON_NULL item"

definition cJSON_IsNumber :: "cJSON option \<Rightarrow> bool" where
  "cJSON_IsNumber item \<longleftrightarrow> is_kind cJSON_Number item"

definition cJSON_IsString :: "cJSON option \<Rightarrow> bool" where
  "cJSON_IsString item \<longleftrightarrow> is_kind cJSON_String item"

definition cJSON_IsArray :: "cJSON option \<Rightarrow> bool" where
  "cJSON_IsArray item \<longleftrightarrow> is_kind cJSON_Array item"

definition cJSON_IsObject :: "cJSON option \<Rightarrow> bool" where
  "cJSON_IsObject item \<longleftrightarrow> is_kind cJSON_Object item"

definition cJSON_IsRaw :: "cJSON option \<Rightarrow> bool" where
  "cJSON_IsRaw item \<longleftrightarrow> is_kind cJSON_Raw item"

definition cJSON_GetStringValue :: "cJSON option \<Rightarrow> string option" where
  "cJSON_GetStringValue item =
     (case item of Some it \<Rightarrow> if cJSON_IsString item then valuestring it else None | None \<Rightarrow> None)"

definition cJSON_GetNumberValue :: "cJSON option \<Rightarrow> double" where
  "cJSON_GetNumberValue item =
     (case item of Some it \<Rightarrow> if cJSON_IsNumber item then valuedouble it else NaN | None \<Rightarrow> NaN)"

text \<open>The result of the function and the changed item.\<close>

definition cJSON_SetNumberHelper :: "cJSON option \<Rightarrow> double \<Rightarrow> (double \<times> cJSON option) heapm" where
  "cJSON_SetNumberHelper object number =
     andthen (deref object) (\<lambda>ob.
     andthen (lift (saturate number)) (\<lambda>vi.
     ret (number, Some (set_valuedouble number (set_valueint vi ob)))))"

definition cJSON_SetValuestring ::
    "cJSON option \<Rightarrow> string option \<Rightarrow> (string option \<times> cJSON option) heapm" where
  "cJSON_SetValuestring object text =
     (case object of
        None \<Rightarrow> ret (None, None)
      | Some ob \<Rightarrow>
          if kind ob \<noteq> cJSON_String \<or> is_reference ob then ret (None, object)
          else
            (case valuestring ob of
               None \<Rightarrow> ret (None, object)
             | Some old \<Rightarrow>
                 andthen (deref text) (\<lambda>new.
                 if length new \<le> length old then ret (Some new, Some (set_valuestring (Some new) ob))
                 else
                   andthen (cJSON_strdup (Some new)) (\<lambda>copy.
                   if copy = None then ret (None, object)
                   else ret (copy, Some (set_valuestring copy ob))))))"

section \<open>Arrays of values\<close>

text \<open>The loop that makes one element after another and deletes all when one cannot be made.\<close>

primrec create_elements :: "nat \<Rightarrow> nat \<Rightarrow> (nat \<Rightarrow> cJSON option heapm) \<Rightarrow> cJSON list option heapm" where
  "create_elements 0 i mk = ret (Some [])"
| "create_elements (Suc k) i mk =
     andthen (mk i) (\<lambda>n.
     case n of
       None \<Rightarrow> ret None
     | Some n \<Rightarrow>
         andthen (create_elements k (i + 1) mk) (\<lambda>rest. ret (map_option (\<lambda>ns. n # ns) rest)))"

definition create_array_of :: "('a \<Rightarrow> cJSON option heapm) \<Rightarrow> 'a list option \<Rightarrow> int \<Rightarrow> cJSON option heapm" where
  "create_array_of mk values count =
     (case values of
        None \<Rightarrow> ret None
      | Some xs \<Rightarrow>
          if count < 0 then ret None
          else
            andthen cJSON_CreateArray (\<lambda>a.
            case a of
              None \<Rightarrow> ret None
            | Some a \<Rightarrow>
                andthen (create_elements (nat count) 0
                  (\<lambda>i. if i < length xs then mk (xs ! i) else fault Out_of_bounds)) (\<lambda>ns.
                ret (map_option (\<lambda>ns. set_child ns a) ns))))"

definition cJSON_CreateIntArray :: "int list option \<Rightarrow> int \<Rightarrow> cJSON option heapm" where
  "cJSON_CreateIntArray = create_array_of (\<lambda>i. cJSON_CreateNumber (double_of_int i))"

text \<open>A \<open>float\<close> is converted to the \<open>double\<close> of the same value.\<close>

definition cJSON_CreateFloatArray :: "double list option \<Rightarrow> int \<Rightarrow> cJSON option heapm" where
  "cJSON_CreateFloatArray = create_array_of cJSON_CreateNumber"

definition cJSON_CreateDoubleArray :: "double list option \<Rightarrow> int \<Rightarrow> cJSON option heapm" where
  "cJSON_CreateDoubleArray = create_array_of cJSON_CreateNumber"

definition cJSON_CreateStringArray :: "string option list option \<Rightarrow> int \<Rightarrow> cJSON option heapm" where
  "cJSON_CreateStringArray = create_array_of cJSON_CreateString"

section \<open>References\<close>

primrec as_reference :: "cJSON \<Rightarrow> cJSON" where
  "as_reference (Item k r c vs vi vd n ch) = Item k True c vs vi vd None ch"

definition create_reference :: "cJSON option \<Rightarrow> cJSON option heapm" where
  "create_reference item =
     (case item of
        None \<Rightarrow> ret None
      | Some it \<Rightarrow> andthen cJSON_New_Item (\<lambda>new. ret (if new = None then None else Some (as_reference it))))"

definition cJSON_AddItemReferenceToArray ::
    "cJSON option \<Rightarrow> cJSON option \<Rightarrow> (bool \<times> cJSON option) heapm" where
  "cJSON_AddItemReferenceToArray array item =
     (if array = None then ret (False, array)
      else andthen (create_reference item) (\<lambda>it. ret (add_item_to_array array it)))"

definition cJSON_AddItemReferenceToObject ::
    "cJSON option \<Rightarrow> string option \<Rightarrow> cJSON option \<Rightarrow> (bool \<times> cJSON option) heapm" where
  "cJSON_AddItemReferenceToObject object str item =
     (if object = None \<or> str = None then ret (False, object)
      else andthen (create_reference item) (\<lambda>it. add_item_to_object object str it False))"

definition cJSON_CreateStringReference :: "string option \<Rightarrow> cJSON option heapm" where
  "cJSON_CreateStringReference str =
     andthen cJSON_New_Item (\<lambda>item.
     ret (if item = None then None else Some (Item cJSON_String True False str 0 (Fin 0) None [])))"

definition cJSON_CreateObjectReference :: "cJSON list \<Rightarrow> cJSON option heapm" where
  "cJSON_CreateObjectReference children =
     andthen cJSON_New_Item (\<lambda>item.
     ret (if item = None then None else Some (Item cJSON_Object True False None 0 (Fin 0) None children)))"

definition cJSON_CreateArrayReference :: "cJSON list \<Rightarrow> cJSON option heapm" where
  "cJSON_CreateArrayReference children =
     andthen cJSON_New_Item (\<lambda>item.
     ret (if item = None then None else Some (Item cJSON_Array True False None 0 (Fin 0) None children)))"

section \<open>Editing objects by name\<close>

text \<open>The member a lookup stops at, and the members without it or with another in its place.\<close>

definition stops_at :: "bool \<Rightarrow> string \<Rightarrow> cJSON \<Rightarrow> bool" where
  "stops_at case_sensitive n c \<longleftrightarrow>
     (if case_sensitive then name c = None \<or> name c = Some n
      else case_insensitive_strcmp (Some n) (name c) = 0)"

fun take_out :: "('a \<Rightarrow> bool) \<Rightarrow> 'a list \<Rightarrow> 'a list" where
  "take_out P [] = []"
| "take_out P (x # xs) = (if P x then xs else x # take_out P xs)"

fun put_in :: "('a \<Rightarrow> bool) \<Rightarrow> 'a \<Rightarrow> 'a list \<Rightarrow> 'a list" where
  "put_in P y [] = []"
| "put_in P y (x # xs) = (if P x then y # xs else x # put_in P y xs)"

definition detach_named :: "bool \<Rightarrow> cJSON option \<Rightarrow> string \<Rightarrow> cJSON option \<times> cJSON option" where
  "detach_named case_sensitive object n =
     (case get_object_item object (Some n) case_sensitive of
        None \<Rightarrow> (None, object)
      | Some it \<Rightarrow>
          (Some it, map_option (\<lambda>ob. set_child (take_out (stops_at case_sensitive n) (child ob)) ob) object))"

definition cJSON_DetachItemFromObject :: "cJSON option \<Rightarrow> string \<Rightarrow> cJSON option \<times> cJSON option" where
  "cJSON_DetachItemFromObject object n = detach_named False object n"

definition cJSON_DetachItemFromObjectCaseSensitive ::
    "cJSON option \<Rightarrow> string \<Rightarrow> cJSON option \<times> cJSON option" where
  "cJSON_DetachItemFromObjectCaseSensitive object n = detach_named True object n"

text \<open>What is left of the object when the member is deleted.\<close>

definition cJSON_DeleteItemFromObject :: "cJSON option \<Rightarrow> string \<Rightarrow> cJSON option" where
  "cJSON_DeleteItemFromObject object n = snd (cJSON_DetachItemFromObject object n)"

definition cJSON_DeleteItemFromObjectCaseSensitive :: "cJSON option \<Rightarrow> string \<Rightarrow> cJSON option" where
  "cJSON_DeleteItemFromObjectCaseSensitive object n = snd (cJSON_DetachItemFromObjectCaseSensitive object n)"

text \<open>The result, the object, and the replacement, which is renamed even when it is not used.\<close>

definition replace_item_in_object ::
    "cJSON option \<Rightarrow> string option \<Rightarrow> cJSON option \<Rightarrow> bool \<Rightarrow> (bool \<times> cJSON option \<times> cJSON option) heapm" where
  "replace_item_in_object object str replacement case_sensitive =
     (case (replacement, str) of
        (Some r, Some n) \<Rightarrow>
          andthen (cJSON_strdup (Some n)) (\<lambda>copy.
          if copy = None then ret (False, object, Some (set_name (string_is_const r) None r))
          else
            let r' = set_name False copy r in
            (case (object, get_object_item object (Some n) case_sensitive) of
               (Some ob, Some _) \<Rightarrow>
                 ret (True, Some (set_child (put_in (stops_at case_sensitive n) r' (child ob)) ob), Some r')
             | _ \<Rightarrow> ret (False, object, Some r')))
      | _ \<Rightarrow> ret (False, object, replacement))"

definition cJSON_ReplaceItemInObject ::
    "cJSON option \<Rightarrow> string option \<Rightarrow> cJSON option \<Rightarrow> (bool \<times> cJSON option \<times> cJSON option) heapm" where
  "cJSON_ReplaceItemInObject object str newitem = replace_item_in_object object str newitem False"

definition cJSON_ReplaceItemInObjectCaseSensitive ::
    "cJSON option \<Rightarrow> string option \<Rightarrow> cJSON option \<Rightarrow> (bool \<times> cJSON option \<times> cJSON option) heapm" where
  "cJSON_ReplaceItemInObjectCaseSensitive object str newitem = replace_item_in_object object str newitem True"

section \<open>Duplicating\<close>

fun duplicate_item :: "cJSON \<Rightarrow> bool \<Rightarrow> cJSON option heapm"
  and duplicate_items :: "cJSON list \<Rightarrow> cJSON list option heapm" where
  "duplicate_item (Item k r c vs vi vd n ch) recurse =
     andthen cJSON_New_Item (\<lambda>newitem.
     if newitem = None then ret None
     else
       andthen (cJSON_strdup vs) (\<lambda>vs'.
       if vs \<noteq> None \<and> vs' = None then ret None
       else
         andthen (if c then ret n else cJSON_strdup n) (\<lambda>n'.
         if n \<noteq> None \<and> n' = None then ret None
         else if \<not> recurse then ret (Some (Item k False c vs' vi vd n' []))
         else
           andthen (duplicate_items ch) (\<lambda>ch'.
           ret (map_option (Item k False c vs' vi vd n') ch')))))"
| "duplicate_items [] = ret (Some [])"
| "duplicate_items (x # xs) =
     andthen (duplicate_item x True) (\<lambda>y.
     case y of
       None \<Rightarrow> ret None
     | Some y \<Rightarrow> andthen (duplicate_items xs) (\<lambda>ys. ret (map_option (\<lambda>ys. y # ys) ys)))"

definition cJSON_Duplicate :: "cJSON option \<Rightarrow> bool \<Rightarrow> cJSON option heapm" where
  "cJSON_Duplicate item recurse = (case item of None \<Rightarrow> ret None | Some it \<Rightarrow> duplicate_item it recurse)"

section \<open>Comparing\<close>

lemma find_in_children:
  "find_case_sensitive n cs = Some it \<Longrightarrow> it \<in> set cs" "find_case_insensitive n cs = Some it \<Longrightarrow> it \<in> set cs"
  by (induction cs) (auto split: if_splits)

lemma get_object_item_in: "get_object_item (Some b) n cs = Some x \<Longrightarrow> x \<in> set (child b)"
  by (auto simp: get_object_item_def split: option.splits if_splits dest: find_in_children)

lemma size_in_child: "x \<in> set (child b) \<Longrightarrow> size x < size b"
  by (cases b) (auto simp: less_Suc_eq_le dest!: size_list_estimation' [OF _ order_refl])

text \<open>The comparison of two different items. The search for a member that is not there ends it.\<close>

function compare_items :: "cJSON \<Rightarrow> cJSON \<Rightarrow> bool \<Rightarrow> bool" where
  "compare_items a b case_sensitive \<longleftrightarrow>
     kind a = kind b \<and>
     (case kind a of
        cJSON_Invalid \<Rightarrow> False
      | cJSON_False \<Rightarrow> True
      | cJSON_True \<Rightarrow> True
      | cJSON_NULL \<Rightarrow> True
      | cJSON_Number \<Rightarrow> compare_double (valuedouble a) (valuedouble b)
      | cJSON_String \<Rightarrow> valuestring a \<noteq> None \<and> valuestring a = valuestring b
      | cJSON_Raw \<Rightarrow> valuestring a \<noteq> None \<and> valuestring a = valuestring b
      | cJSON_Array \<Rightarrow>
          length (child a) = length (child b) \<and>
          (\<forall>(x, y) \<in> set (zip (child a) (child b)). compare_items x y case_sensitive)
      | cJSON_Object \<Rightarrow>
          (\<forall>x \<in> set (child a). \<forall>y \<in> set_option (get_object_item (Some b) (name x) case_sensitive).
             compare_items x y case_sensitive) \<and>
          (\<forall>x \<in> set (child a). get_object_item (Some b) (name x) case_sensitive \<noteq> None) \<and>
          (\<forall>y \<in> set (child b). \<forall>x \<in> set_option (get_object_item (Some a) (name y) case_sensitive).
             compare_items y x case_sensitive) \<and>
          (\<forall>y \<in> set (child b). get_object_item (Some a) (name y) case_sensitive \<noteq> None))"
  by pat_completeness auto
termination
proof (relation "measure (\<lambda>(a, b, _). size a + size b)")
  fix a b x y :: cJSON and cs :: bool and p
  show "p \<in> set (zip (child a) (child b)) \<Longrightarrow> (x, y) = p \<Longrightarrow>
    ((x, y, cs), a, b, cs) \<in> measure (\<lambda>(a, b, _). size a + size b)"
    using size_in_child [of x a] size_in_child [of y b] set_zip_leftD [of x y "child a" "child b"]
      set_zip_rightD [of x y "child a" "child b"] by auto
  show "x \<in> set (child a) \<Longrightarrow> y \<in> set_option (get_object_item (Some b) (name x) cs) \<Longrightarrow>
    ((x, y, cs), a, b, cs) \<in> measure (\<lambda>(a, b, _). size a + size b)"
    using size_in_child [of x a] size_in_child [of y b] get_object_item_in [of b "name x" cs y] by auto
  show "y \<in> set (child b) \<Longrightarrow> x \<in> set_option (get_object_item (Some a) (name y) cs) \<Longrightarrow>
    ((y, x, cs), a, b, cs) \<in> measure (\<lambda>(a, b, _). size a + size b)"
    using size_in_child [of y b] size_in_child [of x a] get_object_item_in [of a "name y" cs x] by auto
qed auto

declare compare_items.simps [simp del]

text \<open>\<open>identical\<close> says that the two pointers are equal.\<close>

definition cJSON_Compare :: "bool \<Rightarrow> cJSON option \<Rightarrow> cJSON option \<Rightarrow> bool \<Rightarrow> bool" where
  "cJSON_Compare identical a b case_sensitive \<longleftrightarrow>
     (case (a, b) of
        (Some x, Some y) \<Rightarrow>
          kind x = kind y \<and> kind x \<noteq> cJSON_Invalid \<and> (identical \<or> compare_items x y case_sensitive)
      | _ \<Rightarrow> False)"

section \<open>Theorems\<close>

fun unreferenced :: "cJSON \<Rightarrow> cJSON" where
  "unreferenced (Item k r c vs vi vd n ch) = Item k False c vs vi vd n (map unreferenced ch)"

lemma unreferenced_sel [simp]:
  "kind (unreferenced t) = kind t" "valuestring (unreferenced t) = valuestring t"
  "valuedouble (unreferenced t) = valuedouble t" "name (unreferenced t) = name t"
  "child (unreferenced t) = map unreferenced (child t)"
  by (cases t; simp)+

text \<open>Whatever allocations fail, a duplicate is NULL or the item with its references resolved.\<close>

lemma wp_new_item:
  "wp cJSON_New_Item (\<lambda>x h'. (x = None \<or> x = Some empty_item) \<and> (h = [] \<longrightarrow> x \<noteq> None \<and> h' = [])) (\<lambda>_. False) h"
  by (cases h) (auto simp: cJSON_New_Item_def wp_def run alloc_def)

lemma wp_strdup:
  "wp (cJSON_strdup s) (\<lambda>x h'. (x = None \<or> x = s) \<and> (h = [] \<longrightarrow> x = s \<and> h' = [])) (\<lambda>_. False) h"
  by (cases h; cases s) (auto simp: cJSON_strdup_def wp_def run alloc_def)

lemma duplicate_wp:
  "wp (duplicate_item t recurse)
     (\<lambda>x h'. (x = None \<or> x = Some (if recurse then unreferenced t else set_child [] (unreferenced t))) \<and>
        (h = [] \<longrightarrow> x \<noteq> None \<and> h' = [])) (\<lambda>_. False) h"
  "wp (duplicate_items ts)
     (\<lambda>x h'. (x = None \<or> x = Some (map unreferenced ts)) \<and> (h = [] \<longrightarrow> x \<noteq> None \<and> h' = [])) (\<lambda>_. False) h"
proof (induction t recurse and ts arbitrary: h and h rule: duplicate_item_duplicate_items.induct)
  case (1 k r c vs vi vd n ch recurse)
  have n: "wp (if c then ret n else cJSON_strdup n)
      (\<lambda>x h'. (x = None \<or> x = n) \<and> (h = [] \<longrightarrow> x = n \<and> h' = [])) (\<lambda>_. False) h" for h
    using wp_strdup [of n h] by simp
  show ?case unfolding duplicate_item.simps
    apply (rule wp_andthenI, rule wp_mono [OF wp_new_item])
     apply (split if_split, intro conjI impI)
      apply simp
     apply (rule wp_andthenI, rule wp_mono [OF wp_strdup])
      apply (split if_split, intro conjI impI)
       apply force
      apply (rule wp_andthenI, rule wp_mono [OF n])
       apply (split if_split, intro conjI impI)
        apply force
       apply (split if_split, intro conjI impI)
        apply force
       apply (rule wp_andthenI, rule wp_mono [OF "1.IH"])
           apply force+
    done
next
  case (3 x xs)
  show ?case unfolding duplicate_items.simps
    apply (rule wp_andthenI, rule wp_mono [OF "3.IH"(1)])
     apply (split option.split, intro conjI impI allI)
      apply force
     apply (rule wp_andthenI, rule wp_mono [OF "3.IH"(2)])
        apply force+
    done
qed simp

lemma duplicate_run: "cJSON_Duplicate (Some t) True [] = Inr (Some (unreferenced t), [])"
  using duplicate_wp(1) [of t True "[]"] by (auto simp: wp_total cJSON_Duplicate_def)

lemma lookup_unreferenced:
  "get_object_item (Some (unreferenced t)) n cs = map_option unreferenced (get_object_item (Some t) n cs)"
proof -
  have "find_case_sensitive m (map unreferenced xs) = map_option unreferenced (find_case_sensitive m xs)"
    "find_case_insensitive m (map unreferenced xs) = map_option unreferenced (find_case_insensitive m xs)" for m xs
    by (induction xs) auto
  then show ?thesis by (auto simp: get_object_item_def split: option.splits)
qed

lemma round_half_even_nonneg: "0 \<le> q \<Longrightarrow> 0 \<le> round_half_even q"
  by (auto simp: round_half_even_def Let_def)

lemma compare_double_refl: "compare_double (Fin q) (Fin q)"
proof -
  have "(\<exists>v \<ge> 0. round_double q' = Fin v) \<or> round_double q' = Inf False" if "0 \<le> q'" for q'
  proof (cases "q' = 0")
    case False
    let ?u = "pow2 (max (binexp \<bar>q'\<bar> - 52) (- 1074))"
    have "0 < ?u" by (simp add: pow2_def)
    then have "0 \<le> of_int (round_half_even (\<bar>q'\<bar> / ?u)) * ?u"
      using round_half_even_nonneg [of "\<bar>q'\<bar> / ?u"] by simp
    then show ?thesis using that False by (auto simp: round_double_def Let_def)
  qed (simp add: round_double_def)
  from this [of "\<bar>q\<bar> * DBL_EPSILON"] show ?thesis
    by (auto simp: compare_double_def Let_def DBL_EPSILON_def round_double_def [of 0])
qed

text \<open>An item that compares equal to a copy of itself: the numbers are finite, strings are
  there, and every member of an object is found under its name.\<close>

fun comparable :: "bool \<Rightarrow> cJSON \<Rightarrow> bool" where
  "comparable cs (Item k r c vs vi vd n ch) \<longleftrightarrow>
     k \<noteq> cJSON_Invalid \<and> (k = cJSON_Number \<longrightarrow> (\<exists>q. vd = Fin q)) \<and>
     (k \<in> {cJSON_String, cJSON_Raw} \<longrightarrow> vs \<noteq> None) \<and>
     (k = cJSON_Object \<longrightarrow> (\<forall>x \<in> set ch. get_object_item (Some (json_object ch)) (name x) cs = Some x)) \<and>
     (\<forall>x \<in> set ch. comparable cs x)"

lemma compare_unreferenced:
  "comparable cs t \<Longrightarrow> compare_items t (unreferenced t) cs \<and> compare_items (unreferenced t) t cs"
proof (induction t)
  case (Item k r c vs vi vd n ch)
  let ?t = "Item k r c vs vi vd n ch"
  have ih: "compare_items x (unreferenced x) cs" "compare_items (unreferenced x) x cs" if "x \<in> set ch" for x
    using Item.IH [OF that] Item.prems that by auto
  have get: "get_object_item (Some ?t) (name x) cs = Some x" if "x \<in> set ch" "k = cJSON_Object" for x
  proof -
    have "get_object_item (Some ?t) n cs = get_object_item (Some (json_object ch)) n cs" for n
      by (cases n) (simp_all add: get_object_item_def)
    then show ?thesis using Item.prems that by simp
  qed
  have lu: "get_object_item (Some (Item k False c vs vi vd n (map unreferenced ch))) m cs =
      map_option unreferenced (get_object_item (Some ?t) m cs)" for m
    using lookup_unreferenced [of ?t m cs] by simp
  have zip: "set (zip ch (map unreferenced ch)) = (\<lambda>x. (x, unreferenced x)) ` set ch"
    "set (zip (map unreferenced ch) ch) = (\<lambda>x. (unreferenced x, x)) ` set ch"
    by (induction ch) auto
  have "compare_items ?t (unreferenced ?t) cs"
    using Item.prems ih get compare_double_refl zip(1) lu
    by (subst compare_items.simps) (cases k; auto)
  moreover have "compare_items (unreferenced ?t) ?t cs"
    using Item.prems ih get compare_double_refl zip(2) lu
    by (subst compare_items.simps) (cases k; auto)
  ultimately show ?case by simp
qed

text \<open>
  C38: a duplicate compares equal, in both directions, to the item it was made from, whose
  references it resolves; a duplicate that runs out of memory is NULL.
\<close>

theorem duplicate_compares_equal:
  assumes "comparable cs t"
  shows "\<exists>x h'. cJSON_Duplicate (Some t) True h = Inr (x, h') \<and> (h = [] \<longrightarrow> x \<noteq> None) \<and>
    (\<forall>t'. x = Some t' \<longrightarrow>
      cJSON_Compare False (Some t) (Some t') cs \<and> cJSON_Compare False (Some t') (Some t) cs)"
proof -
  obtain x h' where x: "cJSON_Duplicate (Some t) True h = Inr (x, h')" "x = None \<or> x = Some (unreferenced t)"
    "h = [] \<longrightarrow> x \<noteq> None"
    using duplicate_wp(1) [of t True h] by (auto simp: wp_total cJSON_Duplicate_def)
  have "kind t \<noteq> cJSON_Invalid" using assms by (cases t) simp
  then have "cJSON_Compare False (Some t) (Some (unreferenced t)) cs"
    "cJSON_Compare False (Some (unreferenced t)) (Some t) cs"
    using compare_unreferenced [OF assms] by (simp_all add: cJSON_Compare_def)
  with x show ?thesis by auto
qed

definition stocked :: cJSON where
  "stocked = json_object [member ''food'' (json_object [member ''meat'' (json_int 3)]),
     member ''list'' (json_array [json_string ''a'', json_int 7])]"

theorem duplicate_compares_equal_witness:
  "\<exists>t'. cJSON_Duplicate (Some stocked) True [] = Inr (Some t', []) \<and>
    cJSON_Compare False (Some stocked) (Some t') True"
proof -
  have "comparable True stocked"
    by (simp add: stocked_def json_object_def member_def json_int_def json_array_def json_string_def
        get_object_item_def)
  from duplicate_compares_equal [OF this, of "[]"] show ?thesis
    using duplicate_run [of stocked] by auto
qed

text \<open>An object with two members of one name differs from its duplicate.\<close>

theorem double_member_differs:
  "let t = json_object [member ''a'' (json_string ''x''), member ''a'' (json_string ''y'')] in
     cJSON_Duplicate (Some t) True [] = Inr (Some t, []) \<and> \<not> cJSON_Compare False (Some t) (Some t) True"
proof -
  let ?t = "json_object [member ''a'' (json_string ''x''), member ''a'' (json_string ''y'')]"
  let ?x = "member ''a'' (json_string ''y'')" and ?y = "member ''a'' (json_string ''x'')"
  have xy: "\<not> compare_items ?x ?y True"
    by (simp only: compare_items.simps [of ?x ?y] member_sel json_sel kind.case) simp
  have get: "get_object_item (Some ?t) (name ?x) True = Some ?y" by (simp add: get_object_item_def)
  have "\<not> compare_items ?t ?t True"
  proof
    assume "compare_items ?t ?t True"
    then have "\<forall>x \<in> set (child ?t). \<forall>y \<in> set_option (get_object_item (Some ?t) (name x) True). compare_items x y True"
      by (simp only: compare_items.simps [of ?t ?t] json_sel kind.case) blast
    then have "\<forall>y \<in> set_option (get_object_item (Some ?t) (name ?x) True). compare_items ?x y True"
      by (rule bspec) simp
    then show False using get xy by simp
  qed
  moreover have "unreferenced ?t = ?t" by (simp add: json_object_def member_def json_string_def del: set_name_json)
  ultimately show ?thesis by (simp add: duplicate_run cJSON_Compare_def)
qed

lemma find_after_edit:
  assumes "find_case_sensitive n xs = Some it" and "name it \<noteq> None"
  shows "m \<noteq> n \<Longrightarrow> find_case_sensitive m (take_out (stops_at True n) xs) = find_case_sensitive m xs"
    and "name r = Some n \<Longrightarrow> m \<noteq> n \<Longrightarrow> find_case_sensitive m (put_in (stops_at True n) r xs) = find_case_sensitive m xs"
    and "name r = Some n \<Longrightarrow> find_case_sensitive n (put_in (stops_at True n) r xs) = Some r"
  using assms by (induction xs) (auto simp: stops_at_def split: if_splits)

lemma lookup_sensitive:
  "cJSON_GetObjectItemCaseSensitive (Some ob) n =
     (case find_case_sensitive n (child ob) of None \<Rightarrow> None | Some it \<Rightarrow> if name it = None then None else Some it)"
  by (simp add: cJSON_GetObjectItemCaseSensitive_def get_object_item_def)

text \<open>
  C39: editing an object by the name of a member it has. Detaching returns the member, and
  replacing puts the new item, under the name, in its place; every other name is looked up as
  before. A name the object does not have changes nothing.
\<close>

theorem object_edited_by_name:
  assumes "\<forall>c \<in> set (child ob). name c \<noteq> None"
  shows "case cJSON_GetObjectItemCaseSensitive (Some ob) n of
      None \<Rightarrow> cJSON_DetachItemFromObjectCaseSensitive (Some ob) n = (None, Some ob) \<and>
        (\<exists>r'. cJSON_ReplaceItemInObjectCaseSensitive (Some ob) (Some n) (Some r) [] = Inr ((False, Some ob, r'), []))
    | Some it \<Rightarrow>
        \<exists>ob1 ob2 r'. cJSON_DetachItemFromObjectCaseSensitive (Some ob) n = (Some it, Some ob1) \<and>
          cJSON_ReplaceItemInObjectCaseSensitive (Some ob) (Some n) (Some r) [] = Inr ((True, Some ob2, Some r'), []) \<and>
          r' = set_name False (Some n) r \<and> cJSON_GetObjectItemCaseSensitive (Some ob2) n = Some r' \<and>
          (\<forall>m. m \<noteq> n \<longrightarrow>
             cJSON_GetObjectItemCaseSensitive (Some ob1) m = cJSON_GetObjectItemCaseSensitive (Some ob) m \<and>
             cJSON_GetObjectItemCaseSensitive (Some ob2) m = cJSON_GetObjectItemCaseSensitive (Some ob) m)"
proof (cases "find_case_sensitive n (child ob)")
  case None
  then show ?thesis
    by (simp add: lookup_sensitive cJSON_DetachItemFromObjectCaseSensitive_def detach_named_def
        cJSON_ReplaceItemInObjectCaseSensitive_def replace_item_in_object_def get_object_item_def run Let_def)
next
  case (Some it)
  have n: "name it \<noteq> None" using assms find_in_children(1) [OF Some] by blast
  note e = find_after_edit [OF Some n]
  from Some n show ?thesis
    by (simp add: lookup_sensitive cJSON_DetachItemFromObjectCaseSensitive_def detach_named_def
        cJSON_ReplaceItemInObjectCaseSensitive_def replace_item_in_object_def get_object_item_def run Let_def
        e del: set_name_json)
qed

theorem object_edited_by_name_witness:
  "cJSON_DetachItemFromObjectCaseSensitive (Some stocked) ''meat'' = (None, Some stocked) \<and>
   (\<exists>ob1. cJSON_DetachItemFromObjectCaseSensitive (Some stocked) ''food'' =
      (Some (member ''food'' (json_object [member ''meat'' (json_int 3)])), Some ob1) \<and>
    cJSON_GetObjectItemCaseSensitive (Some ob1) ''list'' =
      Some (member ''list'' (json_array [json_string ''a'', json_int 7])))"
proof -
  have n: "\<forall>c \<in> set (child stocked). name c \<noteq> None" by (simp add: stocked_def)
  have "cJSON_GetObjectItemCaseSensitive (Some stocked) ''meat'' = None"
    "cJSON_GetObjectItemCaseSensitive (Some stocked) ''food'' =
      Some (member ''food'' (json_object [member ''meat'' (json_int 3)]))"
    "cJSON_GetObjectItemCaseSensitive (Some stocked) ''list'' =
      Some (member ''list'' (json_array [json_string ''a'', json_int 7]))"
    by (simp_all add: stocked_def lookup_sensitive)
  then show ?thesis
    using object_edited_by_name [OF n, of "''meat''" "json_int 0"]
      object_edited_by_name [OF n, of "''food''" "json_int 0"] by auto
qed

text \<open>The type tests tell the kinds apart, and setting a value can be read back.\<close>

lemma set_value_reads_back:
  "0 \<le> q \<Longrightarrow> q < 2 ^ 31 \<Longrightarrow> saturate (Fin q) = Inr i \<Longrightarrow>
   \<exists>ob'. cJSON_SetNumberHelper (Some ob) (Fin q) [] = Inr ((Fin q, Some ob'), []) \<and> valuedouble ob' = Fin q \<and> valueint ob' = i"
  by (cases ob) (simp add: cJSON_SetNumberHelper_def run)

text \<open>
  \<open>cJSON_SetValuestring\<close> on a string item stores the new text, in the old memory when it is no
  longer than the old text, and on any other item, or a reference, changes nothing.
\<close>

lemma set_valuestring_result:
  "cJSON_SetValuestring (Some ob) (Some new) [] =
     (if kind ob = cJSON_String \<and> \<not> is_reference ob \<and> valuestring ob \<noteq> None
      then Inr ((Some new, Some (set_valuestring (Some new) ob)), [])
      else Inr ((None, Some ob), []))"
  by (auto simp: cJSON_SetValuestring_def run cJSON_strdup_def split: option.splits)

lemma int_array_result:
  assumes "\<forall>i \<in> set xs. is_int i"
  shows "cJSON_CreateIntArray (Some xs) (int (length xs)) [] = Inr (Some (json_array (map json_int xs)), [])"
proof -
  have "create_elements k i (\<lambda>i. if i < length xs then cJSON_CreateNumber (double_of_int (xs ! i)) else fault Out_of_bounds) [] =
      Inr (Some (map json_int (drop i xs)), [])" if "i + k = length xs" for i k
    using that
  proof (induction k arbitrary: i)
    case (Suc k)
    have "drop i xs = xs ! i # drop (Suc i) xs" using Suc.prems by (simp add: Cons_nth_drop_Suc)
    moreover have "is_int (xs ! i)" using Suc.prems assms by simp
    ultimately show ?case using Suc.IH [of "Suc i"] Suc.prems by (simp add: run)
  qed (simp add: run)
  from this [of 0 "length xs"] show ?thesis
    by (simp add: cJSON_CreateIntArray_def create_array_of_def run json_array_def)
qed

end
