(* ===== verification/CJsonBuffers.thy ===== *)
theory CJsonBuffers
  imports CJsonRender CJsonParseSafe
begin

text \<open>
  The entry points of \<open>lib/cJSON/src/cJSON.c\<close> that take a size from the caller: printing into
  a buffer of a chosen first size, printing into the caller's own buffer, and parsing a text of
  a given length.
\<close>

section \<open>Entry points\<close>

definition print_item :: "cJSON option \<Rightarrow> bool printm" where
  "print_item item = (case item of None \<Rightarrow> ret False | Some it \<Rightarrow> print_value it)"

text \<open>The memory of the result, or NULL.\<close>

definition cJSON_PrintBuffered :: "cJSON option \<Rightarrow> int \<Rightarrow> bool \<Rightarrow> char option list option heapm" where
  "cJSON_PrintBuffered item prebuffer fmt =
     (if prebuffer < 0 then ret None
      else
        andthen alloc (\<lambda>ok.
        if \<not> ok then ret None
        else
          (\<lambda>h.
            case print_item item (fresh_buffer (nat prebuffer) fmt h) of
              Inl e \<Rightarrow> Inl e
            | Inr (printed, p) \<Rightarrow> Inr (if printed then buffer p else None, p_hooks p))))"

text \<open>The result and the caller's memory after the call.\<close>

definition cJSON_PrintPreallocated ::
    "cJSON option \<Rightarrow> char option list option \<Rightarrow> int \<Rightarrow> bool \<Rightarrow> (bool \<times> char option list option) heapm" where
  "cJSON_PrintPreallocated item memory len fmt h =
     (if len < 0 \<or> memory = None then Inr ((False, memory), h)
      else
        (case print_item item
            \<lparr>buffer = memory, p_length = nat len, p_offset = 0, p_depth = 0, noalloc = True,
             format = fmt, has_realloc = True, p_hooks = h\<rparr> of
           Inl e \<Rightarrow> Inl e
         | Inr (printed, p) \<Rightarrow> Inr ((printed, buffer p), p_hooks p)))"

text \<open>The bytes of the buffer are those of \<open>value\<close>.\<close>

definition cJSON_ParseWithLength :: "nat \<Rightarrow> string option \<Rightarrow> cJSON option heapm" where
  "cJSON_ParseWithLength limit value =
     andthen (cJSON_ParseWithLengthOpts limit value False) (\<lambda>r. ret (parsed_item r))"

section \<open>What they leave in memory\<close>

definition holds_string :: "string \<Rightarrow> char option list \<Rightarrow> bool" where
  "holds_string s m \<longleftrightarrow> length s < length m \<and> take (length s + 1) m = map Some (s @ [NUL])"

lemma pending_holds: "pending s p \<Longrightarrow> \<exists>m. buffer p = Some m \<and> length m = p_length p \<and> holds_string s m"
  by (auto simp: pending_def holds_string_def)

lemma print_item_adds:
  assumes "printable it" and "written [] p" and "p_depth p = 0"
  obtains r p' where "print_item (Some it) p = Inr (r, p')"
    "outcome pending [] (render (format p) 0 it) 0 p r p'"
proof -
  have "adds (print_value it) pending [] (render (format p) 0 it) p"
    using value_printsD [OF print_value_prints [OF assms(1)] assms(2) _ assms(3)] by simp
  then show ?thesis using that assms(3) by (auto simp: wp_total print_item_def)
qed

lemma print_buffered_run:
  assumes "printable it" and "0 < prebuffer" and "render fmt 0 it = Some s"
    and "int (length s) + 2 \<le> INT_MAX"
  shows "\<exists>m. cJSON_PrintBuffered (Some it) prebuffer fmt [] = Inr (Some m, []) \<and> holds_string s m"
proof -
  let ?p = "fresh_buffer (nat prebuffer) fmt []"
  have "written [] ?p" "p_depth ?p = 0" "format ?p = fmt" "roomy (length s) ?p"
    using assms(2,4) by (simp_all add: written_def fresh_buffer_def roomy_def)
  from print_item_adds [OF assms(1) this(1,2)] this(3,4) assms(3)
  obtain p' where p': "print_item (Some it) ?p = Inr (True, p')" "pending s p'" "p_hooks p' = []"
    by (auto simp: outcome_def)
  with pending_holds [OF p'(2)] assms(2) show ?thesis
    by (auto simp: cJSON_PrintBuffered_def run)
qed

text \<open>
  C37: printing into the caller's memory of the given length. For every behaviour of the
  allocator the printer returns; when it returns true, the memory has its old length and holds
  the rendered text with its terminator; and it does return true when no allocation fails and
  the memory is one byte longer than the terminated text.
\<close>

theorem preallocated_holds_text:
  assumes "printable it" and "m \<noteq> []"
  shows "\<exists>r m' h'. cJSON_PrintPreallocated (Some it) (Some m) (int (length m)) fmt h = Inr ((r, m'), h') \<and>
    (r \<longrightarrow> (\<exists>s k. render fmt 0 it = Some s \<and> m' = Some k \<and> length k = length m \<and> holds_string s k)) \<and>
    (\<forall>s. render fmt 0 it = Some s \<and> length s + 2 \<le> length m \<and> h = [] \<and> int (length s) + 2 \<le> INT_MAX \<longrightarrow> r)"
proof -
  let ?p = "\<lparr>buffer = Some m, p_length = length m, p_offset = 0, p_depth = 0, noalloc = True,
    format = fmt, has_realloc = True, p_hooks = h\<rparr>"
  have "written [] ?p" "p_depth ?p = 0" "format ?p = fmt" using assms(2) by (simp_all add: written_def)
  from print_item_adds [OF assms(1) this(1,2)] this(3)
  obtain r p' where p': "print_item (Some it) ?p = Inr (r, p')" "outcome pending [] (render fmt 0 it) 0 ?p r p'"
    by metis
  then have "r \<Longrightarrow> \<exists>s. render fmt 0 it = Some s \<and> pending s p' \<and> p_length p' = length m"
    "\<forall>s. render fmt 0 it = Some s \<and> length s + 2 \<le> length m \<and> h = [] \<and> int (length s) + 2 \<le> INT_MAX \<longrightarrow> r"
    by (auto simp: outcome_def same_def roomy_def split: option.splits)
  with p'(1) show ?thesis
    by (auto simp: cJSON_PrintPreallocated_def dest!: pending_holds)
qed

theorem preallocated_holds_text_witness:
  "\<exists>k h'. cJSON_PrintPreallocated (Some (json_string ''hi'')) (Some (replicate 6 None)) 6 True [] =
      Inr ((True, Some k), h') \<and> length k = 6 \<and> holds_string [CHR 0x22, CHR ''h'', CHR ''i'', CHR 0x22] k"
proof -
  have "printable (json_string ''hi'')" "replicate 6 (None :: char option) \<noteq> []" by (simp_all add: json_string_def)
  moreover have "render True 0 (json_string ''hi'') = Some [CHR 0x22, CHR ''h'', CHR ''i'', CHR 0x22]" by code_simp
  ultimately show ?thesis
    using preallocated_holds_text [of "json_string ''hi''" "replicate 6 None" True "[]"] by (auto simp: int_bounds)
qed

text \<open>
  A text without a terminator that ends behind a comma in an object is read behind its end.
\<close>

theorem object_read_behind_end:
  "cJSON_ParseWithLength 1000 (Some (''{'' @ [CHR 0x22, CHR 0x22] @ '':null,'')) [] = Inl (Fault Out_of_bounds)"
  by code_simp

section \<open>Allocation functions\<close>

text \<open>
  The functions cJSON allocates with: those of the C library, or others the caller gives. The
  program never gives any, so everywhere else the hooks are the initial ones, with \<open>realloc\<close>.
\<close>

datatype routine = Libc | Given nat

record internal_hooks =
  allocate :: routine
  deallocate_with :: routine
  reallocate :: "routine option"

definition global_hooks :: internal_hooks where
  "global_hooks = \<lparr>allocate = Libc, deallocate_with = Libc, reallocate = Some Libc\<rparr>"

definition cJSON_InitHooks :: "(routine option \<times> routine option) option \<Rightarrow> internal_hooks" where
  "cJSON_InitHooks given =
     (case given of
        None \<Rightarrow> \<lparr>allocate = Libc, deallocate_with = Libc, reallocate = Some Libc\<rparr>
      | Some (malloc_fn, free_fn) \<Rightarrow>
          let a = (case malloc_fn of None \<Rightarrow> Libc | Some f \<Rightarrow> f);
              d = (case free_fn of None \<Rightarrow> Libc | Some f \<Rightarrow> f)
          in \<lparr>allocate = a, deallocate_with = d,
              reallocate = (if a = Libc \<and> d = Libc then Some Libc else None)\<rparr>)"

text \<open>\<open>realloc\<close> is never mixed with the caller's functions, and no hooks bring back the start.\<close>

lemma init_hooks_consistent:
  "reallocate (cJSON_InitHooks given) = Some Libc \<longleftrightarrow> cJSON_InitHooks given = global_hooks"
  "reallocate (cJSON_InitHooks given) \<in> {None, Some Libc}"
  by (auto simp: cJSON_InitHooks_def global_hooks_def Let_def split: option.splits)

end
