(* ===== verification/DoubleText.thy ===== *)
theory DoubleText
  imports CDouble
begin

text \<open>
  How long the text of a \<open>double\<close> can be: the decimal exponent \<open>printf\<close> works out, its range for
  the values a \<open>double\<close> can have, and the length of \<open>%g\<close>.
\<close>

section \<open>Values and exponents\<close>

text \<open>Zero, the values between the smallest subnormal and the largest power of two, and the
  others.\<close>

definition representable :: "double \<Rightarrow> bool" where
  "representable d \<longleftrightarrow>
     (case d of Fin q \<Rightarrow> q = 0 \<or> pow2 (- 1074) \<le> \<bar>q\<bar> \<and> \<bar>q\<bar> < pow2 1024 | _ \<Rightarrow> True)"

lemma pow10_powi: "pow10 e = 10 powi e"
  by (auto simp: pow10_def power_int_def field_simps)

lemma pow2_powi: "pow2 e = 2 powi e"
  by (auto simp: pow2_def power_int_def field_simps)

lemma powi_less_imp: "10 powi m < (10 :: rat) powi n \<Longrightarrow> m < n"
  using power_int_increasing [of n m "10 :: rat"] by (meson leD le_less_linear one_le_numeral)

lemma show_nat_digit_count: "0 < n \<Longrightarrow> 10 ^ (length (show_nat n) - 1) \<le> n \<and> n < 10 ^ length (show_nat n)"
proof (induction n rule: show_nat.induct)
  case (1 n)
  show ?case
  proof (cases "n < 10")
    case True
    then show ?thesis using 1(2) by (simp add: show_nat.simps [of n])
  next
    case False
    let ?k = "length (show_nat (n div 10))"
    have l: "length (show_nat n) = Suc ?k" "?k = Suc (?k - 1)"
      using False by (simp_all add: show_nat.simps [of n])
    have "10 ^ (?k - 1) \<le> n div 10" "n div 10 < 10 ^ ?k" using 1(1) False by auto
    then have "10 * 10 ^ (?k - 1) \<le> n" "n < 10 * 10 ^ ?k" by auto
    moreover have "(10 :: nat) ^ ?k = 10 * 10 ^ (?k - 1)" using l(2) power_Suc by metis
    ultimately show ?thesis using l(1) by simp
  qed
qed

lemma decexp_bounds:
  assumes "0 < q"
  shows "10 powi decexp q \<le> q" "q < 10 powi (decexp q + 1)"
proof -
  obtain a b where ab: "quotient_of q = (a, b)" by (cases "quotient_of q")
  then have b: "0 < b" and q: "q = of_int a / of_int b"
    using quotient_of_denom_pos quotient_of_div by blast+
  have a: "0 < a" using b q assms by (simp add: zero_less_divide_iff)
  let ?la = "length (show_nat (nat a))" and ?lb = "length (show_nat (nat b))"
  have "10 ^ (?la - 1) \<le> nat a" "nat a < 10 ^ ?la" "10 ^ (?lb - 1) \<le> nat b" "nat b < 10 ^ ?lb"
    using show_nat_digit_count [of "nat a"] show_nat_digit_count [of "nat b"] a b by simp_all
  then have n: "10 ^ (?la - 1) \<le> a" "a < 10 ^ ?la" "10 ^ (?lb - 1) \<le> b" "b < 10 ^ ?lb"
    using a b by (simp_all add: le_nat_iff nat_less_iff)
  have r: "of_int (10 ^ (?la - 1)) \<le> (of_int a :: rat)" "(of_int a :: rat) < of_int (10 ^ ?la)"
    "of_int (10 ^ (?lb - 1)) \<le> (of_int b :: rat)" "(of_int b :: rat) < of_int (10 ^ ?lb)"
    using n by (simp_all only: of_int_le_iff of_int_less_iff)
  have l: "0 < ?la" "0 < ?lb" by simp_all
  have quot: "(10 :: rat) ^ m / 10 ^ n = 10 powi (int m - int n)" for m n by (simp add: power_int_diff)
  have "int (?la - 1) - int ?lb = int ?la - int ?lb - 1" "int ?la - int (?lb - 1) = int ?la - int ?lb + 1"
    using l by linarith+
  note quot' = quot [of "?la - 1" ?lb, unfolded this] quot [of ?la "?lb - 1", unfolded this]
  have "10 ^ (?la - 1) / 10 ^ ?lb \<le> q" unfolding q
  proof (rule frac_le)
    show "0 \<le> (of_int a :: rat)" using a by simp
  qed (use r b in simp_all)
  moreover have "q < 10 ^ ?la / 10 ^ (?lb - 1)" unfolding q
  proof (rule frac_less)
    show "0 \<le> (of_int a :: rat)" using a by simp
  qed (use r in simp_all)
  ultimately show "10 powi decexp q \<le> q" "q < 10 powi (decexp q + 1)"
    unfolding quot' by (simp_all add: decexp_def ab Let_def pow10_powi)
qed

section \<open>The length of a printed number\<close>

lemma round_half_even_bounds:
  assumes "0 \<le> y" and "y < of_int n"
  shows "0 \<le> round_half_even y" "round_half_even y \<le> n"
proof -
  have "0 \<le> \<lfloor>y\<rfloor>" "\<lfloor>y\<rfloor> < n" using assms by (simp_all add: floor_less_iff)
  then show "0 \<le> round_half_even y" "round_half_even y \<le> n" by (auto simp: round_half_even_def Let_def)
qed

lemma round_double_representable: "representable (round_double q)"
proof (cases "q = 0")
  case False
  let ?e = "max (binexp \<bar>q\<bar> - 52) (- 1074)"
  let ?r = "round_half_even (\<bar>q\<bar> / pow2 ?e)"
  let ?v = "of_int ?r * pow2 ?e"
  have u: "0 < pow2 ?e" "pow2 (- 1074) \<le> pow2 ?e"
    unfolding pow2_powi by (simp, rule power_int_increasing) simp_all
  then have "0 \<le> \<bar>q\<bar> / pow2 ?e" by simp
  moreover have "\<bar>q\<bar> / pow2 ?e < of_int (\<lfloor>\<bar>q\<bar> / pow2 ?e\<rfloor> + 1)" by linarith
  ultimately have r: "0 \<le> ?r" by (rule round_half_even_bounds)
  have d: "round_double q = (if pow2 1024 \<le> ?v then Inf (q < 0) else Fin (sgn q * ?v))"
    using False by (simp add: round_double_def Let_def)
  show ?thesis
  proof (cases "?r = 0")
    case True
    then show ?thesis unfolding d by (simp add: representable_def)
  next
    case False
    then have "1 * pow2 ?e \<le> ?v" using r u(1) by (intro mult_right_mono) simp_all
    then have "pow2 (- 1074) \<le> ?v" unfolding mult_1 by (rule order_trans [OF u(2)])
    moreover have "\<bar>sgn q * ?v\<bar> = ?v"
      using \<open>q \<noteq> 0\<close> r u(1) by (simp add: abs_mult sgn_if)
    ultimately show ?thesis unfolding d representable_def by (simp only: not_le double.case split: if_split) auto
  qed
qed (simp add: round_double_def representable_def)

lemma decexp_range:
  assumes "pow2 (- 1074) \<le> q" and "q < pow2 1024"
  shows "- 324 \<le> decexp q" "decexp q \<le> 308"
proof -
  have q: "0 < q" using assms(1) by (rule less_le_trans [rotated]) (simp add: pow2_def)
  note b = decexp_bounds [OF q]
  have "pow2 1024 \<le> 10 powi 309" by (simp add: pow2_powi)
  then have "10 powi decexp q < (10 :: rat) powi 309" using b(1) assms(2) by linarith
  then show "decexp q \<le> 308" using powi_less_imp by fastforce
  have "(10 :: rat) powi (- 324) \<le> pow2 (- 1074)" by (simp add: pow2_powi power_int_minus field_simps)
  then have "10 powi (- 324) < (10 :: rat) powi (decexp q + 1)" using b(2) assms(1) by linarith
  then show "- 324 \<le> decexp q" using powi_less_imp by fastforce
qed

lemma length_strip_zeros: "length (strip_zeros s) \<le> length s"
  using length_dropWhile_le [of "\<lambda>c. c = CHR ''0''" "rev s"] by (simp add: strip_zeros_def)

lemma set_strip_zeros: "set (strip_zeros s) \<subseteq> set s"
  by (auto simp: strip_zeros_def dest: set_dropWhileD)

lemma length_point: "length (point s) \<le> length s + 1"
  using length_strip_zeros [of s] by (simp add: point_def Let_def)

lemma c_string_point: "c_string s \<Longrightarrow> c_string (point s)"
  using set_strip_zeros [of s] by (auto simp: point_def c_string_def Let_def)

text \<open>The digits of \<open>%g\<close> and its decimal exponent after rounding.\<close>

lemma format_g_digits:
  assumes "0 < q" and "0 < p"
    and "g_digits p q = (m, x)"
  shows "length (show_nat (nat m)) \<le> p" "x = decexp q \<or> x = decexp q + 1"
proof -
  note digits = assms(3) [unfolded g_digits_def Let_def, symmetric]
  let ?y = "q / pow10 (decexp q - int p + 1)"
  note b = decexp_bounds [OF assms(1)]
  have pos: "0 < pow10 (decexp q - int p + 1)" by (simp add: pow10_def)
  have "decexp q + 1 = int p + (decexp q - int p + 1)" by simp
  then have "10 powi (decexp q + 1) = (10 :: rat) powi int p * 10 powi (decexp q - int p + 1)"
    by (metis power_int_add zero_neq_numeral)
  then have "q < 10 ^ p * pow10 (decexp q - int p + 1)" using b(2) by (simp add: pow10_powi)
  then have "?y < of_int (10 ^ p)" using pos by (simp add: divide_less_eq)
  moreover have "0 \<le> ?y" using assms(1) pos by simp
  ultimately have r: "0 \<le> round_half_even ?y" "round_half_even ?y \<le> 10 ^ p"
    using round_half_even_bounds [of ?y "10 ^ p"] by auto
  have "0 \<le> m \<and> m < 10 ^ p"
  proof (cases "round_half_even ?y = 10 ^ p")
    case True
    then have "m = 10 ^ (p - 1)" using digits by simp
    then show ?thesis using assms(2) by (simp add: power_strict_increasing)
  next
    case False
    then show ?thesis using r digits by simp
  qed
  then have "nat m < 10 ^ p" by (simp add: nat_less_iff)
  then show "length (show_nat (nat m)) \<le> p" using assms(2) by (rule length_show_nat)
  show "x = decexp q \<or> x = decexp q + 1" using digits by (auto split: if_splits)
qed

lemma point_Nil [simp]: "point [] = []"
  by (simp add: point_def strip_zeros_def)

lemma c_string_drop: "c_string s \<Longrightarrow> c_string (drop k s)"
  by (auto simp: c_string_def dest: in_set_dropD)

lemma g_text_fits:
  assumes "length ds \<le> p" and "c_string ds" and "\<bar>x\<bar> < 1000"
  shows "length (g_text p ds x) \<le> p + 6" "c_string (g_text p ds x)"
proof -
  let ?n = "show_nat (nat \<bar>x\<bar>)" and ?z = "if \<bar>x\<bar> < 10 then ''0'' else []"
  have "nat \<bar>x\<bar> < 10 ^ 3" using assms(3) by simp
  then have e: "length ?n \<le> 3" by (rule length_show_nat) simp
  have split: "length (take k ds) + length (point (drop k ds)) \<le> p + 1" for k
    using length_point [of "drop k ds"] assms(1) by (cases "length ds \<le> k") simp_all
  have small: "length (point (replicate (nat (- x) - 1) (CHR ''0'') @ ds)) \<le> p + 4" if "- 4 \<le> x"
    using length_point [of "replicate (nat (- x) - 1) (CHR ''0'') @ ds"] that assms(1) by simp
  have lead: "length ?z + length ?n \<le> 3"
  proof (cases "\<bar>x\<bar> < 10")
    case True
    then have "nat \<bar>x\<bar> < 10 ^ 1" by simp
    then have "length ?n \<le> 1" by (rule length_show_nat) simp
    then show ?thesis using True by simp
  qed (use e in simp)
  show "length (g_text p ds x) \<le> p + 6"
  proof (cases "x < - 4 \<or> int p \<le> x")
    case True
    then have "length (g_text p ds x) =
        length (take 1 ds) + length (point (drop 1 ds)) + 2 + (length ?z + length ?n)"
      unfolding g_text_def by (simp only: if_True length_append) simp
    then show ?thesis using split [of 1] lead by linarith
  next
    case False
    then show ?thesis using split [of "nat x + 1"] small unfolding g_text_def
      by (cases "0 \<le> x") (simp_all only: if_True if_False length_append, simp_all)
  qed
  show "c_string (g_text p ds x)"
  proof -
    have "c_string (replicate k (CHR ''0'') @ ds)" for k using assms(2) by (auto simp: c_string_def)
    then show ?thesis
      unfolding g_text_def using assms(2) by (simp add: c_string_point c_string_drop c_string_take)
  qed
qed

lemma format_g_fits:
  assumes "representable (Fin q)" and "0 < p"
  shows "length (format_g p q) \<le> p + 7 \<and> c_string (format_g p q)"
proof (cases "q = 0")
  case False
  obtain m x where mx: "g_digits p \<bar>q\<bar> = (m, x)" by (cases "g_digits p \<bar>q\<bar>")
  have q: "0 < \<bar>q\<bar>" "pow2 (- 1074) \<le> \<bar>q\<bar>" "\<bar>q\<bar> < pow2 1024"
    using assms(1) False by (auto simp: representable_def)
  note d = format_g_digits [OF q(1) assms(2) mx]
  have "\<bar>x\<bar> < 1000" using d(2) decexp_range [OF q(2,3)] by auto
  from g_text_fits [OF d(1) c_string_show_nat this] show ?thesis using False by (simp add: format_g_def mx)
qed (simp add: format_g_def)

end
