(* ===== verification/ParsedTypes.thy ===== *)
theory ParsedTypes
  imports CJsonParseSafe DoubleText
begin

text \<open>
  What the parser makes is well typed: which fields of an item mean something depends on its
  type, and the parser leaves all others as they were made.
\<close>

section \<open>Well-typed items\<close>

fun well_typed :: "cJSON \<Rightarrow> bool" where
  "well_typed (Item k r c vs vi vd n ch) \<longleftrightarrow>
     \<not> r \<and> \<not> c \<and> k \<noteq> cJSON_Invalid \<and> k \<noteq> cJSON_Raw \<and>
     (vs \<noteq> None \<longleftrightarrow> k = cJSON_String) \<and> pred_option c_string vs \<and> pred_option c_string n \<and>
     (k = cJSON_Number \<longrightarrow> representable vd \<and> saturate vd = Inr vi) \<and>
     (k \<noteq> cJSON_Array \<and> k \<noteq> cJSON_Object \<longrightarrow> ch = []) \<and>
     (\<forall>x \<in> set ch. well_typed x \<and> (name x \<noteq> None \<longleftrightarrow> k = cJSON_Object))"

text \<open>An item that is about to get its value; what a name is parsed into has a type already.\<close>

definition blank :: "string option \<Rightarrow> cJSON \<Rightarrow> bool" where
  "blank n it \<longleftrightarrow> (\<exists>k. it = Item k False False None 0 (Fin 0) n []) \<and> pred_option c_string n"

text \<open>Every value a program returns satisfies \<open>P\<close>.\<close>

definition gives :: "('a \<Rightarrow> bool) \<Rightarrow> ('s, 'a) prog \<Rightarrow> bool" where
  "gives P m \<longleftrightarrow> (\<forall>s. wp m (\<lambda>x _. P x) (\<lambda>_. True) s)"

named_theorems gives_rules

lemma gives_True: "gives (\<lambda>_. True) m"
  by (auto simp: gives_def wp_def split: sum.splits)

lemma gives_ret [gives_rules]: "P x \<Longrightarrow> gives P (ret x)"
  by (simp add: gives_def)

lemma gives_halt [gives_rules]: "gives P (halt e)"
  by (simp add: gives_def)

lemma gives_bind: "gives R m \<Longrightarrow> (\<And>x. R x \<Longrightarrow> gives P (f x)) \<Longrightarrow> gives P (andthen m f)"
  by (auto simp: gives_def intro: wp_mono)

lemma gives_andthen [gives_rules]: "(\<And>x. gives P (f x)) \<Longrightarrow> gives P (andthen m f)"
  by (rule gives_bind [OF gives_True])

lemma gives_if [gives_rules]: "(b \<Longrightarrow> gives P m) \<Longrightarrow> (\<not> b \<Longrightarrow> gives P m') \<Longrightarrow> gives P (if b then m else m')"
  by simp

lemma gives_option [gives_rules]:
  "(x = None \<Longrightarrow> gives P m) \<Longrightarrow> (\<And>y. x = Some y \<Longrightarrow> gives P (f y)) \<Longrightarrow>
   gives P (case x of None \<Rightarrow> m | Some y \<Rightarrow> f y)"
  by (cases x) simp_all

lemma gives_sum [gives_rules]:
  "(\<And>y. x = Inl y \<Longrightarrow> gives P (f y)) \<Longrightarrow> (\<And>y. x = Inr y \<Longrightarrow> gives P (g y)) \<Longrightarrow>
   gives P (case x of Inl y \<Rightarrow> f y | Inr y \<Rightarrow> g y)"
  by (cases x) simp_all

lemma gives_prod [gives_rules]: "(\<And>y z. gives P (f y z)) \<Longrightarrow> gives P (case x of (y, z) \<Rightarrow> f y z)"
  by (cases x) simp

lemma gives_lift: "gives (\<lambda>x. r = Inr x) (lift r)"
  by (cases r) (simp_all add: gives_def)

section \<open>The parser\<close>

abbreviation typed_item :: "string option \<Rightarrow> cJSON option \<Rightarrow> bool" where
  "typed_item n \<equiv> pred_option (\<lambda>t. well_typed t \<and> name t = n)"

abbreviation typed_items :: "kind \<Rightarrow> cJSON list option \<Rightarrow> bool" where
  "typed_items k \<equiv> pred_option (\<lambda>ts. \<forall>x \<in> set ts. well_typed x \<and> (name x \<noteq> None \<longleftrightarrow> k = cJSON_Object))"

lemma gives_new_item: "gives (pred_option (blank None)) (pb_alloc cJSON_New_Item)"
  by (auto simp: gives_def pb_alloc_def cJSON_New_Item_def blank_def empty_item_def split: list.splits)

lemma strtod_representable: "representable (fst (strtod s))"
proof -
  have "representable (Fin 0)" by (simp add: representable_def)
  then show ?thesis using round_double_representable
    by (simp add: strtod_def Let_def split: prod.splits)
qed

lemma gives_strtod: "gives (\<lambda>r. representable (fst r)) (gets (\<lambda>b. strtod (f b)))"
  by (simp add: gives_def strtod_representable)

lemma number_typed:
  assumes "blank n it"
  shows "gives (typed_item n) (parse_number it)"
  unfolding parse_number_def
proof (rule gives_bind [OF gives_strtod])
  fix r :: "double \<times> nat"
  assume r: "representable (fst r)"
  show "gives (typed_item n) (case r of (number, used) \<Rightarrow> if used = 0 then ret None
      else andthen (lift (saturate number)) (\<lambda>vi. andthen (advance used) (\<lambda>_.
        ret (Some (set_kind cJSON_Number (set_valueint vi (set_valuedouble number it)))))))"
    by (cases r, simp only: prod.case, intro gives_rules gives_bind [OF gives_lift])
      (use r assms in \<open>auto simp: blank_def\<close>)
qed

lemma string_typed: "blank n it \<Longrightarrow> gives (typed_item n) (parse_string it)"
  unfolding parse_string_def string_fail_def Let_def
  by (intro gives_rules) (auto simp: blank_def)

lemma take_name_blank: "blank None it \<Longrightarrow> gives (pred_option (\<lambda>t. \<exists>n. n \<noteq> None \<and> blank n (take_name t))) (parse_string it)"
  unfolding parse_string_def string_fail_def Let_def
  by (intro gives_rules) (auto simp: blank_def take_name_def)

lemma more_items_typed:
  assumes "\<And>xs. typed_items k (Some xs) \<Longrightarrow> gives (typed_items k) (loop xs)"
    and "typed_items k (Some items)" and "typed_item n r" and "n \<noteq> None \<longleftrightarrow> k = cJSON_Object"
  shows "gives (typed_items k) (more_items loop items r)"
  using assms(2-) unfolding more_items_def by (intro gives_rules assms(1)) auto

lemma loops_typed:
  assumes "\<And>n it. blank n it \<Longrightarrow> gives (typed_item n) (vp it)"
  shows "typed_items cJSON_Array (Some xs) \<Longrightarrow> gives (typed_items cJSON_Array) (parse_elements rounds vp xs)"
    and "typed_items cJSON_Object (Some xs) \<Longrightarrow> gives (typed_items cJSON_Object) (parse_members rounds vp xs)"
proof -
  show "typed_items cJSON_Array (Some xs) \<Longrightarrow> gives (typed_items cJSON_Array) (parse_elements rounds vp xs)"
  proof (induction rounds arbitrary: xs)
    case (Suc rounds)
    have items: "typed_items cJSON_Array (Some xs)" using Suc.prems .
    show ?case unfolding parse_elements.simps
    proof (rule gives_bind [OF gives_new_item], rule gives_option)
      fix r current_item
      assume "pred_option (blank None) r" and "r = Some current_item"
      then have "blank None current_item" by simp
      have more: "gives (typed_items cJSON_Array) (more_items (parse_elements rounds vp) xs r)"
        if "typed_item None r" for r
        by (rule more_items_typed [OF Suc.IH items that]) auto
      have step: "gives (typed_items cJSON_Array) (andthen (vp current_item) (more_items (parse_elements rounds vp) xs))"
        by (rule gives_bind [OF assms more]) (rule \<open>blank None current_item\<close>)
      show "gives (typed_items cJSON_Array) (andthen (advance 1) (\<lambda>_. andthen buffer_skip_whitespace (\<lambda>_.
          andthen (vp current_item) (more_items (parse_elements rounds vp) xs))))"
        by (rule gives_andthen, rule gives_andthen, rule step)
    qed (simp add: gives_ret)
  qed (simp add: gives_halt)
  show "typed_items cJSON_Object (Some xs) \<Longrightarrow> gives (typed_items cJSON_Object) (parse_members rounds vp xs)"
  proof (induction rounds arbitrary: xs)
    case (Suc rounds)
    have step: "gives (typed_items cJSON_Object) (andthen (vp (take_name t)) (more_items (parse_members rounds vp) xs))"
      if "\<exists>n. n \<noteq> None \<and> blank n (take_name t)" for t
    proof -
      from that obtain n where n: "n \<noteq> None" "blank n (take_name t)" by (elim exE conjE)
      show ?thesis
        by (rule gives_bind [OF assms [OF n(2)]], rule more_items_typed [OF Suc.IH, where n = n])
          (use n(1) Suc.prems in auto)
    qed
    show ?case unfolding parse_members.simps
    proof (rule gives_bind [OF gives_new_item], rule gives_option)
      fix r current_item
      assume "pred_option (blank None) r" and "r = Some current_item"
      then have "blank None current_item" by simp
      note key = gives_bind [OF take_name_blank [OF this]]
      show "gives (typed_items cJSON_Object) (andthen (advance 1) (\<lambda>_. andthen buffer_skip_whitespace (\<lambda>_.
          andthen (parse_string current_item) (\<lambda>r. case r of None \<Rightarrow> ret None | Some named \<Rightarrow>
            andthen buffer_skip_whitespace (\<lambda>_. andthen (gets (looking_at (CHR '':''))) (\<lambda>colon.
            if \<not> colon then ret None
            else andthen (advance 1) (\<lambda>_. andthen buffer_skip_whitespace (\<lambda>_.
              andthen (vp (take_name named)) (more_items (parse_members rounds vp) xs)))))))))"
        by (rule gives_andthen, rule gives_andthen, rule key, rule gives_option, simp add: gives_ret,
            rule gives_andthen, rule gives_andthen, rule gives_if, simp add: gives_ret,
            rule gives_andthen, rule gives_andthen, rule step, simp)
    qed (simp add: gives_ret)
  qed (simp add: gives_halt)
qed

lemma bracketed_typed:
  assumes "blank n it" and "gives (typed_items k) items" and "k = cJSON_Array \<or> k = cJSON_Object"
  shows "gives (typed_item n) (bracketed k c it items)"
proof -
  have "gives (typed_item n) (close_items k c it r)" if "typed_items k r" for r
    using that assms(1,3) unfolding close_items_def finish_def
    by (intro gives_rules) (auto simp: blank_def)
  moreover have "gives (typed_item n) (finish k it [])"
    using assms(1,3) unfolding finish_def by (intro gives_rules) (auto simp: blank_def)
  ultimately show ?thesis unfolding bracketed_def
    by (intro gives_rules gives_bind [OF assms(2)]) auto
qed

lemma value_typed: "blank n it \<Longrightarrow> gives (typed_item n) (parse_value fuel limit it)"
proof (induction fuel arbitrary: n it)
  case (Suc fuel)
  note loops = loops_typed [OF Suc.IH, where xs = "[]"]
  show ?case unfolding parse_value.simps parse_array_def parse_object_def
    by (intro gives_rules string_typed number_typed bracketed_typed loops)
      (use Suc.prems in \<open>auto simp: blank_def\<close>)
qed (simp add: gives_halt)

lemma root_typed: "gives (typed_item None) (parse_root limit strict)"
  unfolding parse_root_def
  by (rule gives_bind [OF gives_new_item], intro gives_rules gives_bind [OF value_typed]) auto

section \<open>Theorem\<close>

lemma parsed_run:
  "\<exists>item h'. cJSON_Parse limit src h = Inr (item, h') \<and>
    pred_option (\<lambda>t. well_typed t \<and> name t = None) item"
proof -
  obtain item h' where r: "cJSON_Parse limit src h = Inr (item, h')" using cJSON_Parse_total by blast
  have "wp (parse_root limit False) (\<lambda>x _. typed_item None x) (\<lambda>_. True)
      \<lparr>content = src @ [NUL], offset = 0, depth = 0, hooks = h\<rparr>"
    using root_typed by (simp add: gives_def)
  then have "typed_item None item" using r
    by (auto simp: cJSON_Parse_def run cJSON_ParseWithOpts_def cJSON_ParseWithLengthOpts_def wp_def
        parse_failure_def Let_def split: sum.splits option.splits prod.splits)
  with r show ?thesis by blast
qed

text \<open>
  C40: the parser returns NULL or a well-typed item without a name: strings have a text and
  numbers a value a \<open>double\<close> can have, with the \<open>int\<close> nearest to it; only arrays and objects have
  children, unnamed in arrays and named in objects; nothing is a reference, a constant name, or
  of another type.
\<close>

theorem parsed_item_well_typed:
  "\<exists>item h'. cJSON_Parse limit src h = Inr (item, h') \<and>
    pred_option (\<lambda>t. well_typed t \<and> name t = None) item"
  by (rule parsed_run)

end
