(* ===== verification/PrintParsed.thy ===== *)
theory PrintParsed
  imports ParsedTypes ClientProps
begin

text \<open>
  Printing what was parsed: whatever the text, its item can be printed, and so the child
  process of the UDP client, which parses and prints everything it receives, survives it.
\<close>

lemma number_text_fits:
  assumes "representable d" and "saturate d = Inr vi"
  shows "length (number_text d vi) \<le> 25 \<and> c_string (number_text d vi)"
proof (cases d)
  case (Fin q)
  have i: "length (show_int vi) \<le> 11" using length_show_int [OF saturate_is_int [OF assms(2)]] .
  have "length (format_g p q) \<le> p + 7 \<and> c_string (format_g p q)" if "0 < p" for p
    using format_g_fits [OF _ that] assms(1) Fin by simp
  from this [of 15] this [of 17] i show ?thesis
    by (auto simp: Fin number_text_def Let_def split: prod.splits)
qed (simp_all add: number_text_def)

lemma well_typed_printable: "well_typed t \<Longrightarrow> printable t"
  by (induction t) (auto simp: number_text_fits)

lemma print_parsed_run:
  obtains item h1 r h2 where "cJSON_Parse limit src h = Inr (item, h1)" "cJSON_Print item h1 = Inr (r, h2)"
    "item = None \<Longrightarrow> r = None" "\<And>t. item = Some t \<Longrightarrow> r = None \<or> r = render True 0 t"
proof -
  obtain item h1 where p: "cJSON_Parse limit src h = Inr (item, h1)" "pred_option well_typed item"
    using parsed_run [of limit src h] by (auto simp: option.pred_set)
  show ?thesis
  proof (cases item)
    case None
    then have "\<exists>r h2. cJSON_Print item h1 = Inr (r, h2) \<and> r = None"
      by (auto simp: cJSON_Print_def print_def run alloc_def split: list.splits)
    then show ?thesis using that p(1) None by blast
  next
    case (Some t)
    then have "printable t" using p(2) by (simp add: well_typed_printable)
    from print_ok [OF this, of True h1] obtain r h2 where "cJSON_Print item h1 = Inr (r, h2)"
      "prints_text (render True 0 t) h1 r h2"
      by (auto simp: wp_total cJSON_Print_def Some)
    then show ?thesis using that [OF p(1)] Some by (auto simp: prints_text_def split: option.splits)
  qed
qed

text \<open>
  C9: parsing any text and printing the result returns, whatever allocations fail: in
  particular no number, however it was written, has a text that does not fit the buffer of 26
  bytes of \<open>print_number\<close>. What is printed, if anything, is the rendering of the item.
\<close>

theorem parsed_item_prints:
  "\<exists>item h1 r h2. cJSON_Parse limit src h = Inr (item, h1) \<and> cJSON_Print item h1 = Inr (r, h2) \<and>
    (case item of None \<Rightarrow> r = None | Some t \<Rightarrow> r \<in> {None, render True 0 t})"
  by (rule print_parsed_run [of limit src h]) (auto split: option.splits)

text \<open>
  The child process of the UDP client prints what the server sends and waits for more: no
  datagram that fits the buffer ends or breaks it, not even the message disconnect, and it
  sends nothing.
\<close>

theorem udp_child_survives:
  assumes "client_connected s" and "\<forall>bytes. Some bytes \<in> set rs \<longrightarrow> length bytes < BUFFER_SIZE"
  shows "\<exists>h. udp_handle_server_messages fd limit rs s = Inr ((), s\<lparr>client_heap := h\<rparr>)"
  using assms
proof (induction rs arbitrary: s)
  case Nil
  have "s\<lparr>client_heap := client_heap s\<rparr> = s" by simp
  then show ?case by (metis ret_apply udp_handle_server_messages.simps(1))
next
  case (Cons r rs)
  have "\<exists>h. receive_and_handle_json limit r s = Inr ((), s\<lparr>client_heap := h\<rparr>)"
  proof (cases "r = None \<or> r = Some []")
    case True
    then have "receive_and_handle_json limit r s = Inr ((), s\<lparr>client_heap := client_heap s\<rparr>)"
      by (auto simp: receive_and_handle_json_def run)
    then show ?thesis by blast
  next
    case False
    then obtain bytes where r: "r = Some bytes" "bytes \<noteq> []" by auto
    then have l: "length bytes < BUFFER_SIZE" using Cons.prems(2) by simp
    obtain item h1 u h2 where p: "cJSON_Parse limit (upto_nul bytes) (client_heap s) = Inr (item, h1)"
      "cJSON_Print item h1 = Inr (u, h2)" by (rule print_parsed_run)
    then show ?thesis using l
      by (auto simp: r receive_and_handle_json_def handle_received_json_def received_string_def run on_heap_def zoom_def Let_def)
  qed
  then obtain h where h: "receive_and_handle_json limit r s = Inr ((), s\<lparr>client_heap := h\<rparr>)" by blast
  have "\<exists>h'. udp_handle_server_messages fd limit rs (s\<lparr>client_heap := h\<rparr>) = Inr ((), s\<lparr>client_heap := h'\<rparr>)"
    using Cons.IH [of "s\<lparr>client_heap := h\<rparr>"] Cons.prems by simp
  then show ?case using Cons.prems(1) h by (simp add: run)
qed

end
