(* ===== verification/Spec2Isabelle.thy ===== *)
theory Spec2Isabelle
  imports AlertFlow ClientServer ServerStart Signals UnixClients CJsonLinks Minified CJsonMore CJsonBuffers PrintParsed
begin

text \<open>
  A verification development for the shelter server: a C program in which one server process
  keeps the supplies of a shelter, answers clients over TCP, UDP and a Unix socket with JSON
  messages, and broadcasts the alerts a child process writes into a FIFO.

  \<^bold>\<open>How C is modelled.\<close> A C function is a function on an explicit state that returns a value with
  the next state, or stops (\<open>Prelude\<close>): with undefined behaviour named by its kind, with
  \<open>exit\<close>, or out of fuel. So the theorems that an operation returns say in particular that it
  stays in its arrays, dereferences no NULL pointer, overflows no \<open>int\<close> and ends. A struct is a
  record, an enum a datatype, a char array the list of its bytes, a C string the list before the
  terminator, a pointer that may be NULL an option. Allocation failures are choices of an
  allocator whose future outcomes are part of the state; an empty list is an allocator that
  never fails again.

  \<^bold>\<open>The parts and their theories.\<close>
  \<^item> \<open>lib/cJSON/src/cJSON.c\<close>: \<open>CDouble\<close> has \<open>double\<close> and the conversions of the C library the
    JSON code uses; \<open>CJson\<close> the item tree, the lookup and the constructors; \<open>CJsonParse\<close> the
    parser with its buffer; \<open>CJsonPrint\<close> the printer with its growing buffer.
    \<open>CJsonParseSafe\<close> shows that parsing any C string returns, whatever allocations fail. Its
    fuel is the length of the text: every nested call of \<open>parse_value\<close> has read a byte.
    \<open>CJsonRender\<close> defines the text of an item as a function on trees and shows that the
    printer's buffer ends up holding it. \<open>RoundTrip\<close> shows that the parser reads this text back
    as the item it came from, for items of literals, integers, strings, arrays and objects;
    \<open>ParsedTypes\<close> that whatever the parser makes is well typed, and \<open>PrintParsed\<close> that it can be
    printed, with what that means for the UDP client; \<open>DoubleText\<close> bounds the text of a number. \<open>CJsonBuffers\<close> has the entry
    points with a size (printing into the caller's memory) and the allocation functions;
    \<open>CJsonMore\<close> the type tests, arrays of values, references, editing by name, duplicating and
    comparing, on trees; \<open>CJsonMinify\<close> the minifier in its buffer, and \<open>Minified\<close> what it makes of
    printed texts. \<open>CJsonLinks\<close> has the functions that change the pointers of items on a memory
    with one map per field: linking, detaching, inserting, replacing and deleting, with the list
    that the children form and the memory that is freed. Their contract is a locale that a
    second one extends, interpreted with the pointer structure.
  \<^item> \<open>lib/suppliesData\<close>: \<open>Supplies\<close> has the two shared memory segments, their initialisation,
    the update from a message, and the JSON form the server sends.
  \<^item> \<open>src/server/server.c\<close>: \<open>Net\<close> has the address structures and their text; \<open>Registry\<close> the
    loops over fixed arrays and the contract of a bounded registry, a locale that
    \<open>TcpClients\<close> and \<open>UdpClients\<close> interpret with the code's two lists; \<open>Emergency\<close> the alert
    counters, the last event and the summary; \<open>World\<close> the state of the process and what all
    handlers use; \<open>Handlers\<close> the handlers for TCP and UDP; \<open>EventLoop\<close> the Unix socket, the
    alerts, the signal handler, the start and the loop over \<open>select\<close>.
  \<^item> \<open>lib/socketSetup\<close> and \<open>src/emergNotif.c\<close>: \<open>SocketSetup\<close> has every function as the system
    calls it makes and the result it returns for the answers of the system, and the choice of
    a free port.
  \<^item> \<open>lib/alertInfection\<close> and the child process of the server that uses it: \<open>Sensors\<close> has
    the readings with the arithmetic of \<open>float\<close>, the text of an alert and the turns of the
    process; \<open>AlertFlow\<close> follows an alert from the sensor to the counters of the server.
  \<^item> \<open>src/main.c\<close> and the command lines of all programs: \<open>CommandLine\<close>, with \<open>getopt\<close>, the
    conversion of numbers, and the shared memory that tells clients the ports; \<open>ServerStart\<close>
    goes from the command line through the ports, children, sockets and FIFO to the loop.
  \<^item> \<open>src/clients\<close>: \<open>ClientText\<close> has the lines read from files and the terminal and the host
    name; \<open>TcpClient\<close> and \<open>UdpClient\<close> the dialogue of the parent process, the messages the
    child process receives, the connection and the start. The loop over the menu has the length
    of the input as fuel, enough because every turn reads a line or ends. \<open>ClientFacts\<close> has the
    commands of a user as data and the contract of a dialogue as a locale, interpreted with
    both clients; \<open>ClientProps\<close> the sessions; \<open>ClientServer\<close> composes a client with the server:
    from the keyboard to the supplies, and from a notification to the client's end.
    \<open>UnixClients\<close> has the two small clients of the Unix socket and the connection of the tests.
  \<^item> The theorems about the server: \<open>WorldFacts\<close>, \<open>TcpFacts\<close> and \<open>LoopFacts\<close> have the results
    of the operations and the invariant \<open>server_ok\<close>; \<open>ServerSteps\<close> the process as a transition
    system and what holds of its reachable states, \<open>Signals\<close> how it ends; \<open>Samples\<close> some concrete messages;
    \<open>ServerProps\<close> what each kind of request, alert, notification and connection does, and the
    inputs the server does not survive.

  \<^bold>\<open>The environment.\<close> The answers of the operating system in one pass of the loop are a record
  \<open>os\<close>, a parameter of the handlers. \<open>benign\<close> names the assumptions of the theorems about normal
  operation: the home directory is known, the segments are attached, no client has a full
  buffer under way, the \<open>message\<close> and \<open>hostname\<close> members of objects are strings, addresses are
  IPv4 or IPv6, an alert is shorter than 100 bytes, \<open>select\<close> fails only when a signal interrupts
  it, and no peer has reset a connection the server sends to (\<open>send\<close> would raise SIGPIPE, which
  the server does not handle). The state adds the assumption that no allocation fails: the
  process starts with \<open>heap = []\<close>, and \<open>server_ok\<close> keeps it. That the other cases are not
  survived is the subject of theorems of their own (for the last two, \<open>broken_pipe_kills\<close> and
  \<open>failed_print_dereferenced\<close>). What the server and the clients do to the outside are the system
  calls they make, whatever these return.

  A signal comes between two passes or inside \<open>select\<close>, where the server spends its time;
  \<open>select\<close> then fails and the process exits. A signal while a handler of a pass runs acts as
  one after the pass, because a pass neither reads nor writes \<open>running\<close>, nor changes the ids of
  the children (\<open>signal_during_pass\<close>).
  The sweep over the descriptors has fuel \<open>FD_SETSIZE + 1\<close> less the first descriptor, which is
  enough because no descriptor set reaches further.

  \<^bold>\<open>Not modelled.\<close> What is only printed on the terminal, and the redirection of the standard
  output (\<open>redirect_output_to_parent\<close>); \<open>cJSON_Version\<close> and \<open>cJSON_GetErrorPtr\<close>, of which the
  first formats a constant and the second reads a position that is part of the parse result;
  allocation functions other than those of the C library, which no part of the program installs.
  \<open>parse_command_line_args\<close>, \<open>get_os_id\<close>, \<open>extract_value\<close> and \<open>encode_utf8\<close> have the same text in
  both clients and are modelled once. The memory given back by \<open>cJSON_Delete\<close> is modelled in
  \<open>CJsonLinks\<close> only; items are trees elsewhere, so what two items share after a reference was
  made is not followed. The headers declare what the source files define; their structures are
  modelled where they are used. The processes run one at a time: what one writes into a FIFO or a socket is
  what a later step of the other finds there.
\<close>

end
